(* ===== verification/Prelude.thy ===== *)
theory Prelude
  imports Main "HOL-Library.Word" "HOL-Library.Char_ord" "HOL-Library.List_Lexorder"
begin

text \<open>
  Shared ground of the development: the types that stand for the Go types of the source,
  the lemma collections, and generic facts on lists and bytes.

  A Go \<open>[]byte\<close> and a Go \<open>string\<close> are both byte sequences; both are modelled as HOL's
  \<open>string\<close>, a list of 8-bit characters. A nil slice and an empty slice are identified, as the
  code only ever asks for their length or their contents. The order of strings is the bytewise
  lexicographic order of \<open>HOL-Library.List_Lexorder\<close>, which is Go's \<open><\<close> on strings.
\<close>

type_synonym bytes = string
type_synonym u8 = "8 word"
type_synonym u32 = "32 word"
type_synonym u64 = "64 word"

named_theorems wire_simps \<open>evaluation and length facts of the byte-level encoders and decoders\<close>
named_theorems opt_simps \<open>laws of the option trees and the containers built on them\<close>
named_theorems step_defs \<open>definitions of handlers and table operations\<close>

subsection \<open>Bytes as numbers\<close>

abbreviation byte_val :: "char \<Rightarrow> nat" where
  "byte_val c \<equiv> of_char c"

abbreviation byte_of :: "nat \<Rightarrow> char" where
  "byte_of n \<equiv> char_of n"

lemma byte_val_less [simp]: "byte_val c < 256"
  by simp

lemma byte_val_le [simp]: "byte_val c \<le> 255"
  using byte_val_less [of c] by linarith

lemma byte_val_of [simp, wire_simps]: "n < 256 \<Longrightarrow> byte_val (byte_of n) = n"
  by simp

lemma byte_val_inj [simp]: "byte_val c = byte_val d \<longleftrightarrow> c = d"
  by simp

subsection \<open>Fixed-size chunks of a list\<close>

lemma take_drop_append:
  "length xs = n \<Longrightarrow> take n (xs @ ys) = xs \<and> drop n (xs @ ys) = ys"
  by simp

lemma length_concat_sum: "length (concat xss) = sum_list (map length xss)"
  by (induction xss) auto

lemma all_less_sum_list_bound:
  "(\<And>x. x \<in> set xs \<Longrightarrow> x \<le> (b::nat)) \<Longrightarrow> sum_list xs \<le> length xs * b"
  by (induction xs) force+

subsection \<open>Base-64 positional arithmetic\<close>

lemma split64: "(a::nat) div 64 * 64 + a mod 64 = a"
  by simp

lemma horner3: "(x::nat) * 4096 + y * 64 + z = (x * 64 + y) * 64 + z"
  by simp

lemma horner4: "(w::nat) * 262144 + x * 4096 + y * 64 + z = (w * 4096 + x * 64 + y) * 64 + z"
  by simp

lemma split64_3: "(a::nat) div 4096 * 4096 + a div 64 mod 64 * 64 + a mod 64 = a"
proof -
  have e: "a div 4096 = a div 64 div 64" by (simp add: div_mult2_eq [symmetric])
  show ?thesis by (simp only: e horner3 split64)
qed

lemma split64_4:
  "(a::nat) div 262144 * 262144 + a div 4096 mod 64 * 4096 + a div 64 mod 64 * 64 + a mod 64 = a"
proof -
  have e: "a div 262144 = a div 64 div 4096" "a div 4096 = a div 64 div 64"
    by (simp_all add: div_mult2_eq [symmetric])
  show ?thesis by (simp only: e horner4 split64_3 split64)
qed

subsection \<open>Splitting a string at a separator byte\<close>

text \<open>Go's \<open>strings.Split\<close> for a separator of one byte: never the empty list.\<close>

fun split_on :: "char \<Rightarrow> string \<Rightarrow> string list" where
  "split_on c [] = [[]]"
| "split_on c (x # xs) =
     (if x = c then [] # split_on c xs
      else (case split_on c xs of [] \<Rightarrow> [[x]] | y # ys \<Rightarrow> (x # y) # ys))"

fun join_with :: "char \<Rightarrow> string list \<Rightarrow> string" where
  "join_with c [] = []"
| "join_with c [x] = x"
| "join_with c (x # y # zs) = x @ c # join_with c (y # zs)"

lemma split_on_nonempty [simp]: "split_on c s \<noteq> []"
  by (induction s) (auto split: list.splits)

lemma split_on_no_sep: "x \<in> set (split_on c s) \<Longrightarrow> c \<notin> set x"
  by (induction s arbitrary: x) (auto split: list.splits if_splits)

lemma split_on_free: "c \<notin> set s \<Longrightarrow> split_on c s = [s]"
  by (induction s) auto

lemma split_on_append:
  "c \<notin> set x \<Longrightarrow> split_on c (x @ c # s) = x # split_on c s"
  by (induction x) (auto split: list.splits)

lemma join_with_Cons:
  "ys \<noteq> [] \<Longrightarrow> join_with c (x # ys) = x @ c # join_with c ys"
  by (cases ys) auto

lemma join_split: "join_with c (split_on c s) = s"
proof (induction s)
  case Nil
  show ?case by simp
next
  case (Cons a s)
  obtain y ys where ys: "split_on c s = y # ys"
    by (metis list.exhaust split_on_nonempty)
  show ?case
    using Cons.IH ys by (cases ys) (auto simp: join_with_Cons)
qed

lemma split_join:
  "xs \<noteq> [] \<Longrightarrow> (\<And>x. x \<in> set xs \<Longrightarrow> c \<notin> set x) \<Longrightarrow> split_on c (join_with c xs) = xs"
proof (induction xs rule: join_with.induct)
  case (3 c x y zs)
  then show ?case by (simp add: split_on_append)
qed (simp_all add: split_on_free)

subsection \<open>Sums as results\<close>

fun bind_sum :: "'e + 'a \<Rightarrow> ('a \<Rightarrow> 'e + 'b) \<Rightarrow> 'e + 'b" where
  "bind_sum (Inl e) f = Inl e"
| "bind_sum (Inr a) f = f a"

lemma bind_sum_Inr: "bind_sum r f = Inr b \<longleftrightarrow> (\<exists>a. r = Inr a \<and> f a = Inr b)"
  by (cases r) auto

lemma bind_sum_Inl: "bind_sum r f = Inl e \<longleftrightarrow> r = Inl e \<or> (\<exists>a. r = Inr a \<and> f a = Inl e)"
  by (cases r) auto

lemma bind_sum_cong [fundef_cong]:
  "r = r' \<Longrightarrow> (\<And>a. r' = Inr a \<Longrightarrow> f a = g a) \<Longrightarrow> bind_sum r f = bind_sum r' g"
  by (cases r') auto

subsection \<open>Outcomes of a call\<close>

text \<open>A call returns a value, panics, or never returns (it waits for itself).\<close>

datatype 'a outcome = Ret 'a | Panic | Hang

fun bind_out :: "'a outcome \<Rightarrow> ('a \<Rightarrow> 'b outcome) \<Rightarrow> 'b outcome" where
  "bind_out (Ret a) f = f a"
| "bind_out Panic f = Panic"
| "bind_out Hang f = Hang"

lemma bind_out_Ret: "bind_out r f = Ret b \<longleftrightarrow> (\<exists>a. r = Ret a \<and> f a = Ret b)"
  by (cases r) auto

lemma bind_out_assoc: "bind_out (bind_out r f) g = bind_out r (\<lambda>a. bind_out (f a) g)"
  by (cases r) auto

lemma bind_out_id [simp]: "bind_out r Ret = r"
  by (cases r) auto

lemma bind_out_cong [fundef_cong]:
  "r = r' \<Longrightarrow> (\<And>a. r' = Ret a \<Longrightarrow> f a = g a) \<Longrightarrow> bind_out r f = bind_out r' g"
  by (cases r') auto

end
