(* ===== verification/GoEncoding.thy ===== *)
theory GoEncoding
  imports Prelude
begin

text \<open>
  The parts of Go's standard encodings the program uses, over byte strings: \<open>encoding/hex\<close>,
  \<open>encoding/base64\<close> with the unpadded URL alphabet (\<open>base64.RawURLEncoding\<close>), big-endian
  64-bit words (\<open>encoding/binary\<close>) and UTF-8 (\<open>unicode/utf8\<close>). A decoder returns the bytes it
  wrote before it stopped and whether it stopped without an error, as Go's decoders do.
\<close>

section \<open>Hexadecimal\<close>

definition hex_digit :: "nat \<Rightarrow> char" where
  "hex_digit n = byte_of (if n < 10 then 48 + n else 87 + n)"

definition hex_value :: "char \<Rightarrow> nat option" where
  "hex_value c = (let n = byte_val c in
     if 48 \<le> n \<and> n \<le> 57 then Some (n - 48)
     else if 97 \<le> n \<and> n \<le> 102 then Some (n - 87)
     else if 65 \<le> n \<and> n \<le> 70 then Some (n - 55)
     else None)"

fun hex_encode :: "bytes \<Rightarrow> bytes" where
  "hex_encode [] = []"
| "hex_encode (b # bs) =
     hex_digit (byte_val b div 16) # hex_digit (byte_val b mod 16) # hex_encode bs"

fun hex_decode :: "bytes \<Rightarrow> bytes \<times> bool" where
  "hex_decode [] = ([], True)"
| "hex_decode [p] = ([], False)"
| "hex_decode (p # q # r) =
     (case (hex_value p, hex_value q) of
        (Some a, Some b) \<Rightarrow> (let (out, ok) = hex_decode r in (byte_of (16 * a + b) # out, ok))
      | _ \<Rightarrow> ([], False))"

lemma hex_value_digit [wire_simps]: "n < 16 \<Longrightarrow> hex_value (hex_digit n) = Some n"
  by (auto simp: hex_digit_def hex_value_def Let_def)

lemma hex_decode_encode: "hex_decode (hex_encode bs) = (bs, True)"
proof (induction bs)
  case (Cons b bs)
  have "byte_val b div 16 < 16" using byte_val_less [of b] by linarith
  then show ?case
    using Cons by (simp add: hex_value_digit)
qed simp

lemma hex_encode_length [simp]: "length (hex_encode bs) = 2 * length bs"
  by (induction bs) auto

lemma hex_decode_length: "2 * length (fst (hex_decode s)) \<le> length s"
  by (induction s rule: hex_decode.induct) (auto split: option.splits prod.splits)

lemma hex_decode_ok_length: "snd (hex_decode s) \<Longrightarrow> 2 * length (fst (hex_decode s)) = length s"
  by (induction s rule: hex_decode.induct) (auto split: option.splits prod.splits)

section \<open>Base64, URL alphabet, no padding\<close>

definition b64_alphabet :: string where
  "b64_alphabet = ''ABCDEFGHIJKLMNOPQRSTUVWXYZabcdefghijklmnopqrstuvwxyz0123456789-_''"

definition b64_digit :: "nat \<Rightarrow> char" where
  "b64_digit n = b64_alphabet ! (n mod 64)"

definition b64_value :: "char \<Rightarrow> nat option" where
  "b64_value c = (let n = byte_val c in
     if 65 \<le> n \<and> n \<le> 90 then Some (n - 65)
     else if 97 \<le> n \<and> n \<le> 122 then Some (n - 71)
     else if 48 \<le> n \<and> n \<le> 57 then Some (n + 4)
     else if n = 45 then Some 62
     else if n = 95 then Some 63
     else None)"

fun b64_encode :: "bytes \<Rightarrow> bytes" where
  "b64_encode [] = []"
| "b64_encode [a] = (let v = byte_val a * 16 in [b64_digit (v div 64), b64_digit v])"
| "b64_encode [a, b] = (let v = (byte_val a * 256 + byte_val b) * 4 in
     [b64_digit (v div 4096), b64_digit (v div 64), b64_digit v])"
| "b64_encode (a # b # c # r) =
     (let v = byte_val a * 65536 + byte_val b * 256 + byte_val c in
      b64_digit (v div 262144) # b64_digit (v div 4096) # b64_digit (v div 64) # b64_digit v
      # b64_encode r)"

text \<open>The decoder works on groups of four digits; carriage returns and line feeds are skipped.
  A group that holds a byte outside the alphabet, and a last group of one digit, write nothing
  and are an error; a last group of two or three digits gives one or two bytes.\<close>

fun b64_groups :: "bytes \<Rightarrow> bytes \<times> bool" where
  "b64_groups [] = ([], True)"
| "b64_groups [a] = ([], False)"
| "b64_groups [a, b] =
     (case (b64_value a, b64_value b) of
        (Some x, Some y) \<Rightarrow> ([byte_of ((x * 64 + y) div 16)], True)
      | _ \<Rightarrow> ([], False))"
| "b64_groups [a, b, c] =
     (case (b64_value a, b64_value b, b64_value c) of
        (Some x, Some y, Some z) \<Rightarrow>
          (let v = (x * 4096 + y * 64 + z) div 4 in
           ([byte_of (v div 256), byte_of (v mod 256)], True))
      | _ \<Rightarrow> ([], False))"
| "b64_groups (a # b # c # d # r) =
     (case (b64_value a, b64_value b, b64_value c, b64_value d) of
        (Some x, Some y, Some z, Some w) \<Rightarrow>
          (let v = x * 262144 + y * 4096 + z * 64 + w; (out, ok) = b64_groups r in
           (byte_of (v div 65536) # byte_of (v div 256 mod 256) # byte_of (v mod 256) # out, ok))
      | _ \<Rightarrow> ([], False))"

definition b64_decode :: "bytes \<Rightarrow> bytes \<times> bool" where
  "b64_decode s = b64_groups (filter (\<lambda>c. c \<noteq> CHR 0x0A \<and> c \<noteq> CHR 0x0D) s)"

lemma b64_alphabet_length: "length b64_alphabet = 64"
  by (simp add: b64_alphabet_def)

lemma b64_table: "map b64_value b64_alphabet = map Some [0..<64]"
  by (simp add: b64_alphabet_def b64_value_def upt_rec)

lemma b64_value_digit [wire_simps]: "b64_value (b64_digit n) = Some (n mod 64)"
proof -
  have "map b64_value b64_alphabet ! (n mod 64) = Some (n mod 64)"
    by (simp only: b64_table) simp
  then show ?thesis
    by (simp add: b64_digit_def b64_alphabet_length)
qed

lemma b64_digit_no_newline [simp]: "b64_digit n \<noteq> CHR 0x0A" "b64_digit n \<noteq> CHR 0x0D"
proof -
  have "b64_value (CHR 0x0A) = None" "b64_value (CHR 0x0D) = None"
    by (simp_all add: b64_value_def)
  then show "b64_digit n \<noteq> CHR 0x0A" "b64_digit n \<noteq> CHR 0x0D"
    using b64_value_digit [of n] by (metis option.discI)+
qed

lemma b64_encode_filter:
  "filter (\<lambda>c. c \<noteq> CHR 0x0A \<and> c \<noteq> CHR 0x0D) (b64_encode bs) = b64_encode bs"
  by (induction bs rule: b64_encode.induct) (auto simp: Let_def)

lemma digits2: "(a::nat) < 4096 \<Longrightarrow> a div 64 mod 64 * 64 + a mod 64 = a"
  using split64 [of a] by (simp add: less_mult_imp_div_less)

lemma digits3:
  assumes "(a::nat) < 262144"
  shows "a div 4096 mod 64 * 4096 + a div 64 mod 64 * 64 + a mod 64 = a"
proof -
  have e: "a div 4096 = a div 64 div 64" by (simp add: div_mult2_eq [symmetric])
  have "a div 64 < 4096" using assms by (simp add: less_mult_imp_div_less)
  from digits2 [OF this] show ?thesis
    by (simp only: e horner3 split64)
qed

lemma digits4:
  assumes "(a::nat) < 16777216"
  shows "a div 262144 mod 64 * 262144 + a div 4096 mod 64 * 4096 + a div 64 mod 64 * 64 + a mod 64 = a"
proof -
  have e: "a div 262144 = a div 64 div 4096" "a div 4096 = a div 64 div 64"
    by (simp_all add: div_mult2_eq [symmetric])
  have "a div 64 < 262144" using assms by (simp add: less_mult_imp_div_less)
  from digits3 [OF this] show ?thesis
    by (simp only: e horner4 split64)
qed

lemma bytes2: "(y::nat) < 256 \<Longrightarrow> (x * 256 + y) div 256 = x \<and> (x * 256 + y) mod 256 = y"
  by simp

lemma bytes3:
  assumes "(y::nat) < 256" "(z::nat) < 256"
  shows "(x * 65536 + y * 256 + z) div 65536 = x" "(x * 65536 + y * 256 + z) div 256 mod 256 = y"
    "(x * 65536 + y * 256 + z) mod 256 = z"
proof -
  have e: "x * 65536 + y * 256 + z = (x * 256 + y) * 256 + z" by simp
  then have d: "(x * 65536 + y * 256 + z) div 256 = x * 256 + y"
    using assms bytes2 [of z "x * 256 + y"] by simp
  have "(x * 65536 + y * 256 + z) div 65536 = (x * 65536 + y * 256 + z) div 256 div 256"
    by (simp add: div_mult2_eq [symmetric])
  then show "(x * 65536 + y * 256 + z) div 65536 = x"
    using d assms by simp
  show "(x * 65536 + y * 256 + z) div 256 mod 256 = y"
    using d assms by simp
  show "(x * 65536 + y * 256 + z) mod 256 = z"
    using assms bytes2 [of z "x * 256 + y"] by (simp only: e)
qed

lemma bound2: "(x::nat) \<le> 255 \<Longrightarrow> y \<le> 255 \<Longrightarrow> (x * 256 + y) * 4 < 262144"
  by (simp add: add_mult_distrib)

lemma bound3:
  "(x::nat) \<le> 255 \<Longrightarrow> y \<le> 255 \<Longrightarrow> z \<le> 255 \<Longrightarrow> x * 65536 + y * 256 + z < 16777216"
  by linarith

lemma b64_groups_encode: "b64_groups (b64_encode bs) = (bs, True)"
proof (induction bs rule: b64_encode.induct)
  case (2 a)
  have "byte_val a * 16 < 4096" using byte_val_less [of a] by linarith
  note d = digits2 [OF this]
  show ?case
    by (simp only: b64_encode.simps b64_groups.simps Let_def b64_value_digit d option.case prod.case)
       simp
next
  case (3 a b)
  have "(byte_val a * 256 + byte_val b) * 4 < 262144"
    by (rule bound2 [OF byte_val_le byte_val_le])
  note d = digits3 [OF this]
  show ?case
    by (simp only: b64_encode.simps b64_groups.simps Let_def b64_value_digit d option.case prod.case)
       (simp add: bytes2)
next
  case (4 a b c r)
  have "byte_val a * 65536 + byte_val b * 256 + byte_val c < 16777216"
    by (rule bound3 [OF byte_val_le byte_val_le byte_val_le])
  note d = digits4 [OF this]
  show ?case
    using 4 by (simp only: b64_encode.simps b64_groups.simps Let_def b64_value_digit d
        option.case prod.case bytes3 [OF byte_val_less byte_val_less] char_of_char)
qed simp

lemma b64_decode_encode: "b64_decode (b64_encode bs) = (bs, True)"
  by (simp add: b64_decode_def b64_encode_filter b64_groups_encode)

lemma b64_encode_chars: "c \<in> set (b64_encode bs) \<Longrightarrow> \<exists>n. c = b64_digit n"
  by (induction bs rule: b64_encode.induct) (auto simp: Let_def)

lemma b64_groups_length: "4 * length (fst (b64_groups s)) \<le> 3 * length s"
  by (induction s rule: b64_groups.induct) (auto simp: Let_def split: option.splits prod.splits)

lemma b64_decode_length: "4 * length (fst (b64_decode s)) \<le> 3 * length s"
  using b64_groups_length [of "filter (\<lambda>c. c \<noteq> CHR 0x0A \<and> c \<noteq> CHR 0x0D) s"]
    length_filter_le [of "\<lambda>c. c \<noteq> CHR 0x0A \<and> c \<noteq> CHR 0x0D" s]
  unfolding b64_decode_def by linarith

lemma b64_encode_length3: "length bs mod 3 = 0 \<Longrightarrow> length (b64_encode bs) = length bs div 3 * 4"
  by (induction bs rule: b64_encode.induct) (auto simp: Let_def)

end
