(* ===== verification/Sha256.thy ===== *)
theory Sha256
  imports Prelude
begin

unbundle bit_operations_syntax

text \<open>
  SHA-256 (\<open>crypto/sha256\<close>) and big-endian words (\<open>encoding/binary\<close>), the two parts of Go's
  library that turn a topic name into the 24-byte key everything is routed by. The program
  relies on the digest being 32 bytes long, and on nothing else that can be proved of it; the
  function is written out (FIPS 180-4) so that no hypothesis about it is left.
\<close>

section \<open>Big-endian words\<close>

fun be_value :: "bytes \<Rightarrow> nat \<Rightarrow> nat" where
  "be_value [] acc = acc"
| "be_value (b # bs) acc = be_value bs (acc * 256 + byte_val b)"

fun be_bytes :: "nat \<Rightarrow> nat \<Rightarrow> bytes" where
  "be_bytes 0 v = []"
| "be_bytes (Suc n) v = be_bytes n (v div 256) @ [byte_of (v mod 256)]"

lemma be_bytes_length [simp]: "length (be_bytes n v) = n"
  by (induction n arbitrary: v) auto

lemma be_value_append: "be_value (xs @ ys) acc = be_value ys (be_value xs acc)"
  by (induction xs arbitrary: acc) auto

lemma be_value_bytes: "be_value (be_bytes n v) 0 = v mod 256 ^ n"
proof (induction n arbitrary: v)
  case (Suc n)
  have "v mod 256 ^ Suc n = v div 256 mod 256 ^ n * 256 + v mod 256"
    by (simp add: mod_mult2_eq mult.commute)
  then show ?case
    using Suc by (simp add: be_value_append)
qed simp

lemma be_value_less: "be_value bs 0 < 256 ^ length bs"
proof (induction bs rule: rev_induct)
  case (snoc b bs)
  have "be_value bs 0 * 256 + byte_val b < (be_value bs 0 + 1) * 256" by simp
  also have "\<dots> \<le> 256 ^ length bs * 256" using snoc by (intro mult_right_mono) auto
  finally show ?case by (simp add: be_value_append)
qed simp

lemma be_bytes_value: "be_bytes (length bs) (be_value bs 0) = bs"
proof (induction bs rule: rev_induct)
  case (snoc b bs)
  have "(be_value bs 0 * 256 + byte_val b) div 256 = be_value bs 0" by simp
  then show ?case
    using snoc by (simp add: be_value_append)
qed simp

section \<open>The digest\<close>

definition sha_K :: "u32 list" where
  "sha_K = [
    1116352408, 1899447441, 3049323471, 3921009573, 961987163, 1508970993, 2453635748, 2870763221,
    3624381080, 310598401, 607225278, 1426881987, 1925078388, 2162078206, 2614888103, 3248222580,
    3835390401, 4022224774, 264347078, 604807628, 770255983, 1249150122, 1555081692, 1996064986,
    2554220882, 2821834349, 2952996808, 3210313671, 3336571891, 3584528711, 113926993, 338241895,
    666307205, 773529912, 1294757372, 1396182291, 1695183700, 1986661051, 2177026350, 2456956037,
    2730485921, 2820302411, 3259730800, 3345764771, 3516065817, 3600352804, 4094571909, 275423344,
    430227734, 506948616, 659060556, 883997877, 958139571, 1322822218, 1537002063, 1747873779,
    1955562222, 2024104815, 2227730452, 2361852424, 2428436474, 2756734187, 3204031479, 3329325298]"

definition sha_H :: "u32 list" where
  "sha_H = [0x6a09e667, 0xbb67ae85, 0x3c6ef372, 0xa54ff53a,
            0x510e527f, 0x9b05688c, 0x1f83d9ab, 0x5be0cd19]"

definition sha_rotr :: "nat \<Rightarrow> u32 \<Rightarrow> u32" where
  "sha_rotr n w = (drop_bit n w) OR (push_bit (32 - n) w)"

definition sha_pad :: "bytes \<Rightarrow> bytes" where
  "sha_pad m = m @ [byte_of 128] @ replicate ((119 - length m mod 64) mod 64) (byte_of 0)
     @ be_bytes 8 (8 * length m)"

fun sha_chunks :: "nat \<Rightarrow> bytes \<Rightarrow> bytes list" where
  "sha_chunks 0 m = []"
| "sha_chunks (Suc n) m = take 64 m # sha_chunks n (drop 64 m)"

definition sha_words :: "bytes \<Rightarrow> u32 list" where
  "sha_words c = map (\<lambda>i. of_nat (be_value (take 4 (drop (4 * i) c)) 0)) [0..<16]"

fun sha_extend :: "nat \<Rightarrow> u32 list \<Rightarrow> u32 list" where
  "sha_extend 0 w = w"
| "sha_extend (Suc n) w =
     (let i = length w;
          a = w ! (i - 15); b = w ! (i - 2);
          s0 = sha_rotr 7 a XOR sha_rotr 18 a XOR drop_bit 3 a;
          s1 = sha_rotr 17 b XOR sha_rotr 19 b XOR drop_bit 10 b
      in sha_extend n (w @ [w ! (i - 16) + s0 + w ! (i - 7) + s1]))"

fun sha_round :: "u32 list \<Rightarrow> u32 \<times> u32 \<Rightarrow> u32 list" where
  "sha_round [a, b, c, d, e, f, g, h] (k, w) =
     (let S1 = sha_rotr 6 e XOR sha_rotr 11 e XOR sha_rotr 25 e;
          ch = (e AND f) XOR ((NOT e) AND g);
          t1 = h + S1 + ch + k + w;
          S0 = sha_rotr 2 a XOR sha_rotr 13 a XOR sha_rotr 22 a;
          maj = (a AND b) XOR (a AND c) XOR (b AND c)
      in [t1 + S0 + maj, a, b, c, d + t1, e, f, g])"
| "sha_round st kw = st"

definition sha_block :: "u32 list \<Rightarrow> bytes \<Rightarrow> u32 list" where
  "sha_block h c =
     map2 (+) h (foldl sha_round h (zip sha_K (sha_extend 48 (sha_words c))))"

definition sha256 :: "bytes \<Rightarrow> bytes" where
  "sha256 m =
     (let p = sha_pad m
      in concat (map (\<lambda>w. be_bytes 4 (unat w)) (foldl sha_block sha_H (sha_chunks (length p div 64) p))))"

lemma sha_round_length: "length (sha_round st kw) = length st"
  by (induction st kw rule: sha_round.induct) (auto simp: Let_def)

lemma sha_rounds_length: "length (foldl sha_round st kws) = length st"
  by (induction kws arbitrary: st) (auto simp: sha_round_length)

lemma sha_block_length: "length (sha_block h c) = length h"
  by (simp add: sha_block_def sha_rounds_length)

lemma sha_blocks_length: "length (foldl sha_block h cs) = length h"
  by (induction cs arbitrary: h) (auto simp: sha_block_length)

lemma sha256_length [simp, wire_simps]: "length (sha256 m) = 32"
proof -
  have "length (concat (map (\<lambda>w. be_bytes 4 (unat w)) ws)) = 4 * length ws" for ws :: "u32 list"
    by (induction ws) auto
  then show ?thesis
    by (simp add: sha256_def Let_def sha_blocks_length sha_H_def)
qed

lemma pad_arith: "(x::nat) < 64 \<Longrightarrow> (x + 9 + (119 - x) mod 64) mod 64 = 0"
proof (cases "x < 56")
  case True
  then have "119 - x = 55 - x + 64" by simp
  then have "(119 - x) mod 64 = (55 - x) mod 64" by (simp only: mod_add_self2)
  also have "\<dots> = 55 - x" by simp
  finally have "(119 - x) mod 64 = 55 - x" .
  with True show ?thesis by simp
next
  case False
  assume "x < 64"
  with False have "119 - x < 64" "x + 9 + (119 - x) = 128" by simp_all
  then show ?thesis by simp
qed

lemma sha_pad_length: "length (sha_pad m) mod 64 = 0"
proof -
  have "length (sha_pad m) = length m + (9 + (119 - length m mod 64) mod 64)"
    by (simp add: sha_pad_def)
  then have "length (sha_pad m) mod 64 = (length m mod 64 + (9 + (119 - length m mod 64) mod 64)) mod 64"
    by (simp only: mod_add_left_eq)
  then show ?thesis
    using pad_arith [of "length m mod 64"] by (simp add: add.assoc)
qed

end
