(* ===== verification/Address.thy ===== *)
theory Address
  imports GoEncoding Sha256
begin

text \<open>
  The addresses of the packets (\<open>packets/packets.go\<close>, type \<open>AddressUnion\<close>): a type byte and
  bytes, which are a topic name, or a 24-byte key in binary, hex or base64. Operations:
  \<open>FromBytes\<close>, \<open>ToBytes\<close>, \<open>String\<close>, \<open>Sig\<close> and \<open>EnsureAddressIsBinary\<close>, which every packet
  passes before it is routed. Lemmas: the binary form is always a 24-byte key and is stable; the
  four spellings of a key denote the same key; reading back what was written.
\<close>

section \<open>The type and its operations\<close>

abbreviation (input) BinaryAddress :: char where "BinaryAddress \<equiv> CHR 0x00"
abbreviation (input) HexAddress :: char where "HexAddress \<equiv> CHR ''$''"
abbreviation (input) Base64Address :: char where "Base64Address \<equiv> CHR ''=''"
abbreviation (input) Utf8Address :: char where "Utf8Address \<equiv> CHR '' ''"

record AddressUnion =
  addrType :: char
  addrBytes :: bytes

definition HashTypeLen :: nat where
  "HashTypeLen = 24"

definition NewAddressUnion :: "string \<Rightarrow> AddressUnion" where
  "NewAddressUnion str = \<lparr>addrType = Utf8Address, addrBytes = str\<rparr>"

definition FromBytes :: "bytes \<Rightarrow> AddressUnion" where
  "FromBytes bs =
     (case bs of
        [] \<Rightarrow> \<lparr>addrType = Utf8Address, addrBytes = bs\<rparr>
      | first # rest \<Rightarrow>
          if first = BinaryAddress \<and> length rest = 24
          then \<lparr>addrType = BinaryAddress, addrBytes = rest\<rparr>
          else if first = HexAddress \<and> length rest = 48
          then \<lparr>addrType = HexAddress, addrBytes = rest\<rparr>
          else if first = Base64Address \<and> length rest = 32
          then \<lparr>addrType = Base64Address, addrBytes = rest\<rparr>
          else if first = Utf8Address
          then \<lparr>addrType = Utf8Address, addrBytes = rest\<rparr>
          else \<lparr>addrType = Utf8Address, addrBytes = bs\<rparr>)"

definition FromString :: "string \<Rightarrow> AddressUnion" where
  "FromString s = FromBytes s"

definition addrString :: "AddressUnion \<Rightarrow> string" where
  "addrString a =
     (if addrType a = BinaryAddress \<and> length (addrBytes a) = 24
      then CHR ''='' # b64_encode (addrBytes a)
      else addrType a # addrBytes a)"

definition ToBytes :: "AddressUnion \<Rightarrow> bytes" where
  "ToBytes a = (if addrType a = Utf8Address then addrBytes a else addrType a # addrBytes a)"

text \<open>Decoding into a fresh buffer of 24 zero bytes, the error of the decoder ignored.\<close>

definition decode_into :: "bytes \<times> bool \<Rightarrow> bytes" where
  "decode_into r = take HashTypeLen (fst r @ replicate HashTypeLen (CHR 0x00))"

definition hashed_address :: "bytes \<Rightarrow> AddressUnion" where
  "hashed_address bs = \<lparr>addrType = BinaryAddress, addrBytes = take 24 (sha256 bs)\<rparr>"

definition EnsureAddressIsBinary :: "AddressUnion \<Rightarrow> AddressUnion" where
  "EnsureAddressIsBinary a =
     (if length (addrBytes a) = HashTypeLen \<and> addrType a = BinaryAddress then a
      else if addrType a = HexAddress then
        (if length (addrBytes a) \<noteq> HashTypeLen * 2 then hashed_address (addrBytes a)
         else \<lparr>addrType = BinaryAddress, addrBytes = decode_into (hex_decode (addrBytes a))\<rparr>)
      else if addrType a = Base64Address then
        (if length (addrBytes a) \<noteq> HashTypeLen * 8 div 6 then hashed_address (addrBytes a)
         else \<lparr>addrType = BinaryAddress, addrBytes = decode_into (b64_decode (addrBytes a))\<rparr>)
      else hashed_address (addrBytes a))"

text \<open>\<open>Sig\<close> makes the address binary in place and shows its last three bytes; \<open>None\<close> is the
  index panic it would raise on fewer than three bytes.\<close>

definition addrSig :: "AddressUnion \<Rightarrow> (AddressUnion \<times> string) option" where
  "addrSig a =
     (let a' = EnsureAddressIsBinary a; l = length (addrBytes a') in
      if l < 3 then None
      else Some (a', b64_encode [addrBytes a' ! (l - 3), addrBytes a' ! (l - 2), addrBytes a' ! (l - 1)]))"

section \<open>The binary form\<close>

definition is_key :: "AddressUnion \<Rightarrow> bool" where
  "is_key a \<longleftrightarrow> addrType a = BinaryAddress \<and> length (addrBytes a) = HashTypeLen"

lemma decode_into_length [simp]: "length (decode_into r) = HashTypeLen"
  by (simp add: decode_into_def)

lemma decode_into_exact: "length bs = HashTypeLen \<Longrightarrow> decode_into (bs, ok) = bs"
  by (simp add: decode_into_def)

lemma hashed_address_key [simp]: "is_key (hashed_address bs)"
  by (simp add: hashed_address_def is_key_def HashTypeLen_def)

lemma ensure_is_key [simp]: "is_key (EnsureAddressIsBinary a)"
  using hashed_address_key [of "addrBytes a"]
  by (simp add: EnsureAddressIsBinary_def is_key_def)

lemma ensure_key_id: "is_key a \<Longrightarrow> EnsureAddressIsBinary a = a"
  by (simp add: EnsureAddressIsBinary_def is_key_def)

lemma addrSig_Some:
  "addrSig a = Some (a', s) \<Longrightarrow> a' = EnsureAddressIsBinary a \<and> length s = 4"
  by (auto simp: addrSig_def Let_def split: if_splits)

section \<open>The spellings of a key\<close>

locale key_spelling =
  fixes tag :: char and size :: nat
    and enc :: "bytes \<Rightarrow> bytes" and dec :: "bytes \<Rightarrow> bytes \<times> bool"
  assumes dec_enc: "dec (enc bs) = (bs, True)"
    and enc_size: "length bs = HashTypeLen \<Longrightarrow> length (enc bs) = size"
    and from_tag: "length s = size \<Longrightarrow> FromBytes (tag # s) = \<lparr>addrType = tag, addrBytes = s\<rparr>"
    and ensure_tag: "length s = size \<Longrightarrow>
      EnsureAddressIsBinary \<lparr>addrType = tag, addrBytes = s\<rparr>
        = \<lparr>addrType = BinaryAddress, addrBytes = decode_into (dec s)\<rparr>"
    and tag_not_utf8: "tag \<noteq> Utf8Address"
begin

lemma spelled_key:
  assumes "length bs = HashTypeLen"
  shows "EnsureAddressIsBinary (FromBytes (tag # enc bs)) = \<lparr>addrType = BinaryAddress, addrBytes = bs\<rparr>"
  using assms by (simp add: from_tag ensure_tag enc_size dec_enc decode_into_exact)

lemma spelling_written:
  "length s = size \<Longrightarrow> ToBytes (FromBytes (tag # s)) = tag # s"
  by (simp add: from_tag ToBytes_def tag_not_utf8)

end

interpretation hexkey: key_spelling "CHR ''$''" 48 hex_encode hex_decode
  by unfold_locales
     (simp_all add: hex_decode_encode HashTypeLen_def FromBytes_def EnsureAddressIsBinary_def)

interpretation b64key: key_spelling "CHR ''=''" 32 b64_encode b64_decode
  by unfold_locales
     (simp_all add: b64_decode_encode HashTypeLen_def FromBytes_def EnsureAddressIsBinary_def
        b64_encode_length3)

lemma binary_spelled_key:
  "length bs = HashTypeLen \<Longrightarrow>
    EnsureAddressIsBinary (FromBytes (CHR 0x00 # bs)) = \<lparr>addrType = BinaryAddress, addrBytes = bs\<rparr>"
  by (simp add: FromBytes_def HashTypeLen_def EnsureAddressIsBinary_def)

section \<open>Reading and writing\<close>

text \<open>The addresses that \<open>FromBytes\<close> can return and \<open>ToBytes\<close> writes without loss.\<close>

definition addr_wf :: "AddressUnion \<Rightarrow> bool" where
  "addr_wf a \<longleftrightarrow>
     addrType a = BinaryAddress \<and> length (addrBytes a) = 24
   \<or> addrType a = HexAddress \<and> length (addrBytes a) = 48
   \<or> addrType a = Base64Address \<and> length (addrBytes a) = 32
   \<or> addrType a = Utf8Address \<and> FromBytes (addrBytes a) = a"

lemma FromBytes_tags:
  "length r = 24 \<Longrightarrow> FromBytes (CHR 0x00 # r) = \<lparr>addrType = CHR 0x00, addrBytes = r\<rparr>"
  "length r = 48 \<Longrightarrow> FromBytes (CHR ''$'' # r) = \<lparr>addrType = CHR ''$'', addrBytes = r\<rparr>"
  "length r = 32 \<Longrightarrow> FromBytes (CHR ''='' # r) = \<lparr>addrType = CHR ''='', addrBytes = r\<rparr>"
  by (simp_all add: FromBytes_def)

lemma from_to_bytes: "addr_wf a \<Longrightarrow> FromBytes (ToBytes a) = a"
  by (auto simp: addr_wf_def ToBytes_def FromBytes_tags)

lemma key_wf: "is_key a \<Longrightarrow> addr_wf a"
  by (simp add: is_key_def addr_wf_def HashTypeLen_def)

lemma to_from_bytes:
  "ToBytes (FromBytes bs) = (case bs of [] \<Rightarrow> [] | c # r \<Rightarrow> if c = Utf8Address then r else bs)"
  by (cases bs) (auto simp: ToBytes_def FromBytes_def)

end
