(* ===== verification/Hashes.thy ===== *)
theory Hashes
  imports Address
begin

text \<open>
  The hash of a topic (\<open>iot/hashes.go\<close>): \<open>HashType\<close> is three int64 words, kept here as their
  64-bit patterns. \<open>InitFromBytes\<close> panics unless it is given 24 bytes; \<open>GetBytes\<close> writes the 24
  bytes back; \<open>GetFractionalBits\<close> picks the bucket of the lookup table. Lemmas: the two are
  inverse, the bucket index stays inside the table, and base64 names parse back.
\<close>

datatype HashType = Hash u64 u64 u64

fun hash0 :: "HashType \<Rightarrow> u64" where
  "hash0 (Hash a b c) = a"

type_synonym HalfHash = u64

text \<open>The order used to list the topics of a bucket: by the three words.\<close>

fun hash_words :: "HashType \<Rightarrow> u64 list" where
  "hash_words (Hash a b c) = [a, b, c]"

lemma hash_words_inj: "hash_words h = hash_words h' \<Longrightarrow> h = h'"
  by (cases h; cases h') simp

instantiation HashType :: linorder
begin

definition less_HashType :: "HashType \<Rightarrow> HashType \<Rightarrow> bool" where
  "less_HashType h h' \<longleftrightarrow> hash_words h < hash_words h'"

definition less_eq_HashType :: "HashType \<Rightarrow> HashType \<Rightarrow> bool" where
  "less_eq_HashType h h' \<longleftrightarrow> hash_words h \<le> hash_words h'"

instance
  by standard (auto simp: less_HashType_def less_eq_HashType_def dest: hash_words_inj)

end

definition GetHalfHash :: "HashType \<Rightarrow> HalfHash" where
  "GetHalfHash h = hash0 h"

definition GetUint64 :: "HashType \<Rightarrow> u64" where
  "GetUint64 h = hash0 h"

definition be64 :: "bytes \<Rightarrow> u64" where
  "be64 bs = of_nat (be_value (take 8 bs) 0)"

definition InitFromBytes :: "bytes \<Rightarrow> HashType option" where
  "InitFromBytes bs =
     (if length bs \<noteq> HashTypeLen then None
      else Some (Hash (be64 bs) (be64 (drop 8 bs)) (be64 (drop 16 bs))))"

definition HashBytes :: "bytes \<Rightarrow> HashType option" where
  "HashBytes s = InitFromBytes (take 24 (sha256 s))"

definition HashString :: "string \<Rightarrow> HashType option" where
  "HashString s = HashBytes s"

fun hash_bytes :: "HashType \<Rightarrow> bytes" where
  "hash_bytes (Hash a b c) = be_bytes 8 (unat a) @ be_bytes 8 (unat b) @ be_bytes 8 (unat c)"

definition GetBytes :: "HashType \<Rightarrow> bytes \<Rightarrow> bytes" where
  "GetBytes h buf =
     (if length buf < HashTypeLen then buf else hash_bytes h @ drop HashTypeLen buf)"

definition ToBase64 :: "HashType \<Rightarrow> string" where
  "ToBase64 h = b64_encode (GetBytes h (replicate HashTypeLen (CHR 0x00)))"

text \<open>\<open>None\<close> is the panic on a decoding error; a decoded string of another length leaves the
  receiver as it was.\<close>

definition FromBase64 :: "HashType \<Rightarrow> string \<Rightarrow> HashType option" where
  "FromBase64 h str =
     (case b64_decode str of
        (bs, ok) \<Rightarrow> if \<not> ok then None
                   else if length bs \<noteq> HashTypeLen then Some h else InitFromBytes bs)"

definition GetFractionalBits :: "HashType \<Rightarrow> nat \<Rightarrow> nat" where
  "GetFractionalBits h n = (if n < 64 then unat (drop_bit (64 - n) (GetHalfHash h)) else 0)"

definition hashSig :: "HashType \<Rightarrow> string" where
  "hashSig h = b64_encode [byte_of (unat (hash0 h) mod 256), byte_of (unat (hash0 h) div 256 mod 256),
      byte_of (unat (hash0 h) div 65536 mod 256)]"

definition halfSig :: "HalfHash \<Rightarrow> string" where
  "halfSig a = b64_encode [byte_of (unat a div 65536 mod 256), byte_of (unat a div 256 mod 256),
      byte_of (unat a mod 256)]"

section \<open>Bytes and back\<close>

lemma be64_bytes: "be64 (be_bytes 8 (unat w) @ r) = w"
proof -
  have "unat w < 2 ^ 64" using unsigned_less [of w] by simp
  then have "be_value (be_bytes 8 (unat w)) 0 = unat w"
    by (simp add: be_value_bytes)
  then show ?thesis by (simp add: be64_def)
qed

lemma bytes_be64: "length bs = 8 \<Longrightarrow> be_bytes 8 (unat (be64 (bs @ r))) = bs"
  using be_value_less [of bs] be_bytes_value [of bs]
  by (simp add: be64_def unat_of_nat)

lemma hash_bytes_length [simp]: "length (hash_bytes h) = HashTypeLen"
  by (cases h) (simp add: HashTypeLen_def)

lemma init_hash_bytes: "InitFromBytes (hash_bytes h) = Some h"
  by (cases h) (simp add: InitFromBytes_def HashTypeLen_def be64_bytes be64_bytes [of _ "[]", simplified])

lemma hash_bytes_init:
  assumes "InitFromBytes bs = Some h"
  shows "hash_bytes h = bs"
proof -
  have l: "length bs = 24"
    using assms by (simp add: InitFromBytes_def HashTypeLen_def split: if_splits)
  define x y z where d: "x = take 8 bs" "y = take 8 (drop 8 bs)" "z = drop 16 bs"
  have b: "bs = x @ y @ z"
    unfolding d by (metis add.commute append_take_drop_id drop_drop numeral_Bit0)
  have s: "length x = 8" "length y = 8" "length z = 8" by (simp_all add: d l)
  show ?thesis
    using assms s bytes_be64 [of z "[]"]
    by (simp add: InitFromBytes_def b bytes_be64 HashTypeLen_def)
       (auto simp: bytes_be64)
qed

lemma init_total: "length bs = HashTypeLen \<Longrightarrow> \<exists>h. InitFromBytes bs = Some h"
  by (simp add: InitFromBytes_def)

lemma getBytes_full: "length buf = HashTypeLen \<Longrightarrow> GetBytes h buf = hash_bytes h"
  by (simp add: GetBytes_def)

lemma fractional_bits_less: "n < 64 \<Longrightarrow> GetFractionalBits h n < 2 ^ n"
proof -
  assume n: "n < 64"
  have "unat (GetHalfHash h) < 2 ^ 64" using unsigned_less [of "GetHalfHash h"] by simp
  then have "unat (GetHalfHash h) < 2 ^ (64 - n) * 2 ^ n"
    using n by (simp flip: power_add)
  then have "unat (GetHalfHash h) div 2 ^ (64 - n) < 2 ^ n"
    by (simp add: less_mult_imp_div_less mult.commute)
  moreover have "unat (drop_bit (64 - n) (GetHalfHash h)) = unat (GetHalfHash h) div 2 ^ (64 - n)"
    by (subst unat_drop_bit_eq) (rule drop_bit_eq_div)
  ultimately show ?thesis
    using n by (simp add: GetFractionalBits_def)
qed

text \<open>The key of an address and its hash carry the same 24 bytes.\<close>

definition addr_hash :: "AddressUnion \<Rightarrow> HashType option" where
  "addr_hash a = InitFromBytes (addrBytes (EnsureAddressIsBinary a))"

lemma addr_hash_total: "\<exists>h. addr_hash a = Some h"
  using ensure_is_key [of a] by (simp add: addr_hash_def is_key_def init_total)

lemma base64_hash: "FromBase64 old (ToBase64 h) = Some h"
  by (simp add: FromBase64_def ToBase64_def getBytes_full b64_decode_encode init_hash_bytes)

end
