(* ===== verification/OrdMap.thy ===== *)
theory OrdMap
  imports Prelude
begin

text \<open>
  The ordered map the program keeps its packet options, topic options and watchers in. The
  source uses the container \<open>redblacktree.Tree\<close> of the module emirpasic/gods with a string or
  a uint64 comparator. Only its documented contract is relied on: one value per key, \<open>Get\<close>,
  \<open>Put\<close>, \<open>Remove\<close>, \<open>Size\<close>, and an iterator that delivers the entries by ascending key. The
  value of such a tree is therefore the list of its entries in key order; the locale
  \<open>ordered_map\<close> states the contract and the clients' facts are proved in it.
\<close>

type_synonym ('k, 'v) omap = "('k \<times> 'v) list"

definition om_ok :: "('k::linorder, 'v) omap \<Rightarrow> bool" where
  "om_ok m \<longleftrightarrow> sorted_wrt (<) (map fst m)"

definition om_get :: "('k, 'v) omap \<Rightarrow> 'k \<Rightarrow> 'v option" where
  "om_get m k = map_of m k"

fun om_put :: "'k::linorder \<Rightarrow> 'v \<Rightarrow> ('k, 'v) omap \<Rightarrow> ('k, 'v) omap" where
  "om_put k v [] = [(k, v)]"
| "om_put k v ((k', v') # m) =
     (if k < k' then (k, v) # (k', v') # m
      else if k = k' then (k, v) # m
      else (k', v') # om_put k v m)"

fun om_remove :: "'k \<Rightarrow> ('k, 'v) omap \<Rightarrow> ('k, 'v) omap" where
  "om_remove k [] = []"
| "om_remove k ((k', v') # m) = (if k = k' then m else (k', v') # om_remove k m)"

definition om_size :: "('k, 'v) omap \<Rightarrow> nat" where
  "om_size m = length m"

subsection \<open>Facts of the entry lists\<close>

lemma om_ok_Nil [simp]: "om_ok []"
  by (simp add: om_ok_def)

lemma om_ok_Cons:
  "om_ok ((k, v) # m) \<longleftrightarrow> (\<forall>k' \<in> fst ` set m. k < k') \<and> om_ok m"
  by (auto simp: om_ok_def)

lemma om_get_Nil [simp]: "om_get [] k = None"
  by (simp add: om_get_def)

lemma om_get_Cons: "om_get ((k, v) # m) k' = (if k' = k then Some v else om_get m k')"
  by (simp add: om_get_def)

lemma om_get_None_iff: "om_get m k = None \<longleftrightarrow> k \<notin> fst ` set m"
  by (simp add: om_get_def map_of_eq_None_iff)

lemma om_get_mem: "om_get m k = Some v \<Longrightarrow> (k, v) \<in> set m"
  by (simp add: om_get_def map_of_SomeD)

lemma om_mem_get: "om_ok m \<Longrightarrow> (k, v) \<in> set m \<Longrightarrow> om_get m k = Some v"
  by (induction m) (force simp: om_ok_Cons om_get_Cons)+

lemma om_put_keys [simp]: "fst ` set (om_put k v m) = insert k (fst ` set m)"
  by (induction k v m rule: om_put.induct) auto

lemma om_put_get: "om_get (om_put k v m) k' = (if k' = k then Some v else om_get m k')"
  by (induction k v m rule: om_put.induct) (auto simp: om_get_Cons)

lemma om_put_ok: "om_ok m \<Longrightarrow> om_ok (om_put k v m)"
  by (induction k v m rule: om_put.induct) (auto simp: om_ok_Cons)

lemma om_remove_subset: "set (om_remove k m) \<subseteq> set m"
  by (induction k m rule: om_remove.induct) auto

lemma om_remove_ok: "om_ok m \<Longrightarrow> om_ok (om_remove k m)"
proof (induction k m rule: om_remove.induct)
  case (2 k k' v' m)
  then show ?case
    using om_remove_subset [of k m] by (auto simp: om_ok_Cons)
qed simp

lemma om_remove_get:
  "om_ok m \<Longrightarrow> om_get (om_remove k m) k' = (if k' = k then None else om_get m k')"
proof (induction k m rule: om_remove.induct)
  case (2 k l w m)
  have "k \<notin> fst ` set m" if "k = l"
    using 2(2) that by (auto simp: om_ok_Cons)
  then show ?case
    using 2 by (auto simp: om_ok_Cons om_get_Cons om_get_None_iff simp flip: om_get_None_iff)
qed simp

lemma om_remove_absent: "om_get m k = None \<Longrightarrow> om_remove k m = m"
  by (induction k m rule: om_remove.induct) (auto simp: om_get_Cons split: if_splits)

lemma om_put_last:
  "(\<And>k'. k' \<in> fst ` set m \<Longrightarrow> k' < k) \<Longrightarrow> om_put k v m = m @ [(k, v)]"
  by (induction k v m rule: om_put.induct) (auto dest: less_asym)

lemma om_entries: "om_ok m \<Longrightarrow> map (\<lambda>k. (k, the (om_get m k))) (map fst m) = m"
  by (simp only: map_map) (rule map_idI, auto dest: om_mem_get)

lemma om_eqI:
  assumes "om_ok m" "om_ok m'" "\<And>k. om_get m k = om_get m' k"
  shows "m = m'"
proof -
  have "fst ` set m = fst ` set m'"
    using assms(3) by (metis om_get_None_iff subsetI subset_antisym)
  then have "map fst m = map fst m'"
    using assms(1,2) by (intro sorted_distinct_set_unique) (auto simp: om_ok_def strict_sorted_iff)
  moreover have "om_get m = om_get m'"
    using assms(3) by (rule ext)
  ultimately show ?thesis
    using om_entries [OF assms(1)] om_entries [OF assms(2)] by metis
qed

lemma om_put_size: "om_get m k = None \<Longrightarrow> om_size (om_put k v m) = Suc (om_size m)"
  by (induction k v m rule: om_put.induct) (auto simp: om_size_def om_get_Cons split: if_splits)

lemma om_size_pos: "om_get m k = Some v \<Longrightarrow> 0 < om_size m"
  by (cases m) (auto simp: om_size_def)

subsection \<open>Rebuilding a map from its entries\<close>

definition om_build :: "('k::linorder \<times> 'v) list \<Rightarrow> ('k, 'v) omap \<Rightarrow> ('k, 'v) omap" where
  "om_build kvs m = fold (\<lambda>(k, v). om_put k v) kvs m"

lemma om_build_Nil [simp]: "om_build [] m = m"
  by (simp add: om_build_def)

lemma om_build_Cons [simp]: "om_build ((k, v) # kvs) m = om_build kvs (om_put k v m)"
  by (simp add: om_build_def)

lemma om_build_sorted: "om_ok (m @ kvs) \<Longrightarrow> om_build kvs m = m @ kvs"
proof (induction kvs arbitrary: m)
  case (Cons kv kvs)
  obtain k v where kv: "kv = (k, v)" by (cases kv)
  have "om_put k v m = m @ [(k, v)]"
    using Cons.prems by (intro om_put_last) (auto simp: kv om_ok_def sorted_wrt_append)
  then show ?case
    using Cons by (simp add: kv)
qed simp

lemma om_build_ok: "om_ok m \<Longrightarrow> om_ok (om_build kvs m)"
  by (induction kvs arbitrary: m) (auto simp: om_put_ok)

lemma om_build_get:
  "om_get (om_build kvs m) k = (case map_of (rev kvs) k of Some v \<Rightarrow> Some v | None \<Rightarrow> om_get m k)"
  by (induction kvs arbitrary: m)
     (auto simp: om_put_get map_add_def split: option.splits)

subsection \<open>The contract of the container\<close>

locale ordered_map =
  fixes empty :: "'m"
    and get :: "'m \<Rightarrow> 'k::linorder \<Rightarrow> 'v option"
    and put :: "'k \<Rightarrow> 'v \<Rightarrow> 'm \<Rightarrow> 'm"
    and remove :: "'k \<Rightarrow> 'm \<Rightarrow> 'm"
    and entries :: "'m \<Rightarrow> ('k \<times> 'v) list"
    and ok :: "'m \<Rightarrow> bool"
  assumes ok_empty: "ok empty"
    and ok_put: "ok m \<Longrightarrow> ok (put k v m)"
    and ok_remove: "ok m \<Longrightarrow> ok (remove k m)"
    and get_empty: "get empty k = None"
    and get_put: "ok m \<Longrightarrow> get (put k v m) k' = (if k' = k then Some v else get m k')"
    and get_remove: "ok m \<Longrightarrow> get (remove k m) k' = (if k' = k then None else get m k')"
    and entries_sorted: "ok m \<Longrightarrow> sorted_wrt (<) (map fst (entries m))"
    and entries_get: "ok m \<Longrightarrow> map_of (entries m) = get m"
begin

lemma put_put_get: "ok m \<Longrightarrow> get (put k v (put k w m)) = get (put k v m)"
  by (rule ext) (simp add: get_put ok_put)

lemma put_commute_get:
  "ok m \<Longrightarrow> k \<noteq> l \<Longrightarrow> get (put k v (put l w m)) = get (put l w (put k v m))"
  by (rule ext) (simp add: get_put ok_put)

lemma remove_put_get: "ok m \<Longrightarrow> get (remove k (put k v m)) = get (remove k m)"
  by (rule ext) (simp add: get_put ok_put get_remove)

lemma entries_put_mem:
  assumes "ok m"
  shows "(k, v) \<in> set (entries (put k v m))"
proof -
  have "map_of (entries (put k v m)) k = Some v"
    using assms by (simp add: entries_get ok_put get_put)
  then show ?thesis by (rule map_of_SomeD)
qed

lemma entries_distinct: "ok m \<Longrightarrow> distinct (map fst (entries m))"
  using entries_sorted strict_sorted_iff by blast

end

interpretation om: ordered_map "[]" om_get om_put om_remove "\<lambda>m. m" om_ok
  by unfold_locales
     (simp_all add: om_put_ok om_remove_ok om_put_get om_remove_get, simp_all add: om_get_def om_ok_def fun_eq_iff)

lemmas om_laws [opt_simps] = om_put_get om_put_ok om_remove_ok om_remove_get

end
