(* ===== verification/Wire.thy ===== *)
theory Wire
  imports Prelude
begin

unbundle bit_operations_syntax

text \<open>
  The wire format (\<open>packets/packets.go\<close>): variable-length integers and arrays of byte arrays. A
  reader is the byte sequence that will arrive before the connection ends; every read returns
  the value and the unread rest, or an error. A writer takes every byte it is given and its
  contents are what is returned. Lemmas: the length of the encodings, the round trips with an
  arbitrary rest, the bounds within which they hold, and what happens beyond them.
\<close>

datatype wire_error =
    EOF | UnexpectedEOF | TooManyStrings | PacketTooLong | TooManyArgs
  | TooFewArgs string | UnknownCommand char

type_synonym 'a reader = "bytes \<Rightarrow> wire_error + ('a \<times> bytes)"

section \<open>Variable-length integers\<close>

function WriteVarLenInt :: "u32 \<Rightarrow> u8 \<Rightarrow> bytes" where
  "WriteVarLenInt uintvalue msk =
     (if uintvalue > 127 then WriteVarLenInt (drop_bit 7 uintvalue) 0x80 else [])
     @ [byte_of (unat ((uintvalue AND 0x7F) OR ucast msk))]"
  by pat_completeness auto
termination
proof (relation "measure (\<lambda>(v, m). unat v)")
  fix v :: u32 and m :: u8
  assume "v > 127"
  then have "127 < unat v" by (simp add: word_less_nat_alt)
  moreover have "unat (drop_bit 7 v) = unat v div 128"
    by (subst unat_drop_bit_eq) (simp add: drop_bit_eq_div)
  ultimately show "((drop_bit 7 v, 0x80), v, m) \<in> measure (\<lambda>(v, m). unat v)"
    by simp
qed simp

declare WriteVarLenInt.simps [simp del]

text \<open>The loop of \<open>ReadVarLenInt\<close>: at most four bytes are accumulated; when the fourth still has
  its high bit set, the byte after it has been read already and is dropped.\<close>

fun varLenLoop :: "nat \<Rightarrow> nat \<Rightarrow> nat reader" where
  "varLenLoop remaining aval [] = Inl EOF"
| "varLenLoop 0 aval (b # r) = Inr (aval, r)"
| "varLenLoop (Suc remaining) aval (b # r) =
     (if byte_val b \<ge> 128 then varLenLoop remaining (push_bit 7 aval OR (byte_val b AND 0x7F)) r
      else Inr (push_bit 7 aval OR byte_val b, r))"

definition ReadVarLenInt :: "nat reader" where
  "ReadVarLenInt r = varLenLoop 4 0 r"

subsection \<open>The bytes as arithmetic\<close>

lemma or_low_bits: "b < 128 \<Longrightarrow> push_bit 7 a OR b = a * 128 + (b::nat)"
proof -
  assume b: "b < 128"
  then have "take_bit 7 b = b" by (simp add: take_bit_nat_eq_self)
  then have "bit b k \<Longrightarrow> k < 7" for k
    by (metis bit_take_bit_iff)
  then have "push_bit 7 a AND b = 0"
    by (intro bit_eqI) (fastforce simp: bit_and_iff bit_push_bit_iff)
  then have "push_bit 7 a OR b = push_bit 7 a + b"
    by (simp add: disjunctive_add_eq_or)
  then show ?thesis by (simp add: push_bit_eq_mult)
qed

lemma and_127_nat: "(b::nat) AND 0x7F = b mod 128"
  using take_bit_eq_mask [of 7 b] by (simp add: take_bit_eq_mod mask_eq_exp_minus_1)

lemma digit_last: "byte_of (unat (((v::u32) AND 0x7F) OR ucast (0::u8))) = byte_of (unat v mod 128)"
proof -
  have "unat (v AND 0x7F) = unat v mod 128"
    by (simp add: unsigned_and_eq and_127_nat)
  then show ?thesis by simp
qed

lemma digit_more:
  "byte_of (unat (((v::u32) AND 0x7F) OR ucast (0x80::u8))) = byte_of (128 + unat v mod 128)"
proof -
  have "unat ((v AND 0x7F) OR (0x80::u32)) = (unat v mod 128) OR 128"
    by (simp add: unsigned_or_eq unsigned_and_eq and_127_nat)
  also have "\<dots> = push_bit 7 1 OR unat v mod 128"
    by (simp add: or.commute push_bit_eq_mult)
  also have "\<dots> = 128 + unat v mod 128"
    by (subst or_low_bits) simp_all
  finally show ?thesis by simp
qed

lemma shift_div: "unat (drop_bit 7 (v::u32)) = unat v div 128"
  by (subst unat_drop_bit_eq) (simp add: drop_bit_eq_div)

lemma write_more:
  "WriteVarLenInt v 0x80 =
     (if 127 < unat v then WriteVarLenInt (drop_bit 7 v) 0x80 else []) @ [byte_of (128 + unat v mod 128)]"
  by (subst WriteVarLenInt.simps) (simp only: digit_more word_less_nat_alt, simp)

lemma write_last:
  "WriteVarLenInt v 0 =
     (if 127 < unat v then WriteVarLenInt (drop_bit 7 v) 0x80 else []) @ [byte_of (unat v mod 128)]"
  by (subst WriteVarLenInt.simps) (simp only: digit_last word_less_nat_alt, simp)

lemma write_more_length: "unat v < 128 ^ Suc k \<Longrightarrow> length (WriteVarLenInt v 0x80) \<le> Suc k"
proof (induction k arbitrary: v)
  case 0
  then show ?case by (subst write_more) simp
next
  case (Suc k)
  then have "unat v div 128 < 128 ^ Suc k" by (simp add: less_mult_imp_div_less)
  then have "length (WriteVarLenInt (drop_bit 7 v) 0x80) \<le> Suc k"
    by (intro Suc.IH) (simp only: shift_div)
  then show ?case by (subst write_more) simp
qed

lemma write_last_length: "unat v < 128 ^ Suc k \<Longrightarrow> length (WriteVarLenInt v 0) \<le> Suc k"
  using write_more_length [of v k] by (simp add: write_last write_more)

lemma write_nonempty [simp]: "WriteVarLenInt v m \<noteq> []"
  by (subst WriteVarLenInt.simps) simp

lemma loop_more:
  assumes "length (WriteVarLenInt v 0x80) \<le> n" "r \<noteq> []"
  shows "varLenLoop n a (WriteVarLenInt v 0x80 @ r) =
    varLenLoop (n - length (WriteVarLenInt v 0x80)) (a * 128 ^ length (WriteVarLenInt v 0x80) + unat v) r"
  using assms
proof (induction "unat v" arbitrary: v n r rule: less_induct)
  case less
  have step: "varLenLoop (Suc m) a' (byte_of (128 + unat v mod 128) # r') =
      varLenLoop m (a' * 128 + unat v mod 128) r'" for m a' r'
    by (simp add: and_127_nat or_low_bits)
  show ?case
  proof (cases "127 < unat v")
    case False
    then have w: "WriteVarLenInt v 0x80 = [byte_of (128 + unat v mod 128)]"
      by (subst write_more) simp
    then obtain m where "n = Suc m" using less.prems(1) by (cases n) auto
    then show ?thesis using False by (simp add: w and_127_nat or_low_bits)
  next
    case True
    let ?u = "drop_bit 7 v"
    let ?w = "WriteVarLenInt ?u 0x80"
    have w: "WriteVarLenInt v 0x80 = ?w @ [byte_of (128 + unat v mod 128)]"
      using True by (subst write_more) simp
    then have l: "Suc (length ?w) \<le> n" using less.prems(1) by simp
    have "varLenLoop n a (WriteVarLenInt v 0x80 @ r) =
      varLenLoop (n - length ?w) (a * 128 ^ length ?w + unat ?u) (byte_of (128 + unat v mod 128) # r)"
      using less.hyps [of ?u n "byte_of (128 + unat v mod 128) # r"] True l
      by (simp add: w shift_div)
    also have "\<dots> = varLenLoop (n - Suc (length ?w))
        ((a * 128 ^ length ?w + unat ?u) * 128 + unat v mod 128) r"
      using l step [of "n - Suc (length ?w)"] by (simp add: Suc_diff_Suc)
    also have "(a * 128 ^ length ?w + unat ?u) * 128 + unat v mod 128 = a * 128 ^ Suc (length ?w) + unat v"
      by (simp add: shift_div add_mult_distrib)
    finally show ?thesis by (simp add: w)
  qed
qed

lemma read_write_varlen:
  assumes "unat v < 2 ^ 28"
  shows "ReadVarLenInt (WriteVarLenInt v 0 @ r) = Inr (unat v, r)"
proof (cases "127 < unat v")
  case False
  then have "WriteVarLenInt v 0 = [byte_of (unat v)]" by (subst write_last) simp
  moreover have "varLenLoop (Suc 3) 0 (byte_of (unat v) # r) = Inr (unat v, r)"
    using False by (simp only: varLenLoop.simps) (simp add: or_low_bits)
  ultimately show ?thesis
    by (simp add: ReadVarLenInt_def)
next
  case True
  let ?u = "drop_bit 7 v"
  let ?w = "WriteVarLenInt ?u 0x80"
  have "unat ?u < 128 ^ Suc 2"
    using assms by (simp add: shift_div less_mult_imp_div_less)
  then have l: "length ?w \<le> 3" using write_more_length [of ?u 2] by simp
  have w: "WriteVarLenInt v 0 = ?w @ [byte_of (unat v mod 128)]"
    using True by (subst write_last) simp
  obtain m where m: "4 - length ?w = Suc m" using l by (cases "4 - length ?w") auto
  have "ReadVarLenInt (WriteVarLenInt v 0 @ r) = varLenLoop (Suc m) (unat ?u) (byte_of (unat v mod 128) # r)"
    using loop_more [of ?u 4 "byte_of (unat v mod 128) # r" 0] l m by (simp add: ReadVarLenInt_def w)
  also have "\<dots> = Inr (unat v, r)"
  proof -
    have "\<not> 128 \<le> unat v mod 128" by (simp add: not_le)
    then show ?thesis by (simp add: shift_div or_low_bits)
  qed
  finally show ?thesis .
qed

text \<open>From 2 to the 28 on the reader stops early: it returns the upper bits and eats one byte.\<close>

lemma varlen_28: "WriteVarLenInt 0x10000000 0 = map byte_of [129, 128, 128, 128, 0]"
  by (simp add: write_last write_more)

lemma varLenLoop_consumes:
  "varLenLoop n a bs = Inr (v, r) \<Longrightarrow> length r < length bs"
  by (induction n a bs rule: varLenLoop.induct) (auto split: if_splits)

lemma varLenLoop_bound:
  "varLenLoop n a bs = Inr (v, r) \<Longrightarrow> v < (a + 1) * 128 ^ n"
proof (induction n a bs rule: varLenLoop.induct)
  case (3 n a b r')
  show ?case
  proof (cases "byte_val b \<ge> 128")
    case True
    then have "v < (a * 128 + byte_val b mod 128 + 1) * 128 ^ n"
      using 3 by (simp add: and_127_nat or_low_bits)
    also have "\<dots> \<le> ((a + 1) * 128) * 128 ^ n"
      by (intro mult_right_mono) (simp_all add: Suc_leI)
    finally show ?thesis by (simp add: algebra_simps)
  next
    case False
    then have "v < (a + 1) * 128" using "3.prems" by (simp add: or_low_bits)
    also have "\<dots> \<le> (a + 1) * 128 * 128 ^ n" using mult_le_mono2 [of 1 "128 ^ n" "(a + 1) * 128"] by simp
    also have "\<dots> = (a + 1) * 128 ^ Suc n" by (simp only: power_Suc mult.assoc)
    finally show ?thesis .
  qed
qed auto

lemma read_varlen_bound: "ReadVarLenInt bs = Inr (v, r) \<Longrightarrow> v < 2 ^ 28"
  using varLenLoop_bound [of 4 0 bs v r] by (simp add: ReadVarLenInt_def)

section \<open>Arrays of byte arrays\<close>

text \<open>\<open>WriteArrayOfByteArray\<close>; the length of an argument is converted to \<open>uint32\<close>.\<close>

definition WriteArrayOfByteArray :: "bytes list \<Rightarrow> wire_error + bytes" where
  "WriteArrayOfByteArray args =
     (if length args \<ge> 128 then Inl TooManyArgs
      else Inr ([byte_of (length args)]
                @ concat (map (\<lambda>a. WriteVarLenInt (of_nat (length a)) 0x00) args)
                @ concat args))"

fun readLengths :: "nat \<Rightarrow> nat list reader" where
  "readLengths 0 r = Inr ([], r)"
| "readLengths (Suc n) r =
     (case ReadVarLenInt r of
        Inl e \<Rightarrow> Inl e
      | Inr (aval, r') \<Rightarrow>
          (case readLengths n r' of Inl e \<Rightarrow> Inl e | Inr (ls, r'') \<Rightarrow> Inr (aval # ls, r'')))"

fun sliceArgs :: "nat list \<Rightarrow> bytes \<Rightarrow> bytes list" where
  "sliceArgs [] bs = []"
| "sliceArgs (l # ls) bs = take l bs # sliceArgs ls (drop l bs)"

text \<open>\<open>io.ReadFull\<close>.\<close>

definition readFull :: "nat \<Rightarrow> bytes reader" where
  "readFull n r =
     (if length r \<ge> n then Inr (take n r, drop n r)
      else if r = [] then Inl EOF else Inl UnexpectedEOF)"

definition ReadArrayOfByteArray :: "bytes list reader" where
  "ReadArrayOfByteArray r =
     (case r of
        [] \<Rightarrow> Inl EOF
      | c # r1 \<Rightarrow>
          if byte_val c \<ge> 128 then Inl TooManyStrings
          else (case readLengths (byte_val c) r1 of
                  Inl e \<Rightarrow> Inl e
                | Inr (lengths, r2) \<Rightarrow>
                    if sum_list lengths \<ge> 8000000 then Inl PacketTooLong
                    else (case readFull (sum_list lengths) r2 of
                            Inl e \<Rightarrow> Inl e
                          | Inr (bs, r3) \<Rightarrow> Inr (sliceArgs lengths bs, r3))))"

lemma slice_concat: "sliceArgs (map length args) (concat args) = args"
  by (induction args) auto

lemma slice_lengths:
  "sum_list ls \<le> length bs \<Longrightarrow> map length (sliceArgs ls bs) = ls"
  by (induction ls bs rule: sliceArgs.induct) auto

lemma slice_length [simp]: "length (sliceArgs ls bs) = length ls"
  by (induction ls bs rule: sliceArgs.induct) auto

lemma concat_slice: "sum_list ls = length bs \<Longrightarrow> concat (sliceArgs ls bs) = bs"
  by (induction ls bs rule: sliceArgs.induct) auto

lemma read_lengths_write:
  assumes "\<And>a. a \<in> set args \<Longrightarrow> length a < 2 ^ 28"
  shows "readLengths (length args)
     (concat (map (\<lambda>a. WriteVarLenInt (of_nat (length a)) 0x00) args) @ r) = Inr (map length args, r)"
  using assms
proof (induction args)
  case (Cons a args)
  have "unat (of_nat (length a) :: u32) = length a"
    using Cons.prems [of a] by (simp add: unat_of_nat)
  then have "ReadVarLenInt (WriteVarLenInt (of_nat (length a)) 0 @ s) = Inr (length a, s)" for s
    using read_write_varlen [of "of_nat (length a)" s] Cons.prems [of a] by simp
  then show ?case using Cons by simp
qed simp

lemma length_mem_le: "a \<in> set args \<Longrightarrow> length a \<le> sum_list (map length args)"
  by (induction args) auto

lemma read_write_array:
  assumes "length args < 128" "sum_list (map length args) < 8000000"
  shows "WriteArrayOfByteArray args = Inr w \<Longrightarrow> ReadArrayOfByteArray (w @ r) = Inr (args, r)"
proof -
  have "\<And>a. a \<in> set args \<Longrightarrow> length a < 2 ^ 28"
    using assms(2) length_mem_le by fastforce
  from read_lengths_write [OF this] assms
  show "WriteArrayOfByteArray args = Inr w \<Longrightarrow> ReadArrayOfByteArray (w @ r) = Inr (args, r)"
    by (auto simp: WriteArrayOfByteArray_def ReadArrayOfByteArray_def readFull_def
        length_concat_sum slice_concat)
qed

lemma readLengths_len: "readLengths n r = Inr (ls, r') \<Longrightarrow> length ls = n"
  by (induction n r arbitrary: ls r' rule: readLengths.induct) (auto split: sum.splits)

lemma readLengths_shorter: "readLengths n r = Inr (ls, r') \<Longrightarrow> length r' \<le> length r"
proof (induction n r arbitrary: ls r' rule: readLengths.induct)
  case (2 n r)
  then show ?case
    by (fastforce simp: ReadVarLenInt_def dest: varLenLoop_consumes split: sum.splits)
qed auto

lemma read_array_bounds:
  assumes "ReadArrayOfByteArray bs = Inr (args, r)"
  shows "length args < 128 \<and> sum_list (map length args) < 8000000 \<and> length r < length bs"
proof -
  obtain c r1 ls r2 where bs: "bs = c # r1" "byte_val c < 128"
      "readLengths (byte_val c) r1 = Inr (ls, r2)" "sum_list ls < 8000000" "sum_list ls \<le> length r2"
      and a: "args = sliceArgs ls (take (sum_list ls) r2)" "r = drop (sum_list ls) r2"
    using assms by (auto simp: ReadArrayOfByteArray_def readFull_def
        split: list.splits sum.splits prod.splits if_splits)
  have "map length args = ls" unfolding a using bs(5) by (intro slice_lengths) simp
  moreover have "length ls < 128" using readLengths_len [OF bs(3)] bs(2) by simp
  moreover have "length r2 \<le> length r1" using readLengths_shorter [OF bs(3)] .
  ultimately show ?thesis
    using bs by (auto simp: a(2))
qed

end
