(* ===== verification/Packets.thy ===== *)
theory Packets
  imports OrdMap Address Wire
begin

text \<open>
  The packets (\<open>packets/packets.go\<close>): the seven packet types with their options, \<open>Fill\<close> and
  \<open>Write\<close> of each, \<open>FillPacket\<close>, \<open>ReadPacket\<close>, the options of \<open>PacketCommon\<close>, and the cached
  \<open>backingUniversal\<close>. Lemmas: what \<open>Write\<close> produces \<open>ReadPacket\<close> reads back, at any position of a
  stream; every error of \<open>FillPacket\<close>; the laws of the options.
\<close>

type_synonym options = "(string, bytes) omap"

record Universal =
  uCmd :: char
  uArgs :: "bytes list"

datatype packet =
    Connect (packetOptions: options)
  | Disconnect (packetOptions: options)
  | Ping (packetOptions: options)
  | Subscribe (packetAddress: AddressUnion) (packetOptions: options)
  | Unsubscribe (packetAddress: AddressUnion) (packetOptions: options)
  | Lookup (packetAddress: AddressUnion) (packetSource: AddressUnion) (packetOptions: options)
  | Send (packetAddress: AddressUnion) (packetSource: AddressUnion) (packetPayload: bytes)
      (packetOptions: options)

text \<open>A packet object: its contents and the wire form that \<open>Write\<close> keeps once it has built it.\<close>

record pkt =
  body :: packet
  backingUniversal :: "Universal option"

section \<open>Options\<close>

definition OptionSize :: "options \<Rightarrow> nat" where
  "OptionSize opts = om_size opts"

definition GetOption :: "options \<Rightarrow> string \<Rightarrow> bytes \<times> bool" where
  "GetOption opts key = (case om_get opts key of None \<Rightarrow> ([], False) | Some v \<Rightarrow> (v, True))"

definition SetOption :: "string \<Rightarrow> bytes \<Rightarrow> options \<Rightarrow> options" where
  "SetOption key val opts = om_put key val opts"

definition DeleteOption :: "string \<Rightarrow> options \<Rightarrow> options" where
  "DeleteOption key opts = om_remove key opts"

definition GetOptionKeys :: "options \<Rightarrow> string list \<times> bytes list" where
  "GetOptionKeys opts = (map fst opts, map snd opts)"

definition CopyOptions :: "options \<Rightarrow> options \<Rightarrow> options" where
  "CopyOptions p source = fold (\<lambda>(k, v). SetOption k v) source p"

definition GetIPV6Option :: "options \<Rightarrow> bytes" where
  "GetIPV6Option opts = (let (got, ok) = GetOption opts ''AAAA'' in if \<not> ok then [] else got)"

fun unpackLoop :: "nat \<Rightarrow> string \<Rightarrow> bytes list \<Rightarrow> options \<Rightarrow> options" where
  "unpackLoop i key [] opts = opts"
| "unpackLoop i key (arg # args) opts =
     unpackLoop (Suc i) arg args
       (if odd i \<and> key \<noteq> [] then SetOption key arg opts else opts)"

definition unpackOptions :: "bytes list \<Rightarrow> options \<Rightarrow> options" where
  "unpackOptions args opts = unpackLoop 0 ''none'' args opts"

definition packOptions :: "options \<Rightarrow> bytes list \<Rightarrow> bytes list" where
  "packOptions opts args =
     (if OptionSize opts = 0 then args else args @ concat (map (\<lambda>(k, v). [k, v]) opts))"

definition opts_wf :: "options \<Rightarrow> bool" where
  "opts_wf opts \<longleftrightarrow> om_ok opts \<and> [] \<notin> fst ` set opts"

lemma packOptions_eq: "packOptions opts args = args @ concat (map (\<lambda>(k, v). [k, v]) opts)"
  by (auto simp: packOptions_def OptionSize_def om_size_def)

lemma unpack_pairs:
  "even i \<Longrightarrow> [] \<notin> fst ` set kvs \<Longrightarrow>
    unpackLoop i key (concat (map (\<lambda>(k, v). [k, v]) kvs)) opts = om_build kvs opts"
  by (induction kvs arbitrary: i key opts) (auto simp: SetOption_def)

lemma unpack_pack: "opts_wf opts \<Longrightarrow> unpackOptions (packOptions opts []) [] = opts"
  using om_build_sorted [of "[]" opts]
  by (simp add: packOptions_eq unpackOptions_def unpack_pairs opts_wf_def)

lemma unpackLoop_ok: "om_ok opts \<Longrightarrow> om_ok (unpackLoop i key args opts)"
  by (induction i key args opts rule: unpackLoop.induct) (auto simp: SetOption_def om_put_ok)

lemma unpackLoop_keys:
  "[] \<notin> fst ` set opts \<Longrightarrow> [] \<notin> fst ` set (unpackLoop i key args opts)"
proof (induction i key args opts rule: unpackLoop.induct)
  case (2 i key arg args opts)
  have "fst ` set (SetOption key arg opts) = insert key (fst ` set opts)"
    by (simp add: SetOption_def)
  then show ?case using 2 by auto
qed simp

lemma unpack_wf: "opts_wf (unpackOptions args [])"
  using unpackLoop_ok [of "[]" 0 "''none''" args] unpackLoop_keys [of "[]" 0 "''none''" args]
  by (simp add: opts_wf_def unpackOptions_def)

lemma unpack_trailing_key: "even (length args) \<Longrightarrow> unpackOptions (args @ [k]) [] = unpackOptions args []"
proof -
  have "unpackLoop i key (args @ [k]) opts = unpackLoop i key args opts"
    if "even (i + length args)" for i key opts
    using that by (induction i key args opts rule: unpackLoop.induct) auto
  then show "even (length args) \<Longrightarrow> ?thesis" by (simp add: unpackOptions_def)
qed

lemma unpack_empties: "unpackLoop i [] (replicate n []) opts = opts"
  by (induction n arbitrary: i) auto

lemma getOption_set [opt_simps]:
  "GetOption (SetOption k v opts) k' = (if k' = k then (v, True) else GetOption opts k')"
  by (simp add: GetOption_def SetOption_def om_put_get)

lemma getOption_delete [opt_simps]:
  "om_ok opts \<Longrightarrow> GetOption (DeleteOption k opts) k' = (if k' = k then ([], False) else GetOption opts k')"
  by (simp add: GetOption_def DeleteOption_def om_remove_get)

lemma copyOptions_build: "CopyOptions p source = om_build source p"
proof -
  have "(\<lambda>(k, v). SetOption k v) = (\<lambda>(k, v). om_put k v)"
    by (simp add: fun_eq_iff SetOption_def)
  then show ?thesis by (simp add: CopyOptions_def om_build_def)
qed

lemma map_of_rev_ok:
  assumes "om_ok m"
  shows "map_of (rev m) k = om_get m k"
proof -
  have d: "distinct (map fst m)" using assms by (simp add: om_ok_def strict_sorted_iff)
  then have "map_of (rev m) = map_of m"
    using map_of_inject_set [of "rev m" m] by (simp add: rev_map [symmetric])
  then show ?thesis by (simp add: om_get_def)
qed

lemma getOption_copy [opt_simps]:
  "om_ok source \<Longrightarrow> GetOption (CopyOptions p source) k =
    (if snd (GetOption source k) then GetOption source k else GetOption p k)"
  by (auto simp: copyOptions_build GetOption_def om_build_get map_of_rev_ok split: option.splits)

section \<open>Fill and FillPacket\<close>

definition fillSubscribe :: "Universal \<Rightarrow> wire_error + packet" where
  "fillSubscribe str =
     (case uArgs str of
        a # r \<Rightarrow> Inr (Subscribe (FromBytes a) (unpackOptions r []))
      | _ \<Rightarrow> Inl (TooFewArgs ''Subscribe''))"

definition fillUnsubscribe :: "Universal \<Rightarrow> wire_error + packet" where
  "fillUnsubscribe str =
     (case uArgs str of
        a # r \<Rightarrow> Inr (Unsubscribe (FromBytes a) (unpackOptions r []))
      | _ \<Rightarrow> Inl (TooFewArgs ''Unsubscribe''))"

definition fillSend :: "Universal \<Rightarrow> wire_error + packet" where
  "fillSend str =
     (case uArgs str of
        a # s # p # r \<Rightarrow> Inr (Send (FromBytes a) (FromBytes s) p (unpackOptions r []))
      | _ \<Rightarrow> Inl (TooFewArgs ''Send''))"

definition fillConnect :: "Universal \<Rightarrow> wire_error + packet" where
  "fillConnect str = Inr (Connect (unpackOptions (uArgs str) []))"

definition fillDisconnect :: "Universal \<Rightarrow> wire_error + packet" where
  "fillDisconnect str = Inr (Disconnect (unpackOptions (uArgs str) []))"

definition fillPing :: "Universal \<Rightarrow> wire_error + packet" where
  "fillPing str = Inr (Ping (unpackOptions (uArgs str) []))"

definition fillLookup :: "Universal \<Rightarrow> wire_error + packet" where
  "fillLookup str =
     (case uArgs str of
        a # s # r \<Rightarrow> Inr (Lookup (FromBytes a) (FromBytes s) (unpackOptions r []))
      | _ \<Rightarrow> Inl (TooFewArgs ''Lookup''))"

definition fillBody :: "Universal \<Rightarrow> wire_error + packet" where
  "fillBody uni =
     (if uCmd uni = CHR ''P'' then fillSend uni
      else if uCmd uni = CHR ''S'' then fillSubscribe uni
      else if uCmd uni = CHR ''U'' then fillUnsubscribe uni
      else if uCmd uni = CHR ''L'' then fillLookup uni
      else if uCmd uni = CHR ''C'' then fillConnect uni
      else if uCmd uni = CHR ''D'' then fillDisconnect uni
      else if uCmd uni = CHR ''H'' then fillPing uni
      else Inl (UnknownCommand (uCmd uni)))"

definition FillPacket :: "Universal \<Rightarrow> wire_error + pkt" where
  "FillPacket uni =
     (case fillBody uni of Inl e \<Rightarrow> Inl e | Inr p \<Rightarrow> Inr \<lparr>body = p, backingUniversal = None\<rparr>)"

lemmas fill_defs = fillBody_def fillSend_def fillSubscribe_def fillUnsubscribe_def fillLookup_def
  fillConnect_def fillDisconnect_def fillPing_def

section \<open>Write\<close>

fun toUniversal :: "packet \<Rightarrow> Universal" where
  "toUniversal (Subscribe a opts) = \<lparr>uCmd = CHR ''S'', uArgs = packOptions opts [ToBytes a]\<rparr>"
| "toUniversal (Unsubscribe a opts) = \<lparr>uCmd = CHR ''U'', uArgs = packOptions opts [ToBytes a]\<rparr>"
| "toUniversal (Send a s payload opts) =
     \<lparr>uCmd = CHR ''P'', uArgs = packOptions opts [ToBytes a, ToBytes s, payload]\<rparr>"
| "toUniversal (Connect opts) = \<lparr>uCmd = CHR ''C'', uArgs = packOptions opts []\<rparr>"
| "toUniversal (Disconnect opts) = \<lparr>uCmd = CHR ''D'', uArgs = packOptions opts []\<rparr>"
| "toUniversal (Ping opts) = \<lparr>uCmd = CHR ''H'', uArgs = packOptions opts []\<rparr>"
| "toUniversal (Lookup a s opts) =
     \<lparr>uCmd = CHR ''L'', uArgs = packOptions opts [ToBytes a, ToBytes s]\<rparr>"

text \<open>What reaches the writer and the error, if any: the command byte is out before the arguments
  are counted.\<close>

definition universalWrite :: "Universal \<Rightarrow> bytes \<times> wire_error option" where
  "universalWrite u =
     (case WriteArrayOfByteArray (uArgs u) of
        Inl e \<Rightarrow> ([uCmd u], Some e)
      | Inr bs \<Rightarrow> (uCmd u # bs, None))"

definition packetWrite :: "pkt \<Rightarrow> pkt \<times> bytes \<times> wire_error option" where
  "packetWrite p =
     (case backingUniversal p of
        Some u \<Rightarrow> (p, universalWrite u)
      | None \<Rightarrow> (let u = toUniversal (body p) in
                 (p\<lparr>backingUniversal := Some u\<rparr>, universalWrite u)))"

section \<open>Reading\<close>

definition ReadUniversal :: "Universal reader" where
  "ReadUniversal r =
     (case r of
        [] \<Rightarrow> Inl EOF
      | c # r1 \<Rightarrow> (case ReadArrayOfByteArray r1 of
                    Inl e \<Rightarrow> Inl e
                  | Inr (args, r2) \<Rightarrow> Inr (\<lparr>uCmd = c, uArgs = args\<rparr>, r2)))"

definition ReadPacket :: "pkt reader" where
  "ReadPacket r =
     (case ReadUniversal r of
        Inl e \<Rightarrow> Inl e
      | Inr (uni, r') \<Rightarrow> (case FillPacket uni of Inl e \<Rightarrow> Inl e | Inr p \<Rightarrow> Inr (p, r')))"

section \<open>Round trips\<close>

text \<open>The packets whose wire form is lossless: addresses that \<open>ToBytes\<close> writes without loss and
  options with non-empty keys.\<close>

fun packet_wf :: "packet \<Rightarrow> bool" where
  "packet_wf (Connect opts) \<longleftrightarrow> opts_wf opts"
| "packet_wf (Disconnect opts) \<longleftrightarrow> opts_wf opts"
| "packet_wf (Ping opts) \<longleftrightarrow> opts_wf opts"
| "packet_wf (Subscribe a opts) \<longleftrightarrow> addr_wf a \<and> opts_wf opts"
| "packet_wf (Unsubscribe a opts) \<longleftrightarrow> addr_wf a \<and> opts_wf opts"
| "packet_wf (Lookup a s opts) \<longleftrightarrow> addr_wf a \<and> addr_wf s \<and> opts_wf opts"
| "packet_wf (Send a s payload opts) \<longleftrightarrow> addr_wf a \<and> addr_wf s \<and> opts_wf opts"

definition args_fit :: "bytes list \<Rightarrow> bool" where
  "args_fit args \<longleftrightarrow> length args < 128 \<and> sum_list (map length args) < 8000000"

lemma pack_tail: "packOptions opts args = args @ packOptions opts []"
  by (simp add: packOptions_eq)

lemma fill_toUniversal: "packet_wf p \<Longrightarrow> fillBody (toUniversal p) = Inr p"
proof (cases p)
  fix opts assume "p = Connect opts" "packet_wf p"
  then show ?thesis by (simp add: fill_defs unpack_pack)
next
  fix opts assume "p = Disconnect opts" "packet_wf p"
  then show ?thesis by (simp add: fill_defs unpack_pack)
next
  fix opts assume "p = Ping opts" "packet_wf p"
  then show ?thesis by (simp add: fill_defs unpack_pack)
next
  fix a opts assume "p = Subscribe a opts" "packet_wf p"
  then show ?thesis by (simp add: fill_defs pack_tail [of opts "_ # _"] from_to_bytes unpack_pack)
next
  fix a opts assume "p = Unsubscribe a opts" "packet_wf p"
  then show ?thesis by (simp add: fill_defs pack_tail [of opts "_ # _"] from_to_bytes unpack_pack)
next
  fix a s opts assume "p = Lookup a s opts" "packet_wf p"
  then show ?thesis by (simp add: fill_defs pack_tail [of opts "_ # _"] from_to_bytes unpack_pack)
next
  fix a s pl opts assume "p = Send a s pl opts" "packet_wf p"
  then show ?thesis by (simp add: fill_defs pack_tail [of opts "_ # _"] from_to_bytes unpack_pack)
qed

lemma universal_write_fit:
  "args_fit (uArgs u) \<Longrightarrow> \<exists>w. universalWrite u = (uCmd u # w, None) \<and> WriteArrayOfByteArray (uArgs u) = Inr w"
  by (simp add: universalWrite_def WriteArrayOfByteArray_def args_fit_def)

lemma read_universal_write:
  assumes "args_fit (uArgs u)"
  shows "ReadUniversal (fst (universalWrite u) @ r) = Inr (u, r)"
proof -
  obtain w where w: "universalWrite u = (uCmd u # w, None)" "WriteArrayOfByteArray (uArgs u) = Inr w"
    using universal_write_fit [OF assms] by blast
  have "ReadArrayOfByteArray (w @ r) = Inr (uArgs u, r)"
    using assms w(2) by (intro read_write_array) (simp_all add: args_fit_def)
  then show ?thesis by (simp add: w ReadUniversal_def)
qed

lemma read_packet_write:
  assumes "packet_wf (body p)" "backingUniversal p = None" "args_fit (uArgs (toUniversal (body p)))"
  shows "ReadPacket (fst (snd (packetWrite p)) @ r) = Inr (p, r)"
  using read_universal_write [OF assms(3), of r] fill_toUniversal [OF assms(1)] assms(2)
  by (cases p) (simp add: packetWrite_def Let_def ReadPacket_def FillPacket_def)

lemma read_universal_consumes:
  "ReadUniversal bs = Inr (u, r) \<Longrightarrow> length r < length bs \<and> args_fit (uArgs u)"
  by (auto simp: ReadUniversal_def args_fit_def split: list.splits sum.splits prod.splits
      dest: read_array_bounds)

lemma read_packet_consumes: "ReadPacket bs = Inr (p, r) \<Longrightarrow> length r < length bs"
  by (auto simp: ReadPacket_def split: sum.splits prod.splits dest: read_universal_consumes)

end
