(* ===== verification/Float64.thy ===== *)
theory Float64
  imports Prelude Complex_Main "HOL-Library.Log_Nat"
begin

text \<open>
  Go's \<open>float64\<close>, as the billing code uses it: IEEE 754 binary64 with rounding to nearest, ties to
  even. A value is a NaN, a signed infinity, or a sign and a rational magnitude (so the two zeros
  are distinct); every operation computes the exact rational result and rounds it with
  \<open>round_mag\<close>. Lemmas: integers up to \<open>2 ^ 53\<close> are represented exactly, sums of integers that
  stay in that range are exact, and so are comparisons.
\<close>

datatype f64 = NaN | Infty bool | Fin bool rat

section \<open>Rounding\<close>

definition pow2i :: "int \<Rightarrow> rat" where
  "pow2i k = (if 0 \<le> k then 2 ^ nat k else 1 / 2 ^ nat (- k))"

text \<open>The integer nearest to a rational, the even one of two.\<close>

definition rne :: "rat \<Rightarrow> int" where
  "rne x = (let f = \<lfloor>x\<rfloor>; d = x - of_int f in
     if d < 1 / 2 then f else if 1 / 2 < d then f + 1 else if even f then f else f + 1)"

text \<open>The exponent of the leading bit of a positive rational.\<close>

definition ilog2 :: "rat \<Rightarrow> int" where
  "ilog2 r = (case quotient_of r of (p, q) \<Rightarrow>
     let k = int (floorlog 2 (nat p)) - int (floorlog 2 (nat q)) in
     if pow2i k \<le> r then k else k - 1)"

definition round_mag :: "rat \<Rightarrow> rat" where
  "round_mag r =
     (if r \<le> 0 then 0
      else let e = max (ilog2 r - 52) (- 1074) in of_int (rne (r / pow2i e)) * pow2i e)"

definition round64 :: "bool \<Rightarrow> rat \<Rightarrow> f64" where
  "round64 neg r = (let v = round_mag r in if 2 ^ 1024 \<le> v then Infty neg else Fin neg v)"

section \<open>Operations\<close>

fun fval :: "f64 \<Rightarrow> rat" where
  "fval (Fin neg r) = (if neg then - r else r)"
| "fval _ = 0"

text \<open>The float of an exact result, a zero result taking the given sign.\<close>

definition of_exact :: "bool \<Rightarrow> rat \<Rightarrow> f64" where
  "of_exact zs x =
     (if x = 0 then Fin zs 0 else if x < 0 then round64 True (- x) else round64 False x)"

definition f_int :: "int \<Rightarrow> f64" where
  "f_int n = of_exact False (of_int n)"

definition f_zero :: f64 where
  "f_zero = Fin False 0"

fun fadd :: "f64 \<Rightarrow> f64 \<Rightarrow> f64" where
  "fadd (Fin s a) (Fin t b) = of_exact (s \<and> t) (fval (Fin s a) + fval (Fin t b))"
| "fadd (Infty s) (Infty t) = (if s = t then Infty s else NaN)"
| "fadd (Infty s) (Fin _ _) = Infty s"
| "fadd (Fin _ _) (Infty t) = Infty t"
| "fadd _ _ = NaN"

fun fneg :: "f64 \<Rightarrow> f64" where
  "fneg (Fin s a) = Fin (\<not> s) a"
| "fneg (Infty s) = Infty (\<not> s)"
| "fneg NaN = NaN"

definition fsub :: "f64 \<Rightarrow> f64 \<Rightarrow> f64" where
  "fsub a b = fadd a (fneg b)"

fun fmul :: "f64 \<Rightarrow> f64 \<Rightarrow> f64" where
  "fmul (Fin s a) (Fin t b) = (if a * b = 0 then Fin (s \<noteq> t) 0 else round64 (s \<noteq> t) (a * b))"
| "fmul (Infty s) (Infty t) = Infty (s \<noteq> t)"
| "fmul (Infty s) (Fin t b) = (if b = 0 then NaN else Infty (s \<noteq> t))"
| "fmul (Fin s a) (Infty t) = (if a = 0 then NaN else Infty (s \<noteq> t))"
| "fmul _ _ = NaN"

fun fdiv :: "f64 \<Rightarrow> f64 \<Rightarrow> f64" where
  "fdiv (Fin s a) (Fin t b) =
     (if b = 0 then (if a = 0 then NaN else Infty (s \<noteq> t))
      else if a = 0 then Fin (s \<noteq> t) 0 else round64 (s \<noteq> t) (a / b))"
| "fdiv (Infty s) (Fin t b) = Infty (s \<noteq> t)"
| "fdiv (Fin s a) (Infty t) = Fin (s \<noteq> t) 0"
| "fdiv _ _ = NaN"

text \<open>\<open>math.Floor\<close>: the sign of the argument is the sign of the result.\<close>

fun ffloor :: "f64 \<Rightarrow> f64" where
  "ffloor (Fin s a) = Fin s (of_int (if s then \<lceil>a\<rceil> else \<lfloor>a\<rfloor>))"
| "ffloor x = x"

fun flt :: "f64 \<Rightarrow> f64 \<Rightarrow> bool" where
  "flt (Fin s a) (Fin t b) = (fval (Fin s a) < fval (Fin t b))"
| "flt (Fin _ _) (Infty t) = (\<not> t)"
| "flt (Infty s) (Fin _ _) = s"
| "flt (Infty s) (Infty t) = (s \<and> \<not> t)"
| "flt _ _ = False"

fun feq :: "f64 \<Rightarrow> f64 \<Rightarrow> bool" where
  "feq (Fin s a) (Fin t b) = (fval (Fin s a) = fval (Fin t b))"
| "feq (Infty s) (Infty t) = (s = t)"
| "feq _ _ = False"

text \<open>The conversion to a 64-bit \<open>int\<close>; what does not fit becomes the least integer, as on amd64.\<close>

definition f_to_int :: "f64 \<Rightarrow> int" where
  "f_to_int x =
     (case x of
        Fin neg r \<Rightarrow> let n = (if neg then - \<lfloor>r\<rfloor> else \<lfloor>r\<rfloor>) in
          if - (2 ^ 63) \<le> n \<and> n < 2 ^ 63 then n else - (2 ^ 63)
      | _ \<Rightarrow> - (2 ^ 63))"

section \<open>Integers are exact\<close>

lemma pow2i_pos [simp]: "0 < pow2i k"
  by (simp add: pow2i_def)

lemma pow2i_nonneg_exp: "0 \<le> k \<Longrightarrow> pow2i k = of_int (2 ^ nat k)"
  by (simp add: pow2i_def)

lemma rne_int [simp]: "rne (of_int n) = n"
  by (simp add: rne_def Let_def)

lemma rne_near: "\<bar>of_int (rne x) - x\<bar> \<le> 1 / 2"
  by (auto simp: rne_def Let_def abs_if) linarith+

lemma rne_mono_floor: "\<lfloor>x\<rfloor> \<le> rne x \<and> rne x \<le> \<lfloor>x\<rfloor> + 1"
  by (simp add: rne_def Let_def)

lemma div_pow2i_int:
  assumes "k \<le> 0"
  shows "of_int n / pow2i k = of_int (n * 2 ^ nat (- k))"
proof (cases "k = 0")
  case False
  then show ?thesis using assms by (simp add: pow2i_def)
qed (simp add: pow2i_def)

lemma pow2i_cancel [simp]: "x / pow2i k * pow2i k = x"
  using pow2i_pos [of k] by (simp del: pow2i_pos)

lemma ilog2_int:
  assumes "0 < n" "n < 2 ^ 53"
  shows "ilog2 (of_int n) \<le> 52"
proof -
  have "floorlog 2 (nat n) \<le> 53"
  proof (rule floorlog_leI)
    show "nat n < 2 ^ 53" using assms by (simp add: nat_less_iff)
  qed simp_all
  then have k: "int (floorlog 2 (nat n)) - int (floorlog 2 1) \<le> 52"
    by (simp add: floorlog_def)
  then show ?thesis
    by (simp add: ilog2_def Let_def quotient_of_int)
qed

lemma round_mag_int:
  assumes "0 \<le> n" "n < 2 ^ 53"
  shows "round_mag (of_int n) = of_int n"
proof (cases "n = 0")
  case False
  then have n: "0 < n" using assms by simp
  define e where "e = max (ilog2 (of_int n) - 52) (- 1074)"
  have e: "e \<le> 0" using ilog2_int [OF n assms(2)] by (simp add: e_def)
  have "round_mag (of_int n) = of_int (rne (of_int n / pow2i e)) * pow2i e"
    using n by (simp add: round_mag_def e_def Let_def)
  also have "\<dots> = of_int (n * 2 ^ nat (- e)) * pow2i e"
    by (simp only: div_pow2i_int [OF e] rne_int)
  also have "\<dots> = of_int n"
    by (simp only: div_pow2i_int [OF e, symmetric] pow2i_cancel)
  finally show ?thesis .
qed (simp add: round_mag_def)

definition exact_int :: "int \<Rightarrow> bool" where
  "exact_int n \<longleftrightarrow> \<bar>n\<bar> < 2 ^ 53"

lemma f_int_exact: "exact_int n \<Longrightarrow> f_int n = Fin (n < 0) (of_int \<bar>n\<bar>)"
proof -
  assume a: "exact_int n"
  have r: "round_mag (of_int \<bar>n\<bar>) = (of_int \<bar>n\<bar> :: rat)"
    using a by (intro round_mag_int) (simp_all add: exact_int_def)
  have "(of_int \<bar>n\<bar> :: rat) < of_int (2 ^ 53)"
    using a by (simp only: of_int_less_iff exact_int_def)
  then have b: "\<not> 2 ^ 1024 \<le> (of_int \<bar>n\<bar> :: rat)"
    by simp
  show ?thesis
    using r b by (auto simp: f_int_def of_exact_def round64_def Let_def abs_if split: if_splits)
qed

lemma f_int_val: "exact_int n \<Longrightarrow> fval (f_int n) = of_int n"
  by (simp add: f_int_exact abs_if)

lemma f_int_0 [simp]: "f_int 0 = f_zero"
  by (simp add: f_int_def of_exact_def f_zero_def)

lemma exact_int_0 [simp]: "exact_int 0"
  by (simp add: exact_int_def)

lemma fadd_int:
  assumes "exact_int a" "exact_int b"
  shows "fadd (f_int a) (f_int b) = f_int (a + b)"
  using assms by (simp add: f_int_exact) (auto simp: f_int_def abs_if of_exact_def)

lemma flt_int: "exact_int a \<Longrightarrow> exact_int b \<Longrightarrow> flt (f_int a) (f_int b) \<longleftrightarrow> a < b"
  by (simp add: f_int_exact abs_if)

lemma feq_int: "exact_int a \<Longrightarrow> exact_int b \<Longrightarrow> feq (f_int a) (f_int b) \<longleftrightarrow> a = b"
  by (simp add: f_int_exact abs_if)

lemma f_int_inj: "exact_int a \<Longrightarrow> exact_int b \<Longrightarrow> f_int a = f_int b \<longleftrightarrow> a = b"
  by (auto simp: f_int_exact)

end
