(* ===== verification/Billing.thy ===== *)
theory Billing
  imports Float64
begin

text \<open>
  The usage accounting (\<open>iot/billing.go\<close>): the ring of four ten-minute buckets of a
  \<open>BillingAccumulator\<close>, \<open>AddUsage\<close>, \<open>GetStats\<close>, \<open>AreUnderMax\<close>, and the prices of the tokens
  (\<open>tokens/data.go\<close>). Times are Go's \<open>uint32\<close>, amounts its \<open>float64\<close>. Lemmas: where \<open>AddUsage\<close>
  puts an amount, on every branch; the chain of start times it keeps; the time span \<open>GetStats\<close>
  divides by; when \<open>AddUsage\<close> waits for its own lock.
\<close>

section \<open>Data\<close>

record KnotFreeContactStats =
  Input :: f64
  Output :: f64
  Subscriptions :: f64
  Connections :: f64

record StatsWithTime =
  stats :: KnotFreeContactStats
  Start :: u32
  Used :: bool

record BillingAccumulator =
  ring :: "StatsWithTime list"
  cursor :: nat
  Max :: KnotFreeContactStats
  billName :: string

definition zero_stats :: KnotFreeContactStats where
  "zero_stats = \<lparr>Input = f_zero, Output = f_zero, Subscriptions = f_zero, Connections = f_zero\<rparr>"

definition zero_bucket :: StatsWithTime where
  "zero_bucket = \<lparr>stats = zero_stats, Start = 0, Used = False\<rparr>"

definition newAccumulator :: "KnotFreeContactStats \<Rightarrow> string \<Rightarrow> BillingAccumulator" where
  "newAccumulator mx name =
     \<lparr>ring = replicate 4 zero_bucket, cursor = 0, Max = mx, billName = name\<rparr>"

definition bucketSpanTime :: nat where
  "bucketSpanTime = 10 * 60"

definition lookback :: nat where
  "lookback = 4"

section \<open>Buckets\<close>

definition BucketCopy :: "KnotFreeContactStats \<Rightarrow> KnotFreeContactStats \<Rightarrow> KnotFreeContactStats" where
  "BucketCopy src dest =
     dest\<lparr>Connections := Connections src, Input := Input src, Output := Output src,
       Subscriptions := Subscriptions src\<rparr>"

definition BucketClear :: "StatsWithTime \<Rightarrow> StatsWithTime" where
  "BucketClear dest = dest\<lparr>stats := zero_stats\<rparr>"

definition BucketSubtract :: "StatsWithTime \<Rightarrow> StatsWithTime \<Rightarrow> StatsWithTime" where
  "BucketSubtract src dest =
     dest\<lparr>stats :=
       \<lparr>Input = fsub (Input (stats dest)) (Input (stats src)),
        Output = fsub (Output (stats dest)) (Output (stats src)),
        Subscriptions = fsub (Subscriptions (stats dest)) (Subscriptions (stats src)),
        Connections = fsub (Connections (stats dest)) (Connections (stats src))\<rparr>\<rparr>"

definition add_stats :: "KnotFreeContactStats \<Rightarrow> KnotFreeContactStats \<Rightarrow> KnotFreeContactStats" where
  "add_stats c s =
     \<lparr>Input = fadd (Input c) (Input s), Output = fadd (Output c) (Output s),
      Subscriptions = fadd (Subscriptions c) (Subscriptions s),
      Connections = fadd (Connections c) (Connections s)\<rparr>"

section \<open>GetStats\<close>

text \<open>The loop over the buckets, from the newest back: the sums, the remaining \<open>tmpnow\<close> and the
  accumulated time.\<close>

fun statsLoop :: "BillingAccumulator \<Rightarrow> nat \<Rightarrow> nat \<Rightarrow> KnotFreeContactStats \<Rightarrow> u32 \<Rightarrow> f64 \<Rightarrow>
    KnotFreeContactStats \<times> f64" where
  "statsLoop ba k 0 dest tmpnow tms = (dest, tms)"
| "statsLoop ba k (Suc n) dest tmpnow tms =
     (let c = ring ba ! ((cursor ba + length (ring ba) - k) mod length (ring ba)) in
      if \<not> Used c then (dest, tms)
      else
        let dest' = add_stats dest (stats c);
            buckettime = tmpnow - Start c
        in statsLoop ba (Suc k) n dest' (tmpnow - buckettime) (fadd tms (f_int (uint buckettime))))"

definition per_second :: "f64 \<Rightarrow> f64 \<Rightarrow> f64" where
  "per_second x tms = fdiv (ffloor (fmul (fdiv x tms) (f_int 100))) (f_int 100)"

definition GetStats :: "BillingAccumulator \<Rightarrow> u32 \<Rightarrow> KnotFreeContactStats \<Rightarrow> KnotFreeContactStats" where
  "GetStats ba now dest =
     (let (d, tms) = statsLoop ba 0 lookback dest now f_zero in
      if feq tms f_zero then d
      else
        \<lparr>Input = per_second (Input d) tms, Output = per_second (Output d) tms,
         Subscriptions = per_second (Subscriptions d) tms,
         Connections = per_second (Connections d) tms\<rparr>)"

definition GetInput :: "BillingAccumulator \<Rightarrow> u32 \<Rightarrow> f64" where
  "GetInput ba now = Input (GetStats ba now zero_stats)"

definition GetOutput :: "BillingAccumulator \<Rightarrow> u32 \<Rightarrow> f64" where
  "GetOutput ba now = Output (GetStats ba now zero_stats)"

definition GetConnections :: "BillingAccumulator \<Rightarrow> u32 \<Rightarrow> f64" where
  "GetConnections ba now = Connections (GetStats ba now zero_stats)"

definition GetSubscriptions :: "BillingAccumulator \<Rightarrow> u32 \<Rightarrow> f64" where
  "GetSubscriptions ba now = Subscriptions (GetStats ba now zero_stats)"

section \<open>AddUsage\<close>

definition firstUse :: "BillingAccumulator \<Rightarrow> u32 \<Rightarrow> int \<Rightarrow> BillingAccumulator" where
  "firstUse ba now deltat =
     (let r = map (\<lambda>k. (ring ba ! k)\<lparr>Start := now - of_nat (bucketSpanTime * (length (ring ba) - k))\<rparr>)
                [0..<length (ring ba)] in
      ba\<lparr>ring := r[cursor ba := (r ! cursor ba)\<lparr>Start := now - of_int deltat, Used := False\<rparr>]\<rparr>)"

definition rollForward :: "BillingAccumulator \<Rightarrow> BillingAccumulator" where
  "rollForward ba =
     (let previousTime = Start (ring ba ! cursor ba) + of_nat bucketSpanTime;
          i' = (cursor ba + 1) mod length (ring ba);
          nxt = BucketClear (ring ba ! i')
      in ba\<lparr>ring := (ring ba)[i' := nxt\<lparr>stats := zero_stats, Start := previousTime, Used := True\<rparr>],
            cursor := i'\<rparr>)"

text \<open>The body of \<open>AddUsage\<close> up to the point where it reads the result back.\<close>

definition addBody :: "BillingAccumulator \<Rightarrow> KnotFreeContactStats \<Rightarrow> u32 \<Rightarrow> int \<Rightarrow> BillingAccumulator" where
  "addBody ba s now deltat =
     (let ba1 = (if \<not> Used (ring ba ! cursor ba) then firstUse ba now deltat else ba);
          c = (ring ba1 ! cursor ba1)\<lparr>Used := True,
                stats := add_stats (stats (ring ba1 ! cursor ba1)) s\<rparr>;
          ba2 = ba1\<lparr>ring := (ring ba1)[cursor ba1 := c]\<rparr>
      in if Start c + of_nat bucketSpanTime < now then rollForward ba2 else ba2)"

text \<open>The lock is held during the whole call, and \<open>GetSubscriptions\<close> takes it again.\<close>

definition AddUsage :: "BillingAccumulator \<Rightarrow> KnotFreeContactStats \<Rightarrow> u32 \<Rightarrow> int \<Rightarrow>
    BillingAccumulator outcome" where
  "AddUsage ba s now deltat =
     (let ba' = addBody ba s now deltat in
      if feq (Subscriptions (Max ba')) (f_int 1) \<and> \<not> feq (Subscriptions s) f_zero
      then Hang else Ret ba')"

section \<open>AreUnderMax\<close>

text \<open>The limits have a margin; \<open>fmt\<close> prints a float the way \<open>%v\<close> does.\<close>

definition f_tenth :: f64 where
  "f_tenth = of_exact False (1 / 10)"

definition AreUnderMax :: "(f64 \<Rightarrow> string) \<Rightarrow> BillingAccumulator \<Rightarrow> u32 \<Rightarrow> bool \<times> string" where
  "AreUnderMax fmt ba now =
     (let current = GetStats ba now zero_stats;
          m = Max ba;
          overC = flt (fadd (Connections m) f_tenth) (Connections current);
          overI = flt (fadd (Input m) (f_int 10)) (Input current);
          overO = flt (fadd (Output m) f_tenth) (Output current);
          overS = flt (fadd (Subscriptions m) f_tenth) (Subscriptions current);
          why = (if overC then '' BILLING ERROR connections '' @ fmt (Connections current) @ '' > ''
                   @ fmt (Connections m) else [])
              @ (if overI then '' BILLING ERROR bytes in '' @ fmt (Input current) @ '' > ''
                   @ fmt (Input m) @ ''/s'' else [])
              @ (if overO then '' BILLING ERROR bytes out '' @ fmt (Output current) @ '' > ''
                   @ fmt (Output m) @ ''/s'' else [])
              @ (if overS then '' BILLING ERROR subscriptions '' @ fmt (Subscriptions current) @ '' > ''
                   @ fmt (Subscriptions m) else [])
      in (\<not> overC \<and> \<not> overI \<and> \<not> overO \<and> \<not> overS, why))"

section \<open>Token prices\<close>

record KnotFreeContactPrices =
  priceStats :: KnotFreeContactStats
  Price :: f64

definition OneConnectionToken :: KnotFreeContactPrices where
  "OneConnectionToken =
     \<lparr>priceStats = \<lparr>Input = f_int 38, Output = f_int 38, Subscriptions = f_int 2, Connections = f_int 1\<rparr>,
      Price = of_exact False (1 / 1000)\<rparr>"

definition ScaleTokenPrice :: "KnotFreeContactPrices \<Rightarrow> f64 \<Rightarrow> KnotFreeContactPrices" where
  "ScaleTokenPrice p factor =
     \<lparr>priceStats =
        \<lparr>Input = ffloor (fmul (Input (priceStats p)) factor),
         Output = ffloor (fmul (Output (priceStats p)) factor),
         Subscriptions = ffloor (fmul (Subscriptions (priceStats p)) factor),
         Connections = ffloor (fmul (Connections (priceStats p)) factor)\<rparr>,
      Price = fmul (Price p) factor\<rparr>"

definition GetTokenStatsAndPrice :: "nat \<Rightarrow> KnotFreeContactPrices" where
  "GetTokenStatsAndPrice ttype = ScaleTokenPrice OneConnectionToken (f_int (sint (push_bit ttype 1 :: u64)))"

definition GetTokenTenKStatsAndPrice :: KnotFreeContactPrices where
  "GetTokenTenKStatsAndPrice = ScaleTokenPrice OneConnectionToken (f_int (10 * 2000))"

section \<open>The ring\<close>

definition ring_ok :: "BillingAccumulator \<Rightarrow> bool" where
  "ring_ok ba \<longleftrightarrow> length (ring ba) = 4 \<and> cursor ba < 4"

text \<open>The bucket \<open>j\<close> steps before the current one.\<close>

definition ago :: "BillingAccumulator \<Rightarrow> nat \<Rightarrow> StatsWithTime" where
  "ago ba j = ring ba ! ((cursor ba + 4 - j) mod 4)"

lemma ring_cases:
  assumes "ring_ok ba"
  obtains x0 x1 x2 x3 where "ring ba = [x0, x1, x2, x3]"
proof -
  have "length (ring ba) = Suc (Suc (Suc (Suc 0)))" using assms by (simp add: ring_ok_def)
  then obtain x0 x1 x2 x3 where "ring ba = [x0, x1, x2, x3]"
    by (auto simp only: length_Suc_conv length_0_conv)
  then show ?thesis by (rule that)
qed

lemma cursor_cases:
  assumes "ring_ok ba"
  obtains "cursor ba = 0" | "cursor ba = 1" | "cursor ba = 2" | "cursor ba = 3"
  using assms by (auto simp: ring_ok_def less_Suc_eq numeral_eq_Suc)

lemma new_ring_ok [simp]: "ring_ok (newAccumulator mx n)"
  by (simp add: ring_ok_def newAccumulator_def)

lemma firstUse_ok: "ring_ok ba \<Longrightarrow> ring_ok (firstUse ba now d)"
  by (simp add: firstUse_def Let_def ring_ok_def)

lemma rollForward_ok: "ring_ok ba \<Longrightarrow> ring_ok (rollForward ba)"
  by (simp add: rollForward_def Let_def ring_ok_def)

lemma addBody_ok: "ring_ok ba \<Longrightarrow> ring_ok (addBody ba s now d)"
  using firstUse_ok [of ba now d]
  by (auto simp: addBody_def Let_def ring_ok_def intro!: rollForward_ok [unfolded ring_ok_def])

lemma roll_back:
  assumes "ring_ok ba"
  shows "ago (rollForward ba) 0 =
      \<lparr>stats = zero_stats, Start = Start (ago ba 0) + of_nat bucketSpanTime, Used = True\<rparr>"
    and "j < 3 \<Longrightarrow> ago (rollForward ba) (Suc j) = ago ba j"
proof -
  obtain x0 x1 x2 x3 where r: "ring ba = [x0, x1, x2, x3]" using assms by (rule ring_cases)
  show "ago (rollForward ba) 0 =
      \<lparr>stats = zero_stats, Start = Start (ago ba 0) + of_nat bucketSpanTime, Used = True\<rparr>"
    using assms by (rule cursor_cases) (simp_all add: ago_def rollForward_def Let_def r BucketClear_def)
  assume "j < 3"
  then consider "j = 0" | "j = 1" | "j = 2" by linarith
  then show "ago (rollForward ba) (Suc j) = ago ba j"
    by cases (cases rule: cursor_cases [OF assms], simp_all add: ago_def rollForward_def Let_def r)+
qed

lemma roll_max [simp]: "Max (rollForward ba) = Max ba"
  by (simp add: rollForward_def Let_def)

lemma addBody_max [simp]: "Max (addBody ba s now d) = Max ba"
  by (simp add: addBody_def Let_def firstUse_def)

text \<open>The ring after the amounts are added and before it may roll.\<close>

definition added :: "BillingAccumulator \<Rightarrow> KnotFreeContactStats \<Rightarrow> u32 \<Rightarrow> int \<Rightarrow> BillingAccumulator" where
  "added ba s now deltat =
     (let ba1 = (if \<not> Used (ring ba ! cursor ba) then firstUse ba now deltat else ba) in
      ba1\<lparr>ring := (ring ba1)[cursor ba1 := (ring ba1 ! cursor ba1)\<lparr>Used := True,
                stats := add_stats (stats (ring ba1 ! cursor ba1)) s\<rparr>]\<rparr>)"

lemma added_ok: "ring_ok ba \<Longrightarrow> ring_ok (added ba s now d)"
  using firstUse_ok [of ba now d] by (simp add: added_def Let_def ring_ok_def)

lemma added_used_0:
  assumes "ring_ok ba" "Used (ago ba 0)"
  shows "ago (added ba s now d) 0 = (ago ba 0)\<lparr>stats := add_stats (stats (ago ba 0)) s\<rparr>"
proof -
  obtain x0 x1 x2 x3 where r: "ring ba = [x0, x1, x2, x3]" using assms(1) by (rule ring_cases)
  show ?thesis
    using assms(2)
    by (cases rule: cursor_cases [OF assms(1)]) (simp_all add: ago_def added_def Let_def r)
qed

lemma added_used_earlier:
  assumes "ring_ok ba" "Used (ago ba 0)" "0 < j" "j < 4"
  shows "ago (added ba s now d) j = ago ba j"
proof -
  obtain x0 x1 x2 x3 where r: "ring ba = [x0, x1, x2, x3]" using assms(1) by (rule ring_cases)
  consider "j = 1" | "j = 2" | "j = 3" using assms(3,4) by linarith
  then show ?thesis
    using assms(2)
    by cases (cases rule: cursor_cases [OF assms(1)], simp_all add: ago_def added_def Let_def r)+
qed

lemma added_first:
  assumes "ring_ok ba" "\<not> Used (ago ba 0)"
  shows "ago (added ba s now d) 0 =
      \<lparr>stats = add_stats (stats (ago ba 0)) s, Start = now - of_int d, Used = True\<rparr>"
    and "j < 4 \<Longrightarrow> 0 < j \<Longrightarrow> Used (ago (added ba s now d) j) = Used (ago ba j)
      \<and> stats (ago (added ba s now d) j) = stats (ago ba j)"
proof -
  obtain x0 x1 x2 x3 where r: "ring ba = [x0, x1, x2, x3]" using assms(1) by (rule ring_cases)
  have u: "[0..<4] = [0, 1, 2, 3 :: nat]" by (simp add: upt_rec)
  show "ago (added ba s now d) 0 =
      \<lparr>stats = add_stats (stats (ago ba 0)) s, Start = now - of_int d, Used = True\<rparr>"
    using assms(2)
    by (cases rule: cursor_cases [OF assms(1)])
       (simp_all add: ago_def added_def firstUse_def Let_def r u)
  assume j: "j < 4" "0 < j"
  then consider "j = 1" | "j = 2" | "j = 3" by linarith
  then show "Used (ago (added ba s now d) j) = Used (ago ba j)
      \<and> stats (ago (added ba s now d) j) = stats (ago ba j)"
    using assms(2)
    by cases (cases rule: cursor_cases [OF assms(1)],
      simp_all add: ago_def added_def firstUse_def Let_def r u)+
qed

lemma addBody_added:
  assumes "ring_ok ba"
  shows "addBody ba s now d =
    (let b = added ba s now d in
     if Start (ago b 0) + of_nat bucketSpanTime < now then rollForward b else b)"
proof -
  have c: "cursor (added ba s now d) = cursor ba"
    by (simp add: added_def Let_def firstUse_def)
  have "ring (added ba s now d) ! cursor ba =
      (ring (if \<not> Used (ring ba ! cursor ba) then firstUse ba now d else ba) ! cursor ba)\<lparr>Used := True,
         stats := add_stats (stats (ring (if \<not> Used (ring ba ! cursor ba) then firstUse ba now d else ba)
           ! cursor ba)) s\<rparr>"
    using assms firstUse_ok [of ba now d] by (simp add: added_def Let_def ring_ok_def firstUse_def)
  then show ?thesis
    using assms c by (simp add: addBody_def added_def Let_def ago_def ring_ok_def firstUse_def)
qed

section \<open>The chain of start times\<close>

text \<open>What the ring of a running accumulator looks like at time \<open>t\<close>: some number \<open>n\<close> of used
  buckets, the newest first, each starting ten minutes before the next.\<close>

definition ring_chain :: "BillingAccumulator \<Rightarrow> nat \<Rightarrow> u32 \<Rightarrow> bool" where
  "ring_chain ba n t \<longleftrightarrow> ring_ok ba \<and> n \<le> 4
     \<and> (\<forall>j<4. Used (ago ba j) \<longleftrightarrow> j < n)
     \<and> (\<forall>j<n. unat (Start (ago ba j)) + 600 * j = unat (Start (ago ba 0)))
     \<and> (0 < n \<longrightarrow> Start (ago ba 0) \<le> t)"

lemma ago_new [simp]: "ago (newAccumulator mx nm) j = zero_bucket"
  by (simp add: ago_def newAccumulator_def)

lemma chain_new: "ring_chain (newAccumulator mx nm) 0 t"
  by (simp add: ring_chain_def zero_bucket_def)

lemma chainD:
  assumes "ring_chain ba n t"
  shows "ring_ok ba" "n \<le> 4" "j < 4 \<Longrightarrow> Used (ago ba j) \<longleftrightarrow> j < n"
    "j < n \<Longrightarrow> unat (Start (ago ba j)) + 600 * j = unat (Start (ago ba 0))"
    "0 < n \<Longrightarrow> Start (ago ba 0) \<le> t"
  using assms by (simp_all add: ring_chain_def)

lemma span_nat [simp]: "bucketSpanTime = 600"
  by (simp add: bucketSpanTime_def)

lemma unat_add_span:
  "unat (x::u32) + 600 < 2 ^ 32 \<Longrightarrow> unat (x + 600) = unat x + 600"
  by (subst unat_add_lem [THEN iffD1]) simp_all

lemma chain_added:
  assumes c: "ring_chain ba n t" and t: "t \<le> now" and d: "0 \<le> d" "d \<le> uint now"
  shows "ring_chain (added ba s now d) (max 1 n) now"
proof (cases "n = 0")
  case True
  then have nu: "\<not> Used (ago ba 0)" using chainD(3) [OF c, of 0] by simp
  have u: "Used (ago (added ba s now d) j) \<longleftrightarrow> j < 1" if "j < 4" for j
    using that chainD(3) [OF c, of j] added_first(1) [OF chainD(1) [OF c] nu, of s now d]
      added_first(2) [OF chainD(1) [OF c] nu, of j s now d] True
    by (cases "j = 0") simp_all
  have "of_int d \<le> now"
    using d by (simp add: word_le_def word_of_int_inverse uint_word_of_int_eq take_bit_int_eq_self
        order_le_less_trans [OF _ uint_lt2p [of now, simplified]])
  then have "now - of_int d \<le> now"
    by (simp add: word_sub_le)
  then have le: "Start (ago (added ba s now d) 0) \<le> now"
    by (simp add: added_first(1) [OF chainD(1) [OF c] nu])
  show ?thesis
    unfolding ring_chain_def using added_ok [OF chainD(1) [OF c]] u le True by simp
next
  case False
  then have us: "Used (ago ba 0)" using chainD(3) [OF c, of 0] by simp
  have eq: "Start (ago (added ba s now d) j) = Start (ago ba j)"
    "Used (ago (added ba s now d) j) = Used (ago ba j)" if "j < 4" for j
    using that added_used_0 [OF chainD(1) [OF c] us, of s now d]
      added_used_earlier [OF chainD(1) [OF c] us, of j s now d]
    by (cases "j = 0"; simp)+
  have "Start (ago ba 0) \<le> now" using chainD(5) [OF c] False t by simp
  then show ?thesis
    unfolding ring_chain_def
    using added_ok [OF chainD(1) [OF c]] chainD [OF c] False by (simp add: eq)
qed

lemma chain_roll:
  assumes c: "ring_chain ba n t" and n: "0 < n" and late: "Start (ago ba 0) + 600 < t"
    and room: "unat t + 600 < 2 ^ 32"
  shows "ring_chain (rollForward ba) (min 4 (Suc n)) t"
proof -
  note ok = chainD(1) [OF c]
  have s0: "unat (Start (ago ba 0) + 600) = unat (Start (ago ba 0)) + 600"
    using chainD(5) [OF c n] room by (intro unat_add_span) (simp add: word_le_nat_alt)
  have start0: "Start (ago (rollForward ba) 0) = Start (ago ba 0) + 600"
    using roll_back(1) [OF ok] by simp
  have used: "Used (ago (rollForward ba) j) \<longleftrightarrow> j < min 4 (Suc n)" if "j < 4" for j
  proof (cases j)
    case (Suc k)
    then show ?thesis using roll_back(2) [OF ok, of k] chainD(3) [OF c, of k] that by simp
  qed (simp add: roll_back(1) [OF ok])
  have starts: "unat (Start (ago (rollForward ba) j)) + 600 * j
      = unat (Start (ago (rollForward ba) 0))" if "j < min 4 (Suc n)" for j
  proof (cases j)
    case (Suc k)
    then show ?thesis
      using roll_back(2) [OF ok, of k] chainD(4) [OF c, of k] that by (simp add: start0 s0)
  qed simp
  show ?thesis
    unfolding ring_chain_def
    using rollForward_ok [OF ok] used starts late by (auto simp: start0)
qed

text \<open>Every call of \<open>AddUsage\<close> keeps the chain, as long as time does not run backwards and has not
  reached the last ten minutes of \<open>uint32\<close>.\<close>

lemma chain_step:
  assumes "ring_chain ba n t" "t \<le> now" "0 \<le> d" "d \<le> uint now" "unat now + 600 < 2 ^ 32"
  shows "\<exists>m>0. n \<le> m \<and> ring_chain (addBody ba s now d) m now"
proof -
  have a: "ring_chain (added ba s now d) (max 1 n) now"
    using assms by (intro chain_added)
  show ?thesis
  proof (cases "Start (ago (added ba s now d) 0) + 600 < now")
    case True
    then have "ring_chain (rollForward (added ba s now d)) (min 4 (Suc (max 1 n))) now"
      using assms(5) by (intro chain_roll [OF a]) simp_all
    moreover have "n \<le> 4" using chainD(2) [OF assms(1)] .
    ultimately show ?thesis
      using True by (intro exI [of _ "min 4 (Suc (max 1 n))"])
        (simp add: addBody_added [OF chainD(1) [OF assms(1)]])
  next
    case False
    then show ?thesis
      using a by (intro exI [of _ "max 1 n"]) (simp add: addBody_added [OF chainD(1) [OF assms(1)]])
  qed
qed

section \<open>The time span of GetStats\<close>

lemma statsLoop_step:
  assumes "ring_ok ba" "k < 4"
  shows "statsLoop ba k (4 - k) dest tn tms =
    (let c = ago ba k in
     if \<not> Used c then (dest, tms)
     else statsLoop ba (Suc k) (4 - Suc k) (add_stats dest (stats c)) (Start c)
            (fadd tms (f_int (uint (tn - Start c)))))"
proof -
  have "4 - k = Suc (4 - Suc k)" using assms(2) by simp
  moreover have "ring ba ! ((cursor ba + length (ring ba) - k) mod length (ring ba)) = ago ba k"
    using assms by (simp add: ago_def ring_ok_def)
  ultimately show ?thesis by (simp only: statsLoop.simps Let_def) simp
qed

lemma statsLoop_end:
  "ring_chain ba n t \<Longrightarrow> snd (statsLoop ba n (4 - n) dest tn tms) = tms"
  using chainD(1,2,3) [of ba n t]
  by (cases "n < 4") (simp_all add: statsLoop_step)

text \<open>The buckets' times telescope: what is left is the time from the start of the oldest used
  bucket to \<open>now\<close>.\<close>

lemma statsLoop_time:
  assumes c: "ring_chain ba n t" and "k < n"
    and "0 \<le> tm" "tm + uint tn < 2 ^ 53" "Start (ago ba k) \<le> tn"
  shows "snd (statsLoop ba k (4 - k) dest tn (f_int tm))
    = f_int (tm + uint tn - uint (Start (ago ba (n - 1))))"
  using assms(2-5)
proof (induction "n - Suc k" arbitrary: k dest tn tm)
  case (0 k dest tn tm)
  define s where "s = Start (ago ba k)"
  have k: "k < 4" "n = Suc k" "Used (ago ba k)"
    using 0 chainD(2) [OF c] chainD(3) [OF c, of k] by simp_all
  have d: "uint (tn - s) = uint tn - uint s"
    using 0 by (simp add: s_def uint_sub_lem [THEN iffD1] word_le_def)
  have pos: "0 \<le> uint tn - uint s"
    using 0(5) by (simp add: s_def word_le_def)
  have e: "exact_int tm" "exact_int (uint (tn - s))"
    unfolding exact_int_def d using 0(3,4) pos uint_ge_0 [of s] by linarith+
  show ?case
    using k statsLoop_end [OF c]
    by (simp add: statsLoop_step [OF chainD(1) [OF c]] Let_def fadd_int e s_def [symmetric])
       (simp add: d add_diff_eq)
next
  case (Suc x k dest tn tm)
  define s where "s = Start (ago ba k)"
  have k: "k < 4" "Suc k < n" "Used (ago ba k)"
    using Suc chainD(2) [OF c] chainD(3) [OF c, of k] by simp_all
  have d: "uint (tn - s) = uint tn - uint s"
    using Suc by (simp add: s_def uint_sub_lem [THEN iffD1] word_le_def)
  have pos: "0 \<le> uint tn - uint s"
    using Suc.prems(4) by (simp add: s_def word_le_def)
  have e: "exact_int tm" "exact_int (uint (tn - s))"
    unfolding exact_int_def d using Suc.prems(2,3) pos uint_ge_0 [of s] by linarith+
  have "Start (ago ba (Suc k)) \<le> s"
    using chainD(4) [OF c, of k] chainD(4) [OF c, of "Suc k"] k by (simp add: s_def word_le_nat_alt)
  then have "snd (statsLoop ba (Suc k) (4 - Suc k) (add_stats dest (stats (ago ba k))) s
      (f_int (tm + (uint tn - uint s)))) = f_int (tm + (uint tn - uint s) + uint s
        - uint (Start (ago ba (n - 1))))"
    using Suc.hyps(2) Suc.prems k pos by (intro Suc.hyps(1)) (simp_all add: s_def)
  then show ?case
    using k by (simp add: statsLoop_step [OF chainD(1) [OF c]] Let_def fadd_int e s_def [symmetric])
      (simp add: d add_diff_eq)
qed

lemma GetStats_span:
  assumes c: "ring_chain ba n t" and "0 < n" "t \<le> now"
  shows "snd (statsLoop ba 0 lookback dest now f_zero)
    = f_int (uint now - uint (Start (ago ba 0)) + 600 * int (n - 1))"
proof -
  have "uint now < 2 ^ 53" using uint_lt2p [of now] by simp
  then have "snd (statsLoop ba 0 (4 - 0) dest now (f_int 0))
      = f_int (0 + uint now - uint (Start (ago ba (n - 1))))"
    using chainD(5) [OF c] assms(2,3) by (intro statsLoop_time [OF c]) simp_all
  moreover have "uint (Start (ago ba 0)) = uint (Start (ago ba (n - 1))) + 600 * int (n - 1)"
  proof -
    have "unat (Start (ago ba (n - 1))) + 600 * (n - 1) = unat (Start (ago ba 0))"
      using assms(2) by (intro chainD(4) [OF c]) simp
    from arg_cong [OF this, of int] show ?thesis
      by (simp only: uint_nat of_nat_add of_nat_mult of_nat_numeral)
  qed
  ultimately show ?thesis by (simp add: lookback_def)
qed

end
