(* ===== verification/LookupTable.thy ===== *)
theory LookupTable
  imports Hashes Packets Billing
begin

text \<open>
  The lookup table (\<open>iot/lookup-table.go\<close>, \<open>iot/upper-channels.go\<close>): its buckets of topics, the
  queue of messages in front of each bucket, the upstream router, and the operations on topics.
  A contact is known to the table by its key. What a handler does to the outside (writes to
  contacts, pushes to upper channels, publishes through an aide, database writes, messages it
  queues to its own bucket) is the list of \<open>effect\<close>s it returns, in order.

  \<open>maglev.New(names, size).Lookup\<close>, the database and the JSON codec are not part of the program;
  they are fields of \<open>env\<close>. An iteration over a Go map takes its order from the field \<open>mapOrder\<close>.
\<close>

section \<open>Data\<close>

type_synonym contact = HalfHash

record watcherItem =
  contactInterface :: contact
  pub2self :: bool

text \<open>A value of a topic's option tree: \<open>SetOption\<close> stores strings, a decoded document may hold
  byte slices or other values.\<close>

datatype optval = OStr string | OBytes bytes | OOther

record WatchedTopic =
  Name :: HashType
  NameStr :: string
  Expires :: u32
  thetree :: "(HalfHash, watcherItem) omap"
  OptionalKeyValues :: "(string, optval) omap option"
  Bill :: "BillingAccumulator option"
  nextBillingTime :: u32
  lastBillingTime :: u32
  Jwtid :: string
  OwnedBroadcast :: bool
  Owner :: string
  Users :: "string list"

definition emptyTopic :: WatchedTopic where
  "emptyTopic =
     \<lparr>Name = Hash 0 0 0, NameStr = [], Expires = 0, thetree = [], OptionalKeyValues = None, Bill = None,
      nextBillingTime = 0, lastBillingTime = 0, Jwtid = [], OwnedBroadcast = False, Owner = [],
      Users = []\<rparr>"

type_synonym topics = "(HashType, WatchedTopic) omap"

text \<open>A lookup request with the contact it came from.\<close>

record lookupReq =
  lookContact :: contact
  lookHash :: HashType
  lookAddress :: AddressUnion
  lookSource :: AddressUnion
  lookOptions :: options

text \<open>What remains of a lookup command once the topic is at hand.\<close>

datatype finish =
    FinDetails
  | FinGetOption string string
  | FinGetTxt string
  | FinSetOption string string string
  | FinBulkOption string "string list"
  | FinReplaceOptions bytes
  | FinProxyStatus
  | FinExists
  | FinOk

datatype callback =
    HeartBeatCallBack u32
  | GuruDeleteRemapped int
  | ReSubscribeRemapped
  | ReSubscribeMine int
  | FlushMarker
  | Counting
  | LookBack lookupReq "WatchedTopic option" finish
  | LookBackSame lookupReq WatchedTopic

datatype message =
    SubscriptionMessage contact HashType AddressUnion options
  | UnsubscribeMessage contact HashType AddressUnion options
  | PublishMessage contact HashType AddressUnion AddressUnion bytes options
  | LookupMessage lookupReq
  | SubscriptionMessageDown HashType AddressUnion options
  | PublishMessageDown HashType AddressUnion AddressUnion bytes options
  | CallBackMessage callback

text \<open>\<open>Requeue\<close> is a send to the own queue by a goroutine, \<open>RequeueNow\<close> one by the handler itself.\<close>

datatype effect =
    Down contact packet
  | Up nat packet
  | ToAide packet
  | Requeue message
  | RequeueNow message
  | SaveTopic WatchedTopic
  | DeleteTopic string

record subscribeBucket =
  mySubscriptions :: topics
  incoming :: "message list"

text \<open>A Go channel variable: nil, open or closed. Closing one that is not open panics.\<close>

datatype chanState = NilChan | OpenChan | ClosedChan

record upperChannel =
  upName :: string
  upAddress :: string
  upQueue :: "packet list"
  upIndex :: nat
  upUp :: chanState
  upDown :: chanState
  upStopped :: chanState
  upConn :: bool

text \<open>A maglev table is kept as the names and the size it was made from.\<close>

type_synonym maglev = "string list \<times> nat"

record upstreamRouter =
  channels :: "upperChannel option list"
  maglevTable :: "maglev option"
  previousMaglev :: "maglev option"
  name2channel :: "(string, upperChannel) omap"

record looker =
  allTheSubscriptions :: "subscribeBucket list"
  myname :: string
  isGuru :: bool
  lookDebug :: bool
  router :: upstreamRouter
  theBucketsSizeLog2 :: nat
  exBilling :: BillingAccumulator

record env =
  isClosed :: "contact \<Rightarrow> bool"
  timeNow :: u32
  maglevLookup :: "maglev \<Rightarrow> u64 \<Rightarrow> nat"
  parseStats :: "bytes \<Rightarrow> KnotFreeContactStats option"
  showStats :: "KnotFreeContactStats \<Rightarrow> bytes"
  showFloat :: "f64 \<Rightarrow> string"
  mapOrder :: "HashType list \<Rightarrow> HashType list"
  goLate :: bool

definition queueCapacity :: nat where
  "queueCapacity = 256"

definition upCapacity :: nat where
  "upCapacity = 1280"

section \<open>A topic's watchers and options\<close>

definition wtPut :: "WatchedTopic \<Rightarrow> HalfHash \<Rightarrow> watcherItem \<Rightarrow> WatchedTopic" where
  "wtPut wt key item = wt\<lparr>thetree := om_put key item (thetree wt)\<rparr>"

definition wtGet :: "WatchedTopic \<Rightarrow> HalfHash \<Rightarrow> watcherItem option" where
  "wtGet wt key = om_get (thetree wt) key"

definition wtRemove :: "WatchedTopic \<Rightarrow> HalfHash \<Rightarrow> WatchedTopic" where
  "wtRemove wt key = wt\<lparr>thetree := om_remove key (thetree wt)\<rparr>"

definition wtRemoveAll :: "WatchedTopic \<Rightarrow> WatchedTopic" where
  "wtRemoveAll wt = wt\<lparr>thetree := []\<rparr>"

definition wtSize :: "WatchedTopic \<Rightarrow> nat" where
  "wtSize wt = om_size (thetree wt)"

text \<open>The entries an iterator delivers, in order.\<close>

definition wtItems :: "WatchedTopic \<Rightarrow> (HalfHash \<times> watcherItem) list" where
  "wtItems wt = thetree wt"

definition wtOptionSize :: "WatchedTopic \<Rightarrow> nat" where
  "wtOptionSize wt = (case OptionalKeyValues wt of None \<Rightarrow> 0 | Some t \<Rightarrow> om_size t)"

definition wtGetOption :: "WatchedTopic \<Rightarrow> string \<Rightarrow> bytes \<times> bool" where
  "wtGetOption wt key =
     (case OptionalKeyValues wt of
        None \<Rightarrow> ([], False)
      | Some t \<Rightarrow>
          (case om_get t key of
             None \<Rightarrow> ([], False)
           | Some (OBytes b) \<Rightarrow> (b, True)
           | Some (OStr s) \<Rightarrow> (s, True)
           | Some OOther \<Rightarrow> ([], False)))"

definition IsBilling :: "WatchedTopic \<Rightarrow> BillingAccumulator option" where
  "IsBilling wt = Bill wt"

definition wtDeleteOption :: "WatchedTopic \<Rightarrow> string \<Rightarrow> WatchedTopic" where
  "wtDeleteOption wt key =
     (case OptionalKeyValues wt of
        None \<Rightarrow> wt
      | Some t \<Rightarrow> wt\<lparr>OptionalKeyValues := Some (om_remove key t)\<rparr>)"

definition wtReplaceOptions :: "WatchedTopic \<Rightarrow> (string \<times> string) list \<Rightarrow> WatchedTopic" where
  "wtReplaceOptions wt amap =
     wt\<lparr>OptionalKeyValues := Some (om_build (map (\<lambda>(k, v). (k, OStr v)) amap) [])\<rparr>"

definition wtSetOption :: "WatchedTopic \<Rightarrow> string \<Rightarrow> string \<Rightarrow> WatchedTopic" where
  "wtSetOption wt key val =
     wt\<lparr>OptionalKeyValues :=
       Some (om_put key (OStr val) (case OptionalKeyValues wt of None \<Rightarrow> [] | Some t \<Rightarrow> t))\<rparr>"

section \<open>The topics of a bucket\<close>

definition getWatcher :: "topics \<Rightarrow> HashType \<Rightarrow> WatchedTopic option" where
  "getWatcher s h = om_get s h"

definition setWatcher :: "topics \<Rightarrow> HashType \<Rightarrow> WatchedTopic option \<Rightarrow> topics" where
  "setWatcher s h watcher =
     (case watcher of Some w \<Rightarrow> om_put h w s | None \<Rightarrow> om_remove h s)"

text \<open>The topics in the order in which a \<open>range\<close> over the map meets them.\<close>

definition rangeTopics :: "env \<Rightarrow> topics \<Rightarrow> HashType list" where
  "rangeTopics e s = mapOrder e (map fst s)"

definition checkForBadContact :: "env \<Rightarrow> contact \<Rightarrow> bool" where
  "checkForBadContact e c = isClosed e c"

section \<open>Pushing up\<close>

definition getUpperChannel :: "env \<Rightarrow> upstreamRouter \<Rightarrow> maglev \<Rightarrow> u64 \<Rightarrow> (nat \<times> upperChannel option) outcome" where
  "getUpperChannel e r m h =
     (let index = maglevLookup e m h in
      if length (channels r) \<le> index then Panic else Ret (index, channels r ! index))"

definition PushUp :: "looker \<Rightarrow> env \<Rightarrow> packet \<Rightarrow> HashType \<Rightarrow> (effect list \<times> string option) outcome" where
  "PushUp me e p h =
     (case maglevTable (router me) of
        None \<Rightarrow> Ret ([], Some ''no upstreamRouter'')
      | Some m \<Rightarrow>
          if channels (router me) = [] then Ret ([], Some ''no upstream channels'')
          else bind_out (getUpperChannel e (router me) m (GetUint64 h)) (\<lambda>(index, upc).
            case upc of
              Some c \<Rightarrow> if upUp c = ClosedChan then Panic
                        else if upUp c = NilChan then Hang
                        else Ret ([Up index p], None)
            | None \<Rightarrow> Ret ([], Some ''missing upper channel'')))"

text \<open>The callers print the error and go on.\<close>

definition pushUp :: "looker \<Rightarrow> env \<Rightarrow> packet \<Rightarrow> HashType \<Rightarrow> effect list outcome" where
  "pushUp me e p h = bind_out (PushUp me e p h) (\<lambda>(effs, err). Ret effs)"

section \<open>A new table\<close>

definition emptyBucket :: subscribeBucket where
  "emptyBucket = \<lparr>mySubscriptions = [], incoming = []\<rparr>"

definition NewLookupTable :: "nat \<Rightarrow> string \<Rightarrow> bool \<Rightarrow> BillingAccumulator \<Rightarrow> looker" where
  "NewLookupTable projectedTopicCount aname guru bill =
     (let lg = (if projectedTopicCount < 1000 then 2 else 6);
          size = (if projectedTopicCount < 1000 then 4 else 64)
      in \<lparr>allTheSubscriptions = replicate size emptyBucket, myname = aname, isGuru = guru,
          lookDebug = (projectedTopicCount < 1000), router = \<lparr>channels = [], maglevTable = None, previousMaglev = None, name2channel = []\<rparr>,
          theBucketsSizeLog2 = lg, exBilling = bill\<rparr>)"

section \<open>Queueing messages\<close>

definition modifyBucket :: "looker \<Rightarrow> nat \<Rightarrow> (subscribeBucket \<Rightarrow> subscribeBucket) \<Rightarrow> looker" where
  "modifyBucket me i f =
     me\<lparr>allTheSubscriptions := (allTheSubscriptions me)[i := f (allTheSubscriptions me ! i)]\<rparr>"

text \<open>A send on the channel \<open>incoming\<close>: \<open>Hang\<close> while it is full.\<close>

definition enqueue :: "looker \<Rightarrow> nat \<Rightarrow> message \<Rightarrow> looker \<times> unit outcome" where
  "enqueue me i msg =
     (if length (allTheSubscriptions me) \<le> i then (me, Panic)
      else if queueCapacity \<le> length (incoming (allTheSubscriptions me ! i)) then (me, Hang)
      else (modifyBucket me i (\<lambda>b. b\<lparr>incoming := incoming b @ [msg]\<rparr>), Ret ()))"

text \<open>The address made binary, its hash and the bucket it belongs to.\<close>

definition topicOf :: "looker \<Rightarrow> AddressUnion \<Rightarrow> (AddressUnion \<times> HashType \<times> nat) outcome" where
  "topicOf me a =
     (let a' = EnsureAddressIsBinary a in
      case InitFromBytes (addrBytes a') of
        None \<Rightarrow> Panic
      | Some h \<Rightarrow> Ret (a', h, GetFractionalBits h (theBucketsSizeLog2 me)))"

definition sendTo :: "looker \<Rightarrow> AddressUnion \<Rightarrow> (AddressUnion \<Rightarrow> HashType \<Rightarrow> message) \<Rightarrow> looker \<times> unit outcome" where
  "sendTo me a mk =
     (case topicOf me a of
        Ret (a', h, i) \<Rightarrow> enqueue me i (mk a' h)
      | Panic \<Rightarrow> (me, Panic)
      | Hang \<Rightarrow> (me, Hang))"

text \<open>When the queue of the bucket is full, \<open>sendSubscriptionMessage\<close> ranges over the channel to
  print what is in it: it takes every message out and goes on waiting for more.\<close>

definition sendSubscriptionMessage :: "looker \<Rightarrow> contact \<Rightarrow> AddressUnion \<Rightarrow> options \<Rightarrow> looker \<times> unit outcome" where
  "sendSubscriptionMessage me ss a opts =
     (case topicOf me a of
        Ret (a', h, i) \<Rightarrow>
          if length (allTheSubscriptions me) \<le> i then (me, Panic)
          else if queueCapacity \<le> length (incoming (allTheSubscriptions me ! i))
          then (modifyBucket me i (\<lambda>b. b\<lparr>incoming := []\<rparr>), Hang)
          else enqueue me i (SubscriptionMessage ss h a' opts)
      | Panic \<Rightarrow> (me, Panic)
      | Hang \<Rightarrow> (me, Hang))"

definition sendUnsubscribeMessage :: "looker \<Rightarrow> contact \<Rightarrow> AddressUnion \<Rightarrow> options \<Rightarrow> looker \<times> unit outcome" where
  "sendUnsubscribeMessage me ss a opts = sendTo me a (\<lambda>a' h. UnsubscribeMessage ss h a' opts)"

definition sendLookupMessage :: "looker \<Rightarrow> contact \<Rightarrow> AddressUnion \<Rightarrow> AddressUnion \<Rightarrow> options \<Rightarrow>
    looker \<times> unit outcome" where
  "sendLookupMessage me ss a src opts =
     sendTo me a (\<lambda>a' h. LookupMessage
       \<lparr>lookContact = ss, lookHash = h, lookAddress = a', lookSource = src, lookOptions = opts\<rparr>)"

definition sendPublishMessageDown :: "looker \<Rightarrow> AddressUnion \<Rightarrow> AddressUnion \<Rightarrow> bytes \<Rightarrow> options \<Rightarrow>
    looker \<times> unit outcome" where
  "sendPublishMessageDown me a src payload opts =
     sendTo me a (\<lambda>a' h. PublishMessageDown h a' src payload opts)"

definition sendSubscriptionMessageDown :: "looker \<Rightarrow> AddressUnion \<Rightarrow> options \<Rightarrow> looker \<times> unit outcome" where
  "sendSubscriptionMessageDown me a opts = sendTo me a (\<lambda>a' h. SubscriptionMessageDown h a' opts)"

definition sendPublishMessage :: "looker \<Rightarrow> contact \<Rightarrow> AddressUnion \<Rightarrow> AddressUnion \<Rightarrow> bytes \<Rightarrow> options \<Rightarrow>
    looker \<times> unit outcome" where
  "sendPublishMessage me ss a src payload opts =
     sendTo me a (\<lambda>a' h. PublishMessage ss h a' src payload opts)"

section \<open>Commands for every bucket\<close>

text \<open>A command is queued to one bucket after the other; a full queue stops the sender.\<close>

fun broadcastFrom :: "nat \<Rightarrow> nat \<Rightarrow> looker \<Rightarrow> callback \<Rightarrow> looker \<times> unit outcome" where
  "broadcastFrom i 0 me cb = (me, Ret ())"
| "broadcastFrom i (Suc n) me cb =
     (case enqueue me i (CallBackMessage cb) of
        (me', Ret u) \<Rightarrow> broadcastFrom (Suc i) n me' cb
      | (me', r) \<Rightarrow> (me', r))"

definition broadcast :: "looker \<Rightarrow> callback \<Rightarrow> looker \<times> unit outcome" where
  "broadcast me cb = broadcastFrom 0 (length (allTheSubscriptions me)) me cb"

definition Heartbeat :: "looker \<Rightarrow> u32 \<Rightarrow> looker \<times> unit outcome" where
  "Heartbeat me now = broadcast me (HeartBeatCallBack now)"

definition FlushMarkerAndWait :: "looker \<Rightarrow> looker \<times> unit outcome" where
  "FlushMarkerAndWait me = broadcast me FlushMarker"

record counting =
  count :: int
  totalCount :: int
  totalCapacity :: int
  qdepth :: int

definition countingRun :: "counting \<Rightarrow> subscribeBucket \<Rightarrow> counting" where
  "countingRun cb b =
     (let n = int (length (mySubscriptions b));
          bills = int (length (filter (\<lambda>(h, wt). IsBilling wt \<noteq> None) (mySubscriptions b)))
      in \<lparr>count = count cb + n - bills, totalCount = totalCount cb + n,
          totalCapacity = totalCapacity cb + int queueCapacity,
          qdepth = qdepth cb + int (length (incoming b))\<rparr>)"

definition GetAllSubsCount :: "looker \<Rightarrow> int \<times> f64" where
  "GetAllSubsCount me =
     (let cb = fold (\<lambda>b cb. countingRun cb b) (allTheSubscriptions me)
                 \<lparr>count = 0, totalCount = 0, totalCapacity = 0, qdepth = 0\<rparr>
      in (count cb, fdiv (f_int (qdepth cb)) (f_int (totalCapacity cb))))"

section \<open>Loops over the topics of a bucket\<close>

text \<open>The address of the topic with hash \<open>h\<close>.\<close>

definition keyAddress :: "HashType \<Rightarrow> AddressUnion" where
  "keyAddress h =
     \<lparr>addrType = BinaryAddress, addrBytes = GetBytes h (replicate HashTypeLen (CHR 0x00))\<rparr>"

type_synonym handled = "(topics \<times> effect list) outcome"

text \<open>One round per topic, the effects in order; a panic ends the loop.\<close>

fun rangeLoop :: "(HashType \<Rightarrow> 's \<Rightarrow> ('s \<times> effect list) outcome) \<Rightarrow> HashType list \<Rightarrow> 's \<Rightarrow>
    ('s \<times> effect list) outcome" where
  "rangeLoop f [] s = Ret (s, [])"
| "rangeLoop f (h # hs) s =
     bind_out (f h s) (\<lambda>(s1, e1). bind_out (rangeLoop f hs s1) (\<lambda>(s2, e2). Ret (s2, e1 @ e2)))"

definition lookupIn :: "env \<Rightarrow> maglev option \<Rightarrow> HashType \<Rightarrow> nat outcome" where
  "lookupIn e m h = (case m of None \<Rightarrow> Panic | Some t \<Rightarrow> Ret (maglevLookup e t (GetUint64 h)))"

definition guruDeleteRemappedAndGoneTopics :: "looker \<Rightarrow> env \<Rightarrow> int \<Rightarrow> topics \<Rightarrow> handled" where
  "guruDeleteRemappedAndGoneTopics me e myindex s =
     rangeLoop (\<lambda>h s. bind_out (lookupIn e (maglevTable (router me)) h) (\<lambda>index.
        if int index \<noteq> myindex
        then bind_out (pushUp me e (Unsubscribe (keyAddress h) []) h) (\<lambda>effs. Ret (om_remove h s, effs))
        else Ret (s, [])))
       (rangeTopics e s) s"

definition reSubscribeRemappedTopics :: "looker \<Rightarrow> env \<Rightarrow> topics \<Rightarrow> handled" where
  "reSubscribeRemappedTopics me e s =
     rangeLoop (\<lambda>h s. bind_out (lookupIn e (maglevTable (router me)) h) (\<lambda>indexNew.
        let indexOld = (case previousMaglev (router me) of
                          None \<Rightarrow> -1 | Some t \<Rightarrow> int (maglevLookup e t (GetUint64 h)))
        in if int indexNew \<noteq> indexOld
           then bind_out (pushUp me e (Subscribe (keyAddress h) []) h) (\<lambda>effs. Ret (s, effs))
           else Ret (s, [])))
       (rangeTopics e s) s"

definition reSubscribeMyTopics :: "looker \<Rightarrow> env \<Rightarrow> int \<Rightarrow> topics \<Rightarrow> handled" where
  "reSubscribeMyTopics me e index s =
     (case maglevTable (router me) of
        None \<Rightarrow> Ret (s, [])
      | Some m \<Rightarrow>
          rangeLoop (\<lambda>h s.
            if int (maglevLookup e m (GetUint64 h)) \<noteq> index then Ret (s, [])
            else bind_out (pushUp me e (Subscribe (keyAddress h) (SetOption ''noack'' ''y'' [])) h)
                   (\<lambda>effs. Ret (s, effs)))
          (rangeTopics e s) s)"

section \<open>The table's invariant\<close>

text \<open>A topic stored under \<open>h\<close> bears the name \<open>h\<close>, and its watchers are filed under their keys.\<close>

definition topic_ok :: "HashType \<Rightarrow> WatchedTopic \<Rightarrow> bool" where
  "topic_ok h wt \<longleftrightarrow> Name wt = h \<and> om_ok (thetree wt)
     \<and> (\<forall>(k, item) \<in> set (thetree wt). contactInterface item = k)
     \<and> (case OptionalKeyValues wt of None \<Rightarrow> True | Some t \<Rightarrow> om_ok t)"

definition table_ok :: "(HashType \<Rightarrow> bool) \<Rightarrow> topics \<Rightarrow> bool" where
  "table_ok P s \<longleftrightarrow> om_ok s \<and> (\<forall>h wt. getWatcher s h = Some wt \<longrightarrow> P h \<and> topic_ok h wt)"

lemma getWatcher_set [opt_simps]:
  "om_ok s \<Longrightarrow> getWatcher (setWatcher s h w) k = (if k = h then w else getWatcher s k)"
  by (cases w) (simp_all add: getWatcher_def setWatcher_def om_put_get om_remove_get)

lemma setWatcher_ok [opt_simps]: "om_ok s \<Longrightarrow> om_ok (setWatcher s h w)"
  by (cases w) (simp_all add: setWatcher_def om_put_ok om_remove_ok)

lemma table_ok_set:
  "table_ok P s \<Longrightarrow> P h \<Longrightarrow> (\<And>wt. w = Some wt \<Longrightarrow> topic_ok h wt) \<Longrightarrow> table_ok P (setWatcher s h w)"
  by (auto simp: table_ok_def getWatcher_set setWatcher_ok split: if_splits)

lemma table_ok_get: "table_ok P s \<Longrightarrow> getWatcher s h = Some wt \<Longrightarrow> topic_ok h wt \<and> P h"
  by (simp add: table_ok_def)

lemma table_ok_Nil [simp]: "table_ok P []"
  by (simp add: table_ok_def getWatcher_def)

lemma table_eqI: "om_ok s \<Longrightarrow> om_ok t \<Longrightarrow> (\<And>k. getWatcher s k = getWatcher t k) \<Longrightarrow> s = t"
  by (rule om_eqI) (simp_all add: getWatcher_def)

lemma emptyTopic_ok: "topic_ok h (emptyTopic\<lparr>Name := h\<rparr>)"
  by (simp add: topic_ok_def emptyTopic_def)

lemma wtGet_put [opt_simps]: "wtGet (wtPut wt k i) k' = (if k' = k then Some i else wtGet wt k')"
  by (simp add: wtGet_def wtPut_def om_put_get)

lemma wtGet_remove [opt_simps]:
  "om_ok (thetree wt) \<Longrightarrow> wtGet (wtRemove wt k) k' = (if k' = k then None else wtGet wt k')"
  by (simp add: wtGet_def wtRemove_def om_remove_get)

lemma wtPut_ok: "topic_ok h wt \<Longrightarrow> contactInterface i = k \<Longrightarrow> topic_ok h (wtPut wt k i)"
proof -
  have "set (om_put k i m) \<subseteq> insert (k, i) (set m)" for m
    by (induction k i m rule: om_put.induct) auto
  then show "topic_ok h wt \<Longrightarrow> contactInterface i = k \<Longrightarrow> topic_ok h (wtPut wt k i)"
    by (fastforce simp: topic_ok_def wtPut_def om_put_ok)
qed

lemma wtRemove_ok: "topic_ok h wt \<Longrightarrow> topic_ok h (wtRemove wt k)"
  using om_remove_subset [of k "thetree wt"]
  by (fastforce simp: topic_ok_def wtRemove_def om_remove_ok)

lemma wtSetOption_ok: "topic_ok h wt \<Longrightarrow> topic_ok h (wtSetOption wt k v)"
  by (auto simp: topic_ok_def wtSetOption_def om_put_ok om_ok_Cons split: option.splits)

lemma wtReplaceOptions_ok: "topic_ok h wt \<Longrightarrow> topic_ok h (wtReplaceOptions wt m)"
  by (simp add: topic_ok_def wtReplaceOptions_def om_build_ok)

section \<open>Handlers of a message about one topic\<close>

text \<open>What the table relies on when it runs a handler for the topic \<open>h\<close>: other topics stay, the
  invariant is kept, and the result depends on nothing but that topic.\<close>

locale topic_handler =
  fixes run :: "topics \<Rightarrow> handled" and h :: HashType
  assumes frame: "run s = Ret (s', effs) \<Longrightarrow> om_ok s \<Longrightarrow> k \<noteq> h \<Longrightarrow> getWatcher s' k = getWatcher s k"
    and keeps_ok: "run s = Ret (s', effs) \<Longrightarrow> om_ok s \<Longrightarrow> om_ok s'"
    and keeps_topic: "run s = Ret (s', effs) \<Longrightarrow> om_ok s \<Longrightarrow> getWatcher s' h = Some wt' \<Longrightarrow>
      (\<And>wt. getWatcher s h = Some wt \<Longrightarrow> topic_ok h wt) \<Longrightarrow> topic_ok h wt'"
    and local: "run s = Ret (s', effs) \<Longrightarrow> om_ok s \<Longrightarrow> om_ok t \<Longrightarrow> getWatcher t h = getWatcher s h \<Longrightarrow>
      \<exists>t'. run t = Ret (t', effs) \<and> getWatcher t' h = getWatcher s' h"
begin

lemma keeps_table:
  assumes "run s = Ret (s', effs)" "table_ok P s" "P h"
  shows "table_ok P s'"
proof -
  have o: "om_ok s" using assms(2) by (simp add: table_ok_def)
  have "P k \<and> topic_ok k wt" if g: "getWatcher s' k = Some wt" for k wt
  proof (cases "k = h")
    case True
    then show ?thesis
      using keeps_topic [OF assms(1) o] g assms(2,3) by (auto simp: table_ok_def)
  next
    case False
    then have "getWatcher s k = Some wt" using frame [OF assms(1) o False] g by simp
    then show ?thesis using assms(2) by (simp add: table_ok_def)
  qed
  then show ?thesis using keeps_ok [OF assms(1) o] by (simp add: table_ok_def)
qed

end

text \<open>A handler that replaces one topic by a function of it satisfies the contract.\<close>

definition topic_step :: "HashType \<Rightarrow> (WatchedTopic option \<Rightarrow> (WatchedTopic option \<times> effect list) outcome) \<Rightarrow>
    topics \<Rightarrow> handled" where
  "topic_step h f s = bind_out (f (getWatcher s h)) (\<lambda>(w, effs). Ret (setWatcher s h w, effs))"

lemma set_same: "om_ok s \<Longrightarrow> getWatcher s h = w \<Longrightarrow> setWatcher s h w = s"
  by (rule table_eqI) (auto simp: getWatcher_set setWatcher_ok)

lemma topic_handlerI:
  assumes step: "\<And>s. om_ok s \<Longrightarrow> run s = topic_step h f s"
    and ok: "\<And>w wt' effs. f w = Ret (Some wt', effs) \<Longrightarrow> (\<And>wt. w = Some wt \<Longrightarrow> topic_ok h wt) \<Longrightarrow>
      topic_ok h wt'"
  shows "topic_handler run h"
proof
  fix s s' effs k
  assume "run s = Ret (s', effs)" "om_ok s"
  then obtain w where w: "f (getWatcher s h) = Ret (w, effs)" "s' = setWatcher s h w"
    using step by (auto simp: topic_step_def bind_out_Ret)
  show "k \<noteq> h \<Longrightarrow> getWatcher s' k = getWatcher s k" using w \<open>om_ok s\<close> by (simp add: getWatcher_set)
  show "om_ok s'" using w \<open>om_ok s\<close> by (simp add: setWatcher_ok)
  show "topic_ok h wt'" if "getWatcher s' h = Some wt'" "\<And>wt. getWatcher s h = Some wt \<Longrightarrow> topic_ok h wt" for wt'
    using ok [of "getWatcher s h" wt' effs] w that \<open>om_ok s\<close> by (simp add: getWatcher_set)
  show "\<exists>t'. run t = Ret (t', effs) \<and> getWatcher t' h = getWatcher s' h"
    if "om_ok t" "getWatcher t h = getWatcher s h" for t
    using step [OF that(1)] that w \<open>om_ok s\<close> by (simp add: topic_step_def getWatcher_set)
qed

text \<open>Handlers made of smaller ones: what depends on one topic only, and what keeps it sound.\<close>

definition local_run :: "HashType \<Rightarrow> (topics \<Rightarrow> handled) \<Rightarrow> bool" where
  "local_run h run \<longleftrightarrow> (\<exists>f. \<forall>s. om_ok s \<longrightarrow> run s = topic_step h f s)"

definition safe_run :: "HashType \<Rightarrow> (topics \<Rightarrow> handled) \<Rightarrow> bool" where
  "safe_run h run \<longleftrightarrow> (\<forall>s s' effs wt'. om_ok s \<longrightarrow> run s = Ret (s', effs) \<longrightarrow>
     (\<forall>wt. getWatcher s h = Some wt \<longrightarrow> topic_ok h wt) \<longrightarrow> getWatcher s' h = Some wt' \<longrightarrow> topic_ok h wt')"

lemma local_ret: "local_run h (\<lambda>s. Ret (s, effs))"
  unfolding local_run_def by (rule exI [of _ "\<lambda>w. Ret (w, effs)"]) (simp add: topic_step_def set_same)

lemma local_set: "local_run h (\<lambda>s. Ret (setWatcher s h w, effs))"
  unfolding local_run_def by (rule exI [of _ "\<lambda>_. Ret (w, effs)"]) (simp add: topic_step_def)

lemma local_stop: "local_run h (\<lambda>s. Panic)" "local_run h (\<lambda>s. Hang)"
  unfolding local_run_def
  by (rule exI [of _ "\<lambda>_. Panic"] exI [of _ "\<lambda>_. Hang"], simp add: topic_step_def)+

lemma local_bind:
  assumes "\<And>x. local_run h (R x)"
  shows "local_run h (\<lambda>s. bind_out c (\<lambda>x. R x s))"
proof (cases c)
  case (Ret a)
  then show ?thesis using assms by simp
qed (simp_all add: local_stop)

lemma local_case:
  assumes "local_run h A" "\<And>wt. local_run h (B wt)"
  shows "local_run h (\<lambda>s. case getWatcher s h of None \<Rightarrow> A s | Some wt \<Rightarrow> B wt s)"
proof -
  obtain fA where a: "\<And>s. om_ok s \<Longrightarrow> A s = topic_step h fA s" using assms(1) by (auto simp: local_run_def)
  obtain fB where b: "\<And>wt s. om_ok s \<Longrightarrow> B wt s = topic_step h (fB wt) s"
    using assms(2) unfolding local_run_def by metis
  show ?thesis
    unfolding local_run_def
    by (rule exI [of _ "\<lambda>w. case w of None \<Rightarrow> fA w | Some wt \<Rightarrow> fB wt w"])
       (auto simp: a b topic_step_def split: option.split)
qed

lemma safe_ret: "safe_run h (\<lambda>s. Ret (s, effs))"
  by (simp add: safe_run_def)

lemma safe_set: "(\<And>wt. w = Some wt \<Longrightarrow> topic_ok h wt) \<Longrightarrow> safe_run h (\<lambda>s. Ret (setWatcher s h w, effs))"
  by (auto simp: safe_run_def getWatcher_set)

lemma safe_stop: "safe_run h (\<lambda>s. Panic)" "safe_run h (\<lambda>s. Hang)"
  by (simp_all add: safe_run_def)

lemma safe_bind: "(\<And>x. safe_run h (R x)) \<Longrightarrow> safe_run h (\<lambda>s. bind_out c (\<lambda>x. R x s))"
  by (cases c) (simp_all add: safe_stop)

lemma safe_case:
  assumes "safe_run h A" "\<And>wt. topic_ok h wt \<Longrightarrow> safe_run h (B wt)"
  shows "safe_run h (\<lambda>s. case getWatcher s h of None \<Rightarrow> A s | Some wt \<Rightarrow> B wt s)"
  unfolding safe_run_def
proof (intro allI impI)
  fix s s' effs wt'
  assume r: "om_ok s" "(case getWatcher s h of None \<Rightarrow> A s | Some wt \<Rightarrow> B wt s) = Ret (s', effs)"
    "\<forall>wt. getWatcher s h = Some wt \<longrightarrow> topic_ok h wt" "getWatcher s' h = Some wt'"
  show "topic_ok h wt'"
  proof (cases "getWatcher s h")
    case None
    then show ?thesis using assms(1) r unfolding safe_run_def by auto
  next
    case (Some wt)
    then have "safe_run h (B wt)" using assms(2) r(3) by blast
    then show ?thesis using Some r unfolding safe_run_def by auto
  qed
qed

lemma handler_of_runs: "local_run h run \<Longrightarrow> safe_run h run \<Longrightarrow> topic_handler run h"
proof -
  assume l: "local_run h run" and s: "safe_run h run"
  obtain f where f: "\<And>s. om_ok s \<Longrightarrow> run s = topic_step h f s" using l by (auto simp: local_run_def)
  show ?thesis
  proof
    fix s s' effs k
    assume r: "run s = Ret (s', effs)" "om_ok s"
    then obtain w where w: "f (getWatcher s h) = Ret (w, effs)" "s' = setWatcher s h w"
      using f by (auto simp: topic_step_def bind_out_Ret)
    show "k \<noteq> h \<Longrightarrow> getWatcher s' k = getWatcher s k" using w r(2) by (simp add: getWatcher_set)
    show "om_ok s'" using w r(2) by (simp add: setWatcher_ok)
    show "topic_ok h wt'" if "getWatcher s' h = Some wt'" "\<And>wt. getWatcher s h = Some wt \<Longrightarrow> topic_ok h wt" for wt'
      using s r that unfolding safe_run_def by blast
    show "\<exists>t'. run t = Ret (t', effs) \<and> getWatcher t' h = getWatcher s' h"
      if "om_ok t" "getWatcher t h = getWatcher s h" for t
      using f [OF that(1)] that w r(2) by (simp add: topic_step_def getWatcher_set)
  qed
qed

text \<open>A branch on what does not depend on the topics.\<close>

lemma local_if: "local_run h A \<Longrightarrow> local_run h B \<Longrightarrow> local_run h (\<lambda>s. if c then A s else B s)"
  by (cases c) simp_all

lemma local_option:
  "local_run h A \<Longrightarrow> (\<And>x. local_run h (B x)) \<Longrightarrow> local_run h (\<lambda>s. case c of None \<Rightarrow> A s | Some x \<Rightarrow> B x s)"
  by (cases c) simp_all

lemma local_sum:
  "(\<And>x. local_run h (A x)) \<Longrightarrow> (\<And>x. local_run h (B x)) \<Longrightarrow>
    local_run h (\<lambda>s. case c of Inl x \<Rightarrow> A x s | Inr x \<Rightarrow> B x s)"
  by (cases c) simp_all

lemma local_prod: "(\<And>x y. local_run h (A x y)) \<Longrightarrow> local_run h (\<lambda>s. case c of (x, y) \<Rightarrow> A x y s)"
  by (cases c) simp_all

lemma local_list:
  "local_run h A \<Longrightarrow> (\<And>x xs. local_run h (B x xs)) \<Longrightarrow> local_run h (\<lambda>s. case c of [] \<Rightarrow> A s | x # xs \<Rightarrow> B x xs s)"
  by (cases c) simp_all

lemma safe_if: "(c \<Longrightarrow> safe_run h A) \<Longrightarrow> (\<not> c \<Longrightarrow> safe_run h B) \<Longrightarrow> safe_run h (\<lambda>s. if c then A s else B s)"
  by (cases c) simp_all

lemma safe_option:
  "safe_run h A \<Longrightarrow> (\<And>x. safe_run h (B x)) \<Longrightarrow> safe_run h (\<lambda>s. case c of None \<Rightarrow> A s | Some x \<Rightarrow> B x s)"
  by (cases c) simp_all

lemma safe_sum:
  "(\<And>x. safe_run h (A x)) \<Longrightarrow> (\<And>x. safe_run h (B x)) \<Longrightarrow>
    safe_run h (\<lambda>s. case c of Inl x \<Rightarrow> A x s | Inr x \<Rightarrow> B x s)"
  by (cases c) simp_all

lemma safe_prod: "(\<And>x y. safe_run h (A x y)) \<Longrightarrow> safe_run h (\<lambda>s. case c of (x, y) \<Rightarrow> A x y s)"
  by (cases c) simp_all

lemma safe_list:
  "safe_run h A \<Longrightarrow> (\<And>x xs. safe_run h (B x xs)) \<Longrightarrow> safe_run h (\<lambda>s. case c of [] \<Rightarrow> A s | x # xs \<Rightarrow> B x xs s)"
  by (cases c) simp_all

text \<open>A handler run after the topic was set.\<close>

lemma local_after: "local_run h R \<Longrightarrow> local_run h (\<lambda>s. R (setWatcher s h w))"
proof -
  assume "local_run h R"
  then obtain f where f: "\<And>s. om_ok s \<Longrightarrow> R s = topic_step h f s" by (auto simp: local_run_def)
  have "setWatcher (setWatcher s h w) h v = setWatcher s h v" if "om_ok s" for s v
    using that by (intro table_eqI) (simp_all add: setWatcher_ok getWatcher_set)
  then have "om_ok s \<Longrightarrow> R (setWatcher s h w) = topic_step h (\<lambda>_. f w) s" for s
    by (simp add: f setWatcher_ok topic_step_def getWatcher_set)
  then show ?thesis unfolding local_run_def by blast
qed

lemma safe_after:
  assumes "safe_run h R" "\<And>wt. w = Some wt \<Longrightarrow> topic_ok h wt"
  shows "safe_run h (\<lambda>s. R (setWatcher s h w))"
  unfolding safe_run_def
proof (intro allI impI)
  fix s s' effs wt'
  assume "om_ok s" "R (setWatcher s h w) = Ret (s', effs)" "getWatcher s' h = Some wt'"
  then show "topic_ok h wt'"
    using assms(1) [unfolded safe_run_def, rule_format, of "setWatcher s h w" s' effs wt'] assms(2)
    by (simp add: setWatcher_ok getWatcher_set)
qed

text \<open>What a handler does when the topic satisfies \<open>Q\<close>: \<open>R\<close> relates the topics before and after and
  the effects.\<close>

definition run_post :: "HashType \<Rightarrow> (WatchedTopic option \<Rightarrow> bool) \<Rightarrow>
    (topics \<Rightarrow> topics \<Rightarrow> effect list \<Rightarrow> bool) \<Rightarrow> (topics \<Rightarrow> handled) \<Rightarrow> bool" where
  "run_post h Q R run \<longleftrightarrow> (\<forall>s s' effs. om_ok s \<longrightarrow> Q (getWatcher s h) \<longrightarrow> run s = Ret (s', effs) \<longrightarrow> R s s' effs)"

lemma run_postD:
  "run_post h Q R run \<Longrightarrow> om_ok s \<Longrightarrow> Q (getWatcher s h) \<Longrightarrow> run s = Ret (s', effs) \<Longrightarrow> R s s' effs"
  by (simp add: run_post_def)

lemma post_ret: "(\<And>s. R s s effs) \<Longrightarrow> run_post h Q R (\<lambda>s. Ret (s, effs))"
  by (simp add: run_post_def)

lemma post_set: "(\<And>s. om_ok s \<Longrightarrow> R s (setWatcher s h w) effs) \<Longrightarrow> run_post h Q R (\<lambda>s. Ret (setWatcher s h w, effs))"
  by (simp add: run_post_def)

lemma post_stop: "run_post h Q R (\<lambda>s. Panic)" "run_post h Q R (\<lambda>s. Hang)"
  by (simp_all add: run_post_def)

lemma post_bind: "(\<And>x. c = Ret x \<Longrightarrow> run_post h Q R (B x)) \<Longrightarrow> run_post h Q R (\<lambda>s. bind_out c (\<lambda>x. B x s))"
  by (cases c) (simp_all add: post_stop)

lemma post_if:
  "(c \<Longrightarrow> run_post h Q R A) \<Longrightarrow> (\<not> c \<Longrightarrow> run_post h Q R B) \<Longrightarrow> run_post h Q R (\<lambda>s. if c then A s else B s)"
  by (cases c) simp_all

lemma post_case:
  assumes "Q None \<Longrightarrow> run_post h Q R A" "\<And>wt. Q (Some wt) \<Longrightarrow> run_post h Q R (B wt)"
  shows "run_post h Q R (\<lambda>s. case getWatcher s h of None \<Rightarrow> A s | Some wt \<Rightarrow> B wt s)"
  unfolding run_post_def
proof (intro allI impI)
  fix s s' effs
  assume r: "om_ok s" "Q (getWatcher s h)"
    "(case getWatcher s h of None \<Rightarrow> A s | Some wt \<Rightarrow> B wt s) = Ret (s', effs)"
  show "R s s' effs"
  proof (cases "getWatcher s h")
    case None
    then show ?thesis using run_postD [OF assms(1) r(1)] r(2,3) by simp
  next
    case (Some wt)
    then show ?thesis using run_postD [OF assms(2) r(1)] r(2,3) by auto
  qed
qed

lemma post_option:
  "(c = None \<Longrightarrow> run_post h Q R A) \<Longrightarrow> (\<And>x. c = Some x \<Longrightarrow> run_post h Q R (B x)) \<Longrightarrow>
    run_post h Q R (\<lambda>s. case c of None \<Rightarrow> A s | Some x \<Rightarrow> B x s)"
  by (cases c) simp_all

lemma post_sum:
  "(\<And>x. c = Inl x \<Longrightarrow> run_post h Q R (A x)) \<Longrightarrow> (\<And>x. c = Inr x \<Longrightarrow> run_post h Q R (B x)) \<Longrightarrow>
    run_post h Q R (\<lambda>s. case c of Inl x \<Rightarrow> A x s | Inr x \<Rightarrow> B x s)"
  by (cases c) simp_all

lemma post_prod:
  "(\<And>x y. c = (x, y) \<Longrightarrow> run_post h Q R (A x y)) \<Longrightarrow> run_post h Q R (\<lambda>s. case c of (x, y) \<Rightarrow> A x y s)"
  by (cases c) simp_all

lemma post_list:
  "(c = [] \<Longrightarrow> run_post h Q R A) \<Longrightarrow> (\<And>x xs. c = x # xs \<Longrightarrow> run_post h Q R (B x xs)) \<Longrightarrow>
    run_post h Q R (\<lambda>s. case c of [] \<Rightarrow> A s | x # xs \<Rightarrow> B x xs s)"
  by (cases c) simp_all

lemmas post_intros = post_ret post_set post_stop post_bind post_if post_case post_option post_sum
  post_prod post_list

lemmas local_intros = local_ret local_set local_stop local_bind local_if local_case local_option local_sum
  local_prod local_list
lemmas safe_intros = safe_ret safe_set safe_stop safe_bind safe_if safe_case safe_option safe_sum
  safe_prod safe_list

locale two_handlers = a: topic_handler run1 h1 + b: topic_handler run2 h2
  for run1 h1 run2 h2
begin

text \<open>Messages about different topics can be handled in either order.\<close>

lemma commute:
  assumes "om_ok s" "run1 s = Ret (s1, e1)" "run2 s1 = Ret (s12, e2)" and distinct_topics: "h1 \<noteq> h2"
  shows "\<exists>s2. run2 s = Ret (s2, e2) \<and> run1 s2 = Ret (s12, e1)"
proof -
  have o1: "om_ok s1" using a.keeps_ok [OF assms(2,1)] .
  have o12: "om_ok s12" using b.keeps_ok [OF assms(3) o1] .
  have "getWatcher s h2 = getWatcher s1 h2"
    using a.frame [OF assms(2,1)] distinct_topics by metis
  then obtain s2 where s2: "run2 s = Ret (s2, e2)" "getWatcher s2 h2 = getWatcher s12 h2"
    using b.local [OF assms(3) o1 assms(1)] by auto
  have o2: "om_ok s2" using b.keeps_ok [OF s2(1) assms(1)] .
  have "getWatcher s2 h1 = getWatcher s h1"
    using b.frame [OF s2(1) assms(1) distinct_topics] .
  then obtain t where t: "run1 s2 = Ret (t, e1)" "getWatcher t h1 = getWatcher s1 h1"
    using a.local [OF assms(2,1) o2] by auto
  have "t = s12"
  proof (rule table_eqI [OF a.keeps_ok [OF t(1) o2] o12])
    fix k
    show "getWatcher t k = getWatcher s12 k"
      using t s2 a.frame [OF t(1) o2, of k] b.frame [OF s2(1) assms(1), of k]
        a.frame [OF assms(2,1), of k] b.frame [OF assms(3) o1, of k] distinct_topics
      by (cases "k = h1"; cases "k = h2") auto
  qed
  then show ?thesis using s2(1) t(1) by auto
qed

end

section \<open>Pushing up never fails on a sound router\<close>

text \<open>The router of a table: as many channels as names, all of them open, and a maglev that maps
  into the names it was made from.\<close>

definition maglev_sound :: "env \<Rightarrow> bool" where
  "maglev_sound e \<longleftrightarrow> (\<forall>names n k. names \<noteq> [] \<longrightarrow> maglevLookup e (names, n) k < length names)"

definition router_ok :: "upstreamRouter \<Rightarrow> bool" where
  "router_ok r \<longleftrightarrow>
     (\<forall>c \<in> set (channels r). \<exists>upc. c = Some upc \<and> upUp upc = OpenChan)
     \<and> (channels r \<noteq> [] \<longrightarrow> (\<forall>names n. maglevTable r = Some (names, n) \<longrightarrow> length names = length (channels r)))"

lemma pushUp_total:
  assumes "router_ok (router me)" "maglev_sound e"
  shows "\<exists>effs. pushUp me e p h = Ret effs \<and> length effs \<le> 1
    \<and> (\<forall>x \<in> set effs. \<exists>i. x = Up i p \<and> i < length (channels (router me)))"
proof (cases "maglevTable (router me)")
  case None
  then show ?thesis by (simp add: pushUp_def PushUp_def)
next
  case (Some m)
  obtain names n where m: "m = (names, n)" by (cases m)
  show ?thesis
  proof (cases "channels (router me) = []")
    case True
    then show ?thesis using Some by (simp add: pushUp_def PushUp_def)
  next
    case False
    have l: "length names = length (channels (router me))"
      using assms(1) Some False m by (simp add: router_ok_def)
    define i where "i = maglevLookup e m (GetUint64 h)"
    have i: "i < length (channels (router me))"
      using assms(2) False l m by (simp add: maglev_sound_def i_def) (metis l length_greater_0_conv)
    obtain upc where "channels (router me) ! i = Some upc" "upUp upc = OpenChan"
      using assms(1) nth_mem [OF i] by (auto simp: router_ok_def)
    then show ?thesis
      using Some False i
      by (simp add: pushUp_def PushUp_def getUpperChannel_def i_def [symmetric] Let_def)
  qed
qed

end
