(* ===== verification/Subscribe.thy ===== *)
theory Subscribe
  imports LookupTable
begin

text \<open>
  Subscriptions (\<open>iot/subscribe.go\<close>): \<open>processSubscribe\<close>, \<open>processSubscribeDown\<close>,
  \<open>processUnsubscribe\<close> and \<open>heartBeatCallBack\<close>. Each takes the topics of its bucket and returns
  them with the effects. The block of \<open>processSubscribe\<close> guarded by \<open>false &&\<close> is never entered and
  left out; \<open>getTime\<close> is read once per handler. The goroutine of \<open>heartBeatCallBack\<close> that reports a
  billing error reads the loop variables \<open>h\<close> and \<open>watchedItem\<close> when it runs (\<open>go.mod\<close> asks for
  the semantics of Go 1.20, one variable for all rounds).
\<close>

section \<open>processSubscribe\<close>

definition newTopic :: "env \<Rightarrow> HashType \<Rightarrow> options \<Rightarrow> WatchedTopic" where
  "newTopic e h opts =
     (let (t, _) = GetOption opts ''jwtid'' in
      emptyTopic\<lparr>Name := h, Expires := 20 * 60 + timeNow e,
        Jwtid := (if t \<noteq> [] then t else []),
        nextBillingTime := timeNow e + 30, lastBillingTime := timeNow e\<rparr>)"

definition addBilling :: "env \<Rightarrow> HashType \<Rightarrow> bytes \<Rightarrow> WatchedTopic \<Rightarrow> WatchedTopic" where
  "addBilling e h val wt =
     (let wt' = (if IsBilling wt \<noteq> None then wt
                 else case parseStats e val of
                        None \<Rightarrow> wt
                      | Some st \<Rightarrow>
                          wt\<lparr>Bill := Some (newAccumulator (BucketCopy st zero_stats) (take 4 (ToBase64 h)))\<rparr>)
      in wt'\<lparr>Expires := 60 * 60 + timeNow e\<rparr>)"

definition addWatcher :: "contact \<Rightarrow> watcherItem \<Rightarrow> WatchedTopic \<Rightarrow> WatchedTopic" where
  "addWatcher key wi wt = (case wtGet wt key of Some found \<Rightarrow> wt | None \<Rightarrow> wtPut wt key wi)"

definition subscribeTopic :: "env \<Rightarrow> contact \<Rightarrow> HashType \<Rightarrow> options \<Rightarrow> WatchedTopic \<Rightarrow> WatchedTopic" where
  "subscribeTopic e ss h opts wt =
     (let (opt, p2s) = GetOption opts ''pub2self'';
          wi = \<lparr>contactInterface = ss, pub2self = p2s\<rparr>;
          (val, ok) = GetOption opts ''statsmax'';
          wt1 = (if ok then addBilling e h val wt else wt);
          wt2 = wt1\<lparr>Expires := 26 * 60 + timeNow e\<rparr>
      in addWatcher ss wi wt2)"

definition subscribeAck :: "looker \<Rightarrow> contact \<Rightarrow> AddressUnion \<Rightarrow> options \<Rightarrow> effect list" where
  "subscribeAck me ss addr opts =
     (if isGuru me
      then (if snd (GetOption opts ''noack'') then [] else [Down ss (Subscribe addr opts)])
      else (if channels (router me) = [] then [Down ss (Subscribe addr opts)] else []))"

definition processSubscribe :: "looker \<Rightarrow> env \<Rightarrow> contact \<Rightarrow> HashType \<Rightarrow> AddressUnion \<Rightarrow> options \<Rightarrow>
    topics \<Rightarrow> handled" where
  "processSubscribe me e ss h addr opts s =
     (let wt = (case getWatcher s h of Some w \<Rightarrow> w | None \<Rightarrow> newTopic e h opts);
          s' = setWatcher s h (Some (subscribeTopic e ss h opts wt));
          ack = subscribeAck me ss addr opts
      in if isGuru me then Ret (s', ack)
         else bind_out (pushUp me e (Subscribe addr opts) h) (\<lambda>effs. Ret (s', ack @ effs)))"

section \<open>processSubscribeDown\<close>

definition downToWatchers :: "env \<Rightarrow> packet \<Rightarrow> WatchedTopic \<Rightarrow> effect list" where
  "downToWatchers e p wt =
     concat (map (\<lambda>(key, item). if checkForBadContact e (contactInterface item) then []
                                else [Down (contactInterface item) p]) (wtItems wt))"

definition processSubscribeDown :: "looker \<Rightarrow> env \<Rightarrow> HashType \<Rightarrow> AddressUnion \<Rightarrow> options \<Rightarrow> topics \<Rightarrow> handled" where
  "processSubscribeDown me e h addr opts s =
     (case getWatcher s h of
        None \<Rightarrow> Ret (s, [])
      | Some wt \<Rightarrow> Ret (s, downToWatchers e (Subscribe addr opts) wt))"

section \<open>processUnsubscribe\<close>

definition processUnsubscribe :: "looker \<Rightarrow> env \<Rightarrow> contact \<Rightarrow> HashType \<Rightarrow> AddressUnion \<Rightarrow> options \<Rightarrow>
    topics \<Rightarrow> handled" where
  "processUnsubscribe me e ss h addr opts s =
     (case getWatcher s h of
        None \<Rightarrow> Ret (s, [])
      | Some wt \<Rightarrow>
          let wt' = wtRemove wt ss;
              up = (if isGuru me then Ret [] else pushUp me e (Unsubscribe addr opts) h)
          in if Owner wt \<noteq> [] then bind_out up (\<lambda>effs. Ret (setWatcher s h (Some wt'), effs))
             else if wtSize wt' = 0 \<and> IsBilling wt' = None
             then bind_out up (\<lambda>effs. Ret (setWatcher s h None, effs))
             else Ret (setWatcher s h (Some wt'), []))"

section \<open>heartBeatCallBack\<close>

text \<open>The contacts to drop from a topic: all of them once it has expired, else the closed ones.\<close>

definition unsubsNeeded :: "env \<Rightarrow> u32 \<Rightarrow> WatchedTopic \<Rightarrow> contact list" where
  "unsubsNeeded e now wt =
     map (\<lambda>(key, item). contactInterface item)
       (filter (\<lambda>(key, item). Expires wt < now \<or> isClosed e (contactInterface item)) (wtItems wt))"

definition dropContacts :: "contact list \<Rightarrow> WatchedTopic \<Rightarrow> WatchedTopic" where
  "dropContacts cs wt = fold (\<lambda>c w. wtRemove w c) cs wt"

text \<open>The billing goroutine: it has the accumulator of its own round and sees \<open>h\<close> and
  \<open>watchedItem\<close> as they are when it runs.\<close>

definition billingError :: "HashType \<Rightarrow> string \<Rightarrow> packet" where
  "billingError h msg =
     Send (keyAddress h) (FromString ''ping'') msg (SetOption ''error'' msg [])"

definition billingCheck :: "env \<Rightarrow> BillingAccumulator \<Rightarrow> HashType \<Rightarrow> WatchedTopic \<Rightarrow> effect list" where
  "billingCheck e ba h watchedItem =
     (let (good, msg) = AreUnderMax (showFloat e) ba (timeNow e) in
      if good then [] else downToWatchers e (billingError h msg) watchedItem)"

definition reportUsage :: "u32 \<Rightarrow> WatchedTopic \<Rightarrow> BillingAccumulator \<Rightarrow> WatchedTopic \<times> BillingAccumulator" where
  "reportUsage now wt bill =
     (let deltaTime = nextBillingTime wt - lastBillingTime wt;
          wt' = wt\<lparr>lastBillingTime := nextBillingTime wt, nextBillingTime := nextBillingTime wt + 60\<rparr>;
          st = zero_stats\<lparr>Subscriptions := f_int (uint deltaTime)\<rparr>
      in (wt', case AddUsage bill st now (uint deltaTime) of Ret b \<Rightarrow> b | _ \<Rightarrow> bill))"

definition reportIfDue :: "looker \<Rightarrow> u32 \<Rightarrow> WatchedTopic \<Rightarrow> BillingAccumulator \<Rightarrow> WatchedTopic \<times> BillingAccumulator" where
  "reportIfDue me now wt bill =
     (if Jwtid wt \<noteq> [] \<and> channels (router me) = [] \<and> nextBillingTime wt < now
      then reportUsage now wt bill else (wt, bill))"

text \<open>The goroutine of a billing topic: left for later, or run.\<close>

definition billingRound :: "env \<Rightarrow> HashType \<Rightarrow> WatchedTopic \<Rightarrow> BillingAccumulator list \<times> effect list" where
  "billingRound e h wt =
     (case IsBilling wt of
        None \<Rightarrow> ([], [])
      | Some ba \<Rightarrow> if goLate e then ([ba], []) else ([], billingCheck e ba h wt))"

text \<open>What the loop carries: the topics, the executive's accumulator, the names of the empty topics,
  the goroutines not yet run, and the loop variables of the last round.\<close>

record heartState =
  hsTopics :: topics
  hsBilling :: BillingAccumulator
  hsEmpty :: "HashType list"
  hsLate :: "BillingAccumulator list"
  hsLast :: "(HashType \<times> WatchedTopic) option"

definition heartRound :: "looker \<Rightarrow> env \<Rightarrow> u32 \<Rightarrow> HashType \<Rightarrow> heartState \<Rightarrow> (heartState \<times> effect list) outcome" where
  "heartRound me e now h st =
     (case getWatcher (hsTopics st) h of
        None \<Rightarrow> Ret (st, [])
      | Some wt \<Rightarrow>
          if wtSize wt = 0
          then Ret (st\<lparr>hsEmpty := hsEmpty st @ [Name wt], hsLast := Some (h, wt)\<rparr>, [])
          else
            let wt1 = dropContacts (unsubsNeeded e now wt) wt;
                (late, effs) = billingRound e h wt1;
                (wt2, bill2) = reportIfDue me now wt1 (hsBilling st);
                empty2 = (if wtSize wt2 = 0 then [Name wt2] else [])
            in Ret (\<lparr>hsTopics = setWatcher (hsTopics st) h (Some wt2), hsBilling = bill2,
                     hsEmpty = hsEmpty st @ empty2, hsLate = hsLate st @ late,
                     hsLast = Some (h, wt2)\<rparr>, effs))"

definition runLate :: "env \<Rightarrow> heartState \<Rightarrow> effect list" where
  "runLate e st =
     (case hsLast st of
        None \<Rightarrow> []
      | Some (h, wt) \<Rightarrow> concat (map (\<lambda>ba. billingCheck e ba h wt) (hsLate st)))"

definition pushUnsubs :: "looker \<Rightarrow> env \<Rightarrow> HashType list \<Rightarrow> effect list outcome" where
  "pushUnsubs me e hs =
     bind_out (rangeLoop (\<lambda>h u. if isGuru me then Ret (u, [])
        else bind_out (pushUp me e (Unsubscribe (keyAddress h) []) h) (\<lambda>effs. Ret (u, effs))) hs ())
       (\<lambda>(u, effs). Ret effs)"

definition heartBeatCallBack :: "looker \<Rightarrow> env \<Rightarrow> u32 \<Rightarrow> topics \<Rightarrow>
    (topics \<times> BillingAccumulator \<times> effect list) outcome" where
  "heartBeatCallBack me e now s =
     bind_out (rangeLoop (heartRound me e now) (rangeTopics e s)
        \<lparr>hsTopics = s, hsBilling = exBilling me, hsEmpty = [], hsLate = [], hsLast = None\<rparr>) (\<lambda>(st, effs).
     bind_out (pushUnsubs me e (hsEmpty st)) (\<lambda>ups.
       Ret (fold om_remove (hsEmpty st) (hsTopics st), hsBilling st, effs @ runLate e st @ ups)))"

section \<open>The handlers' contract\<close>

lemma newTopic_ok: "topic_ok h (newTopic e h opts)"
  by (simp add: newTopic_def topic_ok_def emptyTopic_def split: prod.split)

lemma addBilling_fields [simp]:
  "Name (addBilling e h val wt) = Name wt" "thetree (addBilling e h val wt) = thetree wt"
  "OptionalKeyValues (addBilling e h val wt) = OptionalKeyValues wt"
  "Owner (addBilling e h val wt) = Owner wt" "Jwtid (addBilling e h val wt) = Jwtid wt"
  by (auto simp: addBilling_def Let_def split: option.splits)

lemma addWatcher_ok: "topic_ok h wt \<Longrightarrow> contactInterface wi = c \<Longrightarrow> topic_ok h (addWatcher c wi wt)"
  by (simp add: addWatcher_def wtPut_ok split: option.split)

lemma topic_ok_fields:
  "Name wt' = Name wt \<Longrightarrow> thetree wt' = thetree wt \<Longrightarrow> OptionalKeyValues wt' = OptionalKeyValues wt \<Longrightarrow>
    topic_ok h wt \<Longrightarrow> topic_ok h wt'"
  by (simp add: topic_ok_def)

lemma subscribeTopic_ok: "topic_ok h wt \<Longrightarrow> topic_ok h (subscribeTopic e ss h opts wt)"
  by (auto simp: subscribeTopic_def Let_def split: prod.splits
      intro!: addWatcher_ok elim: topic_ok_fields [rotated 3])

definition subscribeStep :: "looker \<Rightarrow> env \<Rightarrow> contact \<Rightarrow> HashType \<Rightarrow> AddressUnion \<Rightarrow> options \<Rightarrow>
    WatchedTopic option \<Rightarrow> (WatchedTopic option \<times> effect list) outcome" where
  "subscribeStep me e ss h addr opts w =
     bind_out (if isGuru me then Ret [] else pushUp me e (Subscribe addr opts) h) (\<lambda>ups.
       Ret (Some (subscribeTopic e ss h opts (case w of Some wt \<Rightarrow> wt | None \<Rightarrow> newTopic e h opts)),
            subscribeAck me ss addr opts @ ups))"

lemma processSubscribe_step:
  "processSubscribe me e ss h addr opts s = topic_step h (subscribeStep me e ss h addr opts) s"
  by (simp add: processSubscribe_def topic_step_def subscribeStep_def Let_def bind_out_assoc)

interpretation sub: topic_handler "processSubscribe me e ss h addr opts" h for me e ss h addr opts
  by (rule topic_handlerI [OF processSubscribe_step])
     (auto simp: subscribeStep_def bind_out_Ret split: option.splits intro!: subscribeTopic_ok newTopic_ok)

definition subscribeDownStep :: "looker \<Rightarrow> env \<Rightarrow> AddressUnion \<Rightarrow> options \<Rightarrow>
    WatchedTopic option \<Rightarrow> (WatchedTopic option \<times> effect list) outcome" where
  "subscribeDownStep me e addr opts w =
     Ret (w, case w of None \<Rightarrow> [] | Some wt \<Rightarrow> downToWatchers e (Subscribe addr opts) wt)"

lemma processSubscribeDown_step:
  "om_ok s \<Longrightarrow> processSubscribeDown me e h addr opts s = topic_step h (subscribeDownStep me e addr opts) s"
  by (auto simp: processSubscribeDown_def topic_step_def subscribeDownStep_def set_same split: option.split)

interpretation subdown: topic_handler "processSubscribeDown me e h addr opts" h for me e h addr opts
  by (rule topic_handlerI [OF processSubscribeDown_step]) (auto simp: subscribeDownStep_def)

definition unsubscribeStep :: "looker \<Rightarrow> env \<Rightarrow> contact \<Rightarrow> HashType \<Rightarrow> AddressUnion \<Rightarrow> options \<Rightarrow>
    WatchedTopic option \<Rightarrow> (WatchedTopic option \<times> effect list) outcome" where
  "unsubscribeStep me e ss h addr opts w =
     (case w of
        None \<Rightarrow> Ret (None, [])
      | Some wt \<Rightarrow>
          let wt' = wtRemove wt ss;
              gone = (Owner wt = [] \<and> wtSize wt' = 0 \<and> IsBilling wt' = None)
          in bind_out (if isGuru me \<or> (Owner wt = [] \<and> \<not> gone) then Ret []
                       else pushUp me e (Unsubscribe addr opts) h)
               (\<lambda>effs. Ret (if gone then None else Some wt', effs)))"

lemma processUnsubscribe_step:
  "om_ok s \<Longrightarrow> processUnsubscribe me e ss h addr opts s = topic_step h (unsubscribeStep me e ss h addr opts) s"
  by (auto simp: processUnsubscribe_def topic_step_def unsubscribeStep_def set_same Let_def bind_out_assoc
      split: option.split)

interpretation unsub: topic_handler "processUnsubscribe me e ss h addr opts" h for me e ss h addr opts
  by (rule topic_handlerI [OF processUnsubscribe_step])
     (auto simp: unsubscribeStep_def Let_def bind_out_Ret wtRemove_ok split: option.splits if_splits)

section \<open>What a subscription does\<close>

lemma subscribed_watcher:
  assumes "om_ok s" "processSubscribe me e ss h addr opts s = Ret (s', effs)"
  shows "\<exists>wt. getWatcher s' h = Some wt \<and> wtGet wt ss \<noteq> None \<and> Expires wt = 26 * 60 + timeNow e"
proof -
  have "wtGet (addWatcher k wi w) k \<noteq> None" for k wi w
    by (simp add: addWatcher_def wtGet_put split: option.split)
  moreover have "Expires (addWatcher k wi w) = Expires w" for k wi w
    by (simp add: addWatcher_def wtPut_def split: option.split)
  ultimately show ?thesis
    using assms by (auto simp: processSubscribe_step topic_step_def subscribeStep_def bind_out_Ret
        getWatcher_set subscribeTopic_def Let_def split: prod.splits)
qed

lemma subscribe_others:
  assumes "om_ok s" "getWatcher s h = Some wt" "c \<noteq> ss"
    and "processSubscribe me e ss h addr opts s = Ret (s', effs)"
  shows "\<exists>wt'. getWatcher s' h = Some wt' \<and> wtGet wt' c = wtGet wt c"
proof -
  have "wtGet (addWatcher ss wi w) c = wtGet w c" for wi w
    using assms(3) by (simp add: addWatcher_def wtGet_put split: option.split)
  moreover have "wtGet (addBilling e h val w) c = wtGet w c" for val w
    by (simp add: wtGet_def)
  moreover have "wtGet (w\<lparr>Expires := t\<rparr>) c = wtGet w c" for w t
    by (simp add: wtGet_def)
  ultimately show ?thesis
    using assms by (auto simp: processSubscribe_step topic_step_def subscribeStep_def bind_out_Ret
        getWatcher_set subscribeTopic_def Let_def split: prod.splits)
qed

section \<open>What an unsubscription does\<close>

lemma unsubscribed:
  assumes "table_ok P s" "processUnsubscribe me e ss h addr opts s = Ret (s', effs)"
    and "getWatcher s h = Some wt"
  shows "case getWatcher s' h of
      None \<Rightarrow> Owner wt = [] \<and> IsBilling wt = None \<and> thetree (wtRemove wt ss) = []
    | Some wt' \<Rightarrow> wt' = wtRemove wt ss \<and> wtGet wt' ss = None
        \<and> (Owner wt \<noteq> [] \<or> IsBilling wt \<noteq> None \<or> thetree wt' \<noteq> [])"
proof -
  have o: "om_ok s" "om_ok (thetree wt)"
    using assms(1,3) by (auto simp: table_ok_def topic_ok_def)
  have "IsBilling (wtRemove wt ss) = IsBilling wt"
    by (simp add: IsBilling_def wtRemove_def)
  then show ?thesis
    using assms(2,3) o
    by (auto simp: processUnsubscribe_step topic_step_def unsubscribeStep_def Let_def bind_out_Ret
        getWatcher_set wtGet_remove wtSize_def om_size_def split: if_splits)
qed

section \<open>The heartbeat\<close>

text \<open>The watchers that outlive a heartbeat.\<close>

definition survivors :: "env \<Rightarrow> u32 \<Rightarrow> WatchedTopic \<Rightarrow> (HalfHash \<times> watcherItem) list" where
  "survivors e now wt =
     filter (\<lambda>(k, item). \<not> (Expires wt < now \<or> isClosed e (contactInterface item))) (thetree wt)"

lemma om_remove_filter: "om_ok m \<Longrightarrow> om_remove k m = filter (\<lambda>kv. fst kv \<noteq> k) m"
proof (induction k m rule: om_remove.induct)
  case (2 k k' v m)
  then show ?case
    by (auto simp: om_ok_Cons intro!: filter_True [symmetric])
qed simp

lemma om_ok_filter: "om_ok m \<Longrightarrow> om_ok (filter Q m)"
  by (induction m) (auto simp: om_ok_Cons)

lemma dropContacts_tree:
  "om_ok (thetree wt) \<Longrightarrow> thetree (dropContacts cs wt) = filter (\<lambda>kv. fst kv \<notin> set cs) (thetree wt)"
proof (induction cs arbitrary: wt)
  case (Cons c cs)
  have "thetree (dropContacts (c # cs) wt) = filter (\<lambda>kv. fst kv \<notin> set cs) (thetree (wtRemove wt c))"
    using Cons by (simp add: dropContacts_def wtRemove_def om_remove_ok)
  also have "\<dots> = filter (\<lambda>kv. fst kv \<notin> set (c # cs)) (thetree wt)"
    using Cons.prems by (auto simp: wtRemove_def om_remove_filter intro!: filter_cong)
  finally show ?case .
qed (simp add: dropContacts_def)

lemma dropContacts_fields [simp]:
  "Name (dropContacts cs wt) = Name wt" "OptionalKeyValues (dropContacts cs wt) = OptionalKeyValues wt"
  "Expires (dropContacts cs wt) = Expires wt" "Owner (dropContacts cs wt) = Owner wt"
  "Jwtid (dropContacts cs wt) = Jwtid wt" "Bill (dropContacts cs wt) = Bill wt"
  by (induction cs arbitrary: wt) (simp_all add: dropContacts_def wtRemove_def)

lemma dropContacts_ok: "topic_ok h wt \<Longrightarrow> topic_ok h (dropContacts cs wt)"
  by (induction cs arbitrary: wt) (simp_all add: dropContacts_def wtRemove_ok)

lemma unsubsNeeded_mem:
  assumes "topic_ok h wt"
  shows "c \<in> set (unsubsNeeded e now wt) \<longleftrightarrow> c \<in> fst ` set (thetree wt) \<and> (Expires wt < now \<or> isClosed e c)"
proof -
  have c: "\<And>k i. (k, i) \<in> set (thetree wt) \<Longrightarrow> contactInterface i = k"
    using assms by (auto simp: topic_ok_def)
  have "c \<in> set (unsubsNeeded e now wt)
      \<longleftrightarrow> (\<exists>k i. (k, i) \<in> set (thetree wt) \<and> (Expires wt < now \<or> isClosed e (contactInterface i))
             \<and> c = contactInterface i)"
    unfolding unsubsNeeded_def wtItems_def by force
  also have "\<dots> \<longleftrightarrow> (\<exists>i. (c, i) \<in> set (thetree wt)) \<and> (Expires wt < now \<or> isClosed e c)"
    using c by blast
  finally show ?thesis by force
qed

lemma dropped_survivors:
  assumes "topic_ok h wt"
  shows "thetree (dropContacts (unsubsNeeded e now wt) wt) = survivors e now wt"
proof -
  have o: "om_ok (thetree wt)" and c: "\<And>k i. (k, i) \<in> set (thetree wt) \<Longrightarrow> contactInterface i = k"
    using assms by (auto simp: topic_ok_def)
  have "filter (\<lambda>kv. fst kv \<notin> set (unsubsNeeded e now wt)) (thetree wt) = survivors e now wt"
    unfolding survivors_def
  proof (rule filter_cong [OF refl])
    fix kv
    assume m: "kv \<in> set (thetree wt)"
    obtain k i where kv: "kv = (k, i)" by (cases kv)
    have "contactInterface i = k" "k \<in> fst ` set (thetree wt)" using c m kv by force+
    then show "(fst kv \<notin> set (unsubsNeeded e now wt))
        = (case kv of (k, item) \<Rightarrow> \<not> (Expires wt < now \<or> isClosed e (contactInterface item)))"
      by (simp add: kv unsubsNeeded_mem [OF assms])
  qed
  then show ?thesis by (simp add: dropContacts_tree [OF o])
qed

text \<open>The topic a round leaves behind, if it was there.\<close>

definition heartTopic :: "looker \<Rightarrow> env \<Rightarrow> u32 \<Rightarrow> BillingAccumulator \<Rightarrow> WatchedTopic \<Rightarrow> WatchedTopic" where
  "heartTopic me e now bill wt =
     (if thetree wt = [] then wt
      else fst (reportIfDue me now (dropContacts (unsubsNeeded e now wt) wt) bill))"

lemma reportIfDue_fields [simp]:
  "thetree (fst (reportIfDue me now wt bill)) = thetree wt"
  "Name (fst (reportIfDue me now wt bill)) = Name wt"
  "OptionalKeyValues (fst (reportIfDue me now wt bill)) = OptionalKeyValues wt"
  "Owner (fst (reportIfDue me now wt bill)) = Owner wt"
  "Bill (fst (reportIfDue me now wt bill)) = Bill wt"
  by (simp_all add: reportIfDue_def reportUsage_def Let_def)

lemma heartTopic_tree: "topic_ok h wt \<Longrightarrow> thetree (heartTopic me e now bill wt) = survivors e now wt"
  using dropped_survivors [of h wt e now] by (simp add: heartTopic_def survivors_def)

lemma heartTopic_ok: "topic_ok h wt \<Longrightarrow> topic_ok h (heartTopic me e now bill wt)"
  using dropContacts_ok [of h wt "unsubsNeeded e now wt"]
  by (simp add: heartTopic_def topic_ok_def)

lemma heartRound_result:
  assumes "table_ok P (hsTopics st)" "getWatcher (hsTopics st) h = w"
  shows "\<exists>st' effs. heartRound me e now h st = Ret (st', effs)
    \<and> hsTopics st' = setWatcher (hsTopics st) h (map_option (heartTopic me e now (hsBilling st)) w)
    \<and> hsEmpty st' = hsEmpty st @ (case w of None \<Rightarrow> [] | Some wt \<Rightarrow> if survivors e now wt = [] then [h] else [])"
proof (cases w)
  case None
  have "om_ok (hsTopics st)" using assms(1) by (simp add: table_ok_def)
  then show ?thesis using None assms(2) by (simp add: heartRound_def set_same)
next
  case (Some wt)
  have t: "topic_ok h wt" "Name wt = h" "om_ok (hsTopics st)"
    using assms Some by (auto simp: table_ok_def topic_ok_def)
  show ?thesis
  proof (cases "thetree wt = []")
    case True
    then show ?thesis
      using Some assms(2) t
      by (simp add: heartRound_def wtSize_def om_size_def heartTopic_def set_same survivors_def)
  next
    case False
    define wt1 where "wt1 = dropContacts (unsubsNeeded e now wt) wt"
    obtain late effs where l: "billingRound e h wt1 = (late, effs)" by fastforce
    obtain wt2 bill2 where r: "reportIfDue me now wt1 (hsBilling st) = (wt2, bill2)" by fastforce
    have "thetree wt2 = thetree wt1" "Name wt2 = Name wt1"
      using reportIfDue_fields [of me now wt1 "hsBilling st"] by (simp_all add: r)
    then have "thetree wt2 = survivors e now wt" "Name wt2 = h"
      using dropped_survivors [OF t(1), of e now] t(2) by (simp_all add: wt1_def)
    then show ?thesis
      using False Some assms(2) l r
      by (simp add: heartRound_def wtSize_def om_size_def heartTopic_def Let_def wt1_def [symmetric])
  qed
qed

text \<open>The whole loop.\<close>

definition order_ok :: "env \<Rightarrow> bool" where
  "order_ok e \<longleftrightarrow> (\<forall>ks. distinct ks \<longrightarrow> distinct (mapOrder e ks) \<and> set (mapOrder e ks) = set ks)"

lemma rangeTopics_ok:
  "om_ok s \<Longrightarrow> order_ok e \<Longrightarrow> distinct (rangeTopics e s) \<and> set (rangeTopics e s) = fst ` set s"
  by (simp add: rangeTopics_def order_ok_def om_ok_def strict_sorted_iff)

definition dying :: "env \<Rightarrow> u32 \<Rightarrow> topics \<Rightarrow> HashType \<Rightarrow> bool" where
  "dying e now s h \<longleftrightarrow> (\<exists>wt. getWatcher s h = Some wt \<and> survivors e now wt = [])"

lemma heartLoop:
  assumes "table_ok P (hsTopics st)" "distinct hs"
  shows "\<exists>st' effs. rangeLoop (heartRound me e now) hs st = Ret (st', effs)
    \<and> table_ok P (hsTopics st')
    \<and> hsEmpty st' = hsEmpty st @ filter (dying e now (hsTopics st)) hs
    \<and> (\<forall>h. h \<notin> set hs \<longrightarrow> getWatcher (hsTopics st') h = getWatcher (hsTopics st) h)
    \<and> (\<forall>h \<in> set hs. \<exists>bill. getWatcher (hsTopics st') h
          = map_option (heartTopic me e now bill) (getWatcher (hsTopics st) h))"
  using assms
proof (induction hs arbitrary: st)
  case (Cons h hs)
  define w where "w = getWatcher (hsTopics st) h"
  obtain st1 e1 where r: "heartRound me e now h st = Ret (st1, e1)"
      "hsTopics st1 = setWatcher (hsTopics st) h (map_option (heartTopic me e now (hsBilling st)) w)"
      "hsEmpty st1 = hsEmpty st @ (case w of None \<Rightarrow> [] | Some wt \<Rightarrow> if survivors e now wt = [] then [h] else [])"
    using heartRound_result [OF Cons.prems(1), of h w me e now] by (auto simp: w_def)
  have o: "om_ok (hsTopics st)" using Cons.prems(1) by (simp add: table_ok_def)
  have t1: "table_ok P (hsTopics st1)"
  proof (cases w)
    case None
    then show ?thesis using r(2) Cons.prems(1) o by (simp add: w_def set_same)
  next
    case (Some wt)
    then show ?thesis
      using r(2) Cons.prems(1) table_ok_get [OF Cons.prems(1), of h wt]
      by (auto simp: w_def intro!: table_ok_set heartTopic_ok)
  qed
  have g1: "getWatcher (hsTopics st1) k
      = (if k = h then map_option (heartTopic me e now (hsBilling st)) w else getWatcher (hsTopics st) k)" for k
    using o by (simp add: r(2) getWatcher_set)
  obtain st' e2 where ih: "rangeLoop (heartRound me e now) hs st1 = Ret (st', e2)" "table_ok P (hsTopics st')"
      "hsEmpty st' = hsEmpty st1 @ filter (dying e now (hsTopics st1)) hs"
      "\<forall>k. k \<notin> set hs \<longrightarrow> getWatcher (hsTopics st') k = getWatcher (hsTopics st1) k"
      "\<forall>k \<in> set hs. \<exists>bill. getWatcher (hsTopics st') k
          = map_option (heartTopic me e now bill) (getWatcher (hsTopics st1) k)"
    using Cons.IH [OF t1] Cons.prems(2) by auto
  have "filter (dying e now (hsTopics st1)) hs = filter (dying e now (hsTopics st)) hs"
    using Cons.prems(2) by (intro filter_cong) (auto simp: dying_def g1)
  moreover have "hsEmpty st1 = hsEmpty st @ (if dying e now (hsTopics st) h then [h] else [])"
    by (simp add: r(3) dying_def w_def [symmetric] split: option.split)
  ultimately have "hsEmpty st' = hsEmpty st @ filter (dying e now (hsTopics st)) (h # hs)"
    by (simp add: ih(3))
  moreover have "\<exists>bill. getWatcher (hsTopics st') k
      = map_option (heartTopic me e now bill) (getWatcher (hsTopics st) k)" if "k \<in> set (h # hs)" for k
  proof (cases "k = h")
    case True
    then show ?thesis using ih(4) Cons.prems(2) g1 by (auto simp: w_def)
  next
    case False
    then have "k \<in> set hs" using that by simp
    with ih(5) obtain bill where "getWatcher (hsTopics st') k
        = map_option (heartTopic me e now bill) (getWatcher (hsTopics st1) k)" by blast
    then show ?thesis using False by (auto simp: g1)
  qed
  ultimately show ?case
    using r(1) ih(1,2,4) g1 by (intro exI [of _ st'] exI [of _ "e1 @ e2"]) auto
qed simp

lemma pushUnsubs_guru: "isGuru me \<Longrightarrow> pushUnsubs me e hs = Ret []"
proof -
  have "isGuru me \<Longrightarrow> rangeLoop (\<lambda>h u. if isGuru me then Ret (u, [])
        else bind_out (pushUp me e (Unsubscribe (keyAddress h) []) h) (\<lambda>effs. Ret (u, effs))) hs ()
      = Ret ((), [])"
    by (induction hs) simp_all
  then show "isGuru me \<Longrightarrow> ?thesis" by (simp add: pushUnsubs_def)
qed

definition upUnsub :: "looker \<Rightarrow> env \<Rightarrow> HashType \<Rightarrow> effect list" where
  "upUnsub me e h =
     (if isGuru me then [] else case pushUp me e (Unsubscribe (keyAddress h) []) h of Ret x \<Rightarrow> x | _ \<Rightarrow> [])"

lemma pushUnsubs_total:
  assumes "router_ok (router me)" "maglev_sound e"
  shows "pushUnsubs me e hs = Ret (concat (map (upUnsub me e) hs))"
proof -
  have one: "(if isGuru me then Ret ((), [])
        else bind_out (pushUp me e (Unsubscribe (keyAddress h) []) h) (\<lambda>effs. Ret ((), effs)))
      = Ret ((), upUnsub me e h)" for h
    using pushUp_total [OF assms, of "Unsubscribe (keyAddress h) []" h] by (auto simp: upUnsub_def)
  have "rangeLoop (\<lambda>h u. if isGuru me then Ret (u, [])
        else bind_out (pushUp me e (Unsubscribe (keyAddress h) []) h) (\<lambda>effs. Ret (u, effs))) hs ()
      = Ret ((), concat (map (upUnsub me e) hs))"
    by (induction hs) (simp_all add: one)
  then show ?thesis by (simp add: pushUnsubs_def)
qed

lemma fold_remove_get:
  "om_ok s \<Longrightarrow> om_ok (fold om_remove hs s)
    \<and> getWatcher (fold om_remove hs s) k = (if k \<in> set hs then None else getWatcher s k)"
  by (induction hs arbitrary: s) (auto simp: om_remove_ok getWatcher_def om_remove_get)

text \<open>What a heartbeat does to the table: it returns, keeps the invariant, and leaves exactly the
  topics with a surviving watcher, each with its survivors; the others are unsubscribed upstream.\<close>

lemma heartbeat_result:
  assumes "table_ok P s" "order_ok e" "router_ok (router me)" "maglev_sound e"
  shows "\<exists>s' bill effs. heartBeatCallBack me e now s
      = Ret (s', bill, effs @ concat (map (upUnsub me e) (filter (dying e now s) (rangeTopics e s))))
    \<and> table_ok P s'
    \<and> (\<forall>h. map_option thetree (getWatcher s' h)
        = (if dying e now s h then None else map_option (survivors e now) (getWatcher s h)))"
proof -
  have o: "om_ok s" using assms(1) by (simp add: table_ok_def)
  note rt = rangeTopics_ok [OF o assms(2)]
  define st where "st = \<lparr>hsTopics = s, hsBilling = exBilling me, hsEmpty = [], hsLate = [], hsLast = None\<rparr>"
  obtain st' effs where l: "rangeLoop (heartRound me e now) (rangeTopics e s) st = Ret (st', effs)"
      "table_ok P (hsTopics st')" "hsEmpty st' = filter (dying e now s) (rangeTopics e s)"
      "\<forall>h. h \<notin> set (rangeTopics e s) \<longrightarrow> getWatcher (hsTopics st') h = getWatcher s h"
      "\<forall>h \<in> set (rangeTopics e s). \<exists>bill. getWatcher (hsTopics st') h
          = map_option (heartTopic me e now bill) (getWatcher s h)"
    using heartLoop [of P st "rangeTopics e s" me e now] assms(1) rt by (auto simp: st_def)
  define s' where "s' = fold om_remove (hsEmpty st') (hsTopics st')"
  have o': "om_ok (hsTopics st')" using l(2) by (simp add: table_ok_def)
  have g: "getWatcher s' h = (if dying e now s h then None else getWatcher (hsTopics st') h)" for h
  proof -
    have "h \<in> set (rangeTopics e s)" if "dying e now s h"
    proof -
      have "om_get s h \<noteq> None" using that by (auto simp: dying_def getWatcher_def)
      then show ?thesis using rt by (simp add: om_get_None_iff)
    qed
    then show ?thesis
      using fold_remove_get [OF o', of "hsEmpty st'" h] l(3) by (auto simp: s'_def)
  qed
  have "table_ok P s'"
    using l(2) g fold_remove_get [OF o', of "hsEmpty st'"] by (auto simp: table_ok_def s'_def)
  moreover have "map_option thetree (getWatcher s' h)
      = (if dying e now s h then None else map_option (survivors e now) (getWatcher s h))" for h
  proof (cases "h \<in> set (rangeTopics e s)")
    case True
    then obtain bill where "getWatcher (hsTopics st') h = map_option (heartTopic me e now bill) (getWatcher s h)"
      using l(5) by blast
    then show ?thesis
      using g [of h] table_ok_get [OF assms(1), of h] heartTopic_tree
      by (cases "getWatcher s h") auto
  next
    case False
    then have "getWatcher s h = None" using rt by (simp add: getWatcher_def om_get_None_iff)
    then show ?thesis using g [of h] l(4) False by simp
  qed
  moreover have "heartBeatCallBack me e now s
      = Ret (s', hsBilling st', (effs @ runLate e st') @ concat (map (upUnsub me e) (hsEmpty st')))"
    using l(1) pushUnsubs_total [OF assms(3,4), of "hsEmpty st'"]
    by (simp add: heartBeatCallBack_def st_def s'_def)
  ultimately show ?thesis unfolding l(3) by blast
qed

end
