(* ===== verification/Utf8.thy ===== *)
theory Utf8
  imports Prelude
begin

text \<open>
  UTF-8 as Go's \<open>unicode/utf8\<close> and its \<open>range\<close> over a string read it: a rune is a number; an
  ill-formed byte is delivered as the rune 65533 (U+FFFD) of width 1, and the empty string as
  that rune with width 0. Writing a rune that is no Unicode scalar value writes U+FFFD.
\<close>

definition rune_error :: nat where
  "rune_error = 65533"

definition byte_in :: "nat \<Rightarrow> nat \<Rightarrow> char \<Rightarrow> bool" where
  "byte_in lo hi c \<longleftrightarrow> lo \<le> byte_val c \<and> byte_val c \<le> hi"

definition second_range :: "nat \<Rightarrow> nat \<times> nat" where
  "second_range b0 =
     (if b0 = 224 then (160, 191) else if b0 = 237 then (128, 159)
      else if b0 = 240 then (144, 191) else if b0 = 244 then (128, 143) else (128, 191))"

definition low6 :: "char \<Rightarrow> nat" where
  "low6 c = byte_val c mod 64"

fun decode_rune :: "string \<Rightarrow> nat \<times> nat" where
  "decode_rune [] = (rune_error, 0)"
| "decode_rune (c # s) =
     (let b0 = byte_val c; (lo, hi) = second_range b0 in
      if b0 < 128 then (b0, 1)
      else if 194 \<le> b0 \<and> b0 \<le> 223 then
        (case s of
           c1 # _ \<Rightarrow> if byte_in lo hi c1 then (b0 mod 32 * 64 + low6 c1, 2) else (rune_error, 1)
         | _ \<Rightarrow> (rune_error, 1))
      else if 224 \<le> b0 \<and> b0 \<le> 239 then
        (case s of
           c1 # c2 # _ \<Rightarrow> if byte_in lo hi c1 \<and> byte_in 128 191 c2
              then (b0 mod 16 * 4096 + low6 c1 * 64 + low6 c2, 3) else (rune_error, 1)
         | _ \<Rightarrow> (rune_error, 1))
      else if 240 \<le> b0 \<and> b0 \<le> 244 then
        (case s of
           c1 # c2 # c3 # _ \<Rightarrow> if byte_in lo hi c1 \<and> byte_in 128 191 c2 \<and> byte_in 128 191 c3
              then (b0 mod 8 * 262144 + low6 c1 * 4096 + low6 c2 * 64 + low6 c3, 4)
              else (rune_error, 1)
         | _ \<Rightarrow> (rune_error, 1))
      else (rune_error, 1))"

definition scalar :: "nat \<Rightarrow> bool" where
  "scalar r \<longleftrightarrow> r < 55296 \<or> 57344 \<le> r \<and> r < 1114112"

definition encode_scalar :: "nat \<Rightarrow> string" where
  "encode_scalar r =
     (if r < 128 then [byte_of r]
      else if r < 2048 then [byte_of (192 + r div 64), byte_of (128 + r mod 64)]
      else if r < 65536 then
        [byte_of (224 + r div 4096), byte_of (128 + r div 64 mod 64), byte_of (128 + r mod 64)]
      else [byte_of (240 + r div 262144), byte_of (128 + r div 4096 mod 64),
            byte_of (128 + r div 64 mod 64), byte_of (128 + r mod 64)])"

definition encode_rune :: "nat \<Rightarrow> string" where
  "encode_rune r = encode_scalar (if scalar r then r else rune_error)"

lemma decode_rune_width: "s \<noteq> [] \<Longrightarrow> 0 < snd (decode_rune s) \<and> snd (decode_rune s) \<le> length s"
  by (cases s) (auto simp: Let_def split: list.splits prod.splits if_splits)

lemma decode_rune_width_le4: "snd (decode_rune s) \<le> 4"
  by (cases s) (auto simp: Let_def split: list.splits prod.splits if_splits)

function runes :: "string \<Rightarrow> nat list" where
  "runes s = (if s = [] then [] else fst (decode_rune s) # runes (drop (snd (decode_rune s)) s))"
  by pat_completeness auto
termination
  by (relation "measure length") (auto dest: decode_rune_width)

declare runes.simps [simp del]

lemma runes_Nil [simp]: "runes [] = []"
  by (simp add: runes.simps)

definition encode_runes :: "nat list \<Rightarrow> string" where
  "encode_runes rs = concat (map encode_rune rs)"

lemma encode_runes_simps [simp]:
  "encode_runes [] = []" "encode_runes (r # rs) = encode_rune r @ encode_runes rs"
  "encode_runes (xs @ ys) = encode_runes xs @ encode_runes ys"
  by (simp_all add: encode_runes_def)

subsection \<open>Reading back what was written\<close>

lemma lead_mods:
  "(y::nat) < 64 \<Longrightarrow> (128 + y) mod 64 = y" "(x::nat) < 32 \<Longrightarrow> (192 + x) mod 32 = x"
  "(x::nat) < 16 \<Longrightarrow> (224 + x) mod 16 = x" "(x::nat) < 8 \<Longrightarrow> (240 + x) mod 8 = x"
  using mod_mult_self1 [of y 2 64] mod_mult_self1 [of x 6 32] mod_mult_self1 [of x 14 16]
    mod_mult_self1 [of x 30 8]
  by (simp_all add: add.commute)

lemma low6_cont [simp]: "y < 64 \<Longrightarrow> low6 (byte_of (128 + y)) = y"
  by (simp add: low6_def lead_mods)

lemma decode_encode3:
  assumes "x < 16" "y < 64" "z < 64" "x = 0 \<longrightarrow> 32 \<le> y" "x = 13 \<longrightarrow> y < 32"
  shows "decode_rune (byte_of (224 + x) # byte_of (128 + y) # byte_of (128 + z) # s)
    = (x * 4096 + y * 64 + z, 3)"
  using assms by (auto simp: Let_def second_range_def byte_in_def lead_mods)

lemma decode_encode4:
  assumes "x < 5" "y < 64" "z < 64" "w < 64" "x = 0 \<longrightarrow> 16 \<le> y" "x = 4 \<longrightarrow> y < 16"
  shows "decode_rune (byte_of (240 + x) # byte_of (128 + y) # byte_of (128 + z) # byte_of (128 + w) # s)
    = (x * 262144 + y * 4096 + z * 64 + w, 4)"
  using assms by (auto simp: Let_def second_range_def byte_in_def lead_mods)

lemma decode_encode_scalar:
  assumes "scalar r"
  shows "decode_rune (encode_scalar r @ s) = (r, length (encode_scalar r))"
proof -
  have b: "r < 1114112" using assms by (auto simp: scalar_def)
  consider "r < 128" | "128 \<le> r" "r < 2048" | "2048 \<le> r" "r < 65536" | "65536 \<le> r"
    by linarith
  then show ?thesis
  proof cases
    case 1
    then show ?thesis by (simp add: encode_scalar_def Let_def split: prod.split)
  next
    case 2
    then have "2 \<le> r div 64" "r div 64 < 32" by (simp_all add: less_eq_div_iff_mult_less_eq less_mult_imp_div_less)
    moreover have "r mod 64 < 64" by simp
    ultimately show ?thesis
      using 2 by (simp add: encode_scalar_def Let_def second_range_def byte_in_def lead_mods
          less_Suc_eq_le [symmetric] del: mod_less_divisor)
  next
    case 3
    define x y z where d: "x = r div 4096" "y = r div 64 mod 64" "z = r mod 64"
    have e: "x * 4096 + y * 64 + z = r" by (simp only: d split64_3)
    have l: "x < 16" "y < 64" "z < 64"
      using 3 by (simp_all add: d less_mult_imp_div_less)
    have "x = 0 \<longrightarrow> 32 \<le> y" "x = 13 \<longrightarrow> y < 32"
      using e l 3 assms by (auto simp: scalar_def)
    from decode_encode3 [OF l this] show ?thesis
      using 3 e by (simp add: encode_scalar_def flip: d)
  next
    case 4
    define x y z w where d: "x = r div 262144" "y = r div 4096 mod 64" "z = r div 64 mod 64" "w = r mod 64"
    have e: "x * 262144 + y * 4096 + z * 64 + w = r" by (simp only: d split64_4)
    have l: "x < 5" "y < 64" "z < 64" "w < 64"
      using b by (simp_all add: d less_mult_imp_div_less)
    have "x = 0 \<longrightarrow> 16 \<le> y" "x = 4 \<longrightarrow> y < 16"
      using e l 4 b by auto
    from decode_encode4 [OF l this] show ?thesis
      using 4 e by (simp add: encode_scalar_def flip: d)
  qed
qed

lemma scalar_rune_error [simp]: "scalar rune_error"
  by (simp add: scalar_def rune_error_def)

lemma encode_scalar_nonempty [simp]: "encode_scalar r \<noteq> []"
  by (simp add: encode_scalar_def)

lemma encode_rune_nonempty [simp]: "encode_rune r \<noteq> []"
  by (simp add: encode_rune_def)

lemma runes_encode_Cons: "scalar r \<Longrightarrow> runes (encode_rune r @ s) = r # runes s"
  using decode_encode_scalar [of r s] by (subst runes.simps) (simp add: encode_rune_def)

lemma runes_encode:
  "list_all scalar rs \<Longrightarrow> runes (encode_runes rs) = rs"
  by (induction rs) (simp_all add: runes_encode_Cons)

lemma runes_encode_append:
  "list_all scalar rs \<Longrightarrow> runes (encode_runes rs @ s) = rs @ runes s"
  by (induction rs) (simp_all add: runes_encode_Cons)

subsection \<open>Well-formed strings\<close>

text \<open>\<open>utf8.Valid\<close>: no ill-formed byte is met on the way through the string.\<close>

function utf8_valid :: "string \<Rightarrow> bool" where
  "utf8_valid s =
     (if s = [] then True
      else decode_rune s \<noteq> (rune_error, 1) \<and> utf8_valid (drop (snd (decode_rune s)) s))"
  by pat_completeness auto
termination
  by (relation "measure length") (auto dest: decode_rune_width)

declare utf8_valid.simps [simp del]

lemma cont_byte:
  "byte_in 128 191 c \<Longrightarrow> \<exists>y < 64. c = byte_of (128 + y)"
  by (rule exI [of _ "byte_val c - 128"]) (auto simp: byte_in_def)

lemma cont_byte_sub: "byte_in lo hi c \<Longrightarrow> 128 \<le> lo \<Longrightarrow> hi \<le> 191 \<Longrightarrow> byte_in 128 191 c"
  by (simp add: byte_in_def)

lemma encode_of_digits3:
  assumes "y < 64" "z < (64::nat)"
  shows "(x * 4096 + y * 64 + z) div 4096 = x" "(x * 4096 + y * 64 + z) div 64 mod 64 = y"
    "(x * 4096 + y * 64 + z) mod 64 = z" "(x * 4096 + y * 64 + z) div 64 = x * 64 + y"
proof -
  have e: "x * 4096 + y * 64 + z = (x * 64 + y) * 64 + z" by simp
  have z: "(m * 64 + z) div 64 = m" "(m * 64 + z) mod 64 = z" for m
    using assms by simp_all
  show d: "(x * 4096 + y * 64 + z) div 64 = x * 64 + y" "(x * 4096 + y * 64 + z) mod 64 = z"
    by (simp_all only: e z)
  have "(x * 4096 + y * 64 + z) div 4096 = (x * 4096 + y * 64 + z) div 64 div 64"
    by (simp add: div_mult2_eq [symmetric])
  also have "\<dots> = x"
    unfolding d using assms(1) by simp
  finally show "(x * 4096 + y * 64 + z) div 4096 = x" .
  show "(x * 4096 + y * 64 + z) div 64 mod 64 = y"
    unfolding d using assms(1) by simp
qed

lemma encode_rune_scalar: "scalar r \<Longrightarrow> encode_rune r = encode_scalar r"
  by (simp add: encode_rune_def)

lemma encode_scalar3: "2048 \<le> r \<Longrightarrow> r < 65536 \<Longrightarrow> encode_scalar r =
    [byte_of (224 + r div 4096), byte_of (128 + r div 64 mod 64), byte_of (128 + r mod 64)]"
  by (simp add: encode_scalar_def)

lemma encode_scalar4: "65536 \<le> r \<Longrightarrow> encode_scalar r =
    [byte_of (240 + r div 262144), byte_of (128 + r div 4096 mod 64),
     byte_of (128 + r div 64 mod 64), byte_of (128 + r mod 64)]"
  by (simp add: encode_scalar_def)

lemma encode_decode2:
  assumes "2 \<le> x" "x < 32" "z < 64"
  shows "encode_rune (x * 64 + z) = [byte_of (192 + x), byte_of (128 + z)] \<and> scalar (x * 64 + z)"
  using assms by (simp add: encode_rune_def encode_scalar_def scalar_def)

lemma encode_decode3:
  assumes "x < 16" "y < 64" "z < 64" "x = 0 \<longrightarrow> 32 \<le> y" "x = 13 \<longrightarrow> y < 32"
  shows "encode_rune (x * 4096 + y * 64 + z) = [byte_of (224 + x), byte_of (128 + y), byte_of (128 + z)]
    \<and> scalar (x * 4096 + y * 64 + z)"
proof -
  have "2048 \<le> x * 4096 + y * 64 + z" using assms(4) by (cases "x = 0") auto
  moreover have "x * 4096 + y * 64 + z < 65536" using assms(1-3) by linarith
  moreover have "scalar (x * 4096 + y * 64 + z)"
  proof -
    consider "x < 13" | "x = 13" | "14 \<le> x" by linarith
    then show ?thesis
      using assms(1-3,5) by cases (auto simp: scalar_def)
  qed
  ultimately show ?thesis
    by (simp only: encode_rune_scalar encode_scalar3 encode_of_digits3(1-3) [OF assms(2,3)])
qed

lemma encode_decode4:
  assumes "x < 5" "y < 64" "z < 64" "w < 64" "x = 0 \<longrightarrow> 16 \<le> y" "x = 4 \<longrightarrow> y < 16"
  shows "encode_rune (x * 262144 + y * 4096 + z * 64 + w)
    = [byte_of (240 + x), byte_of (128 + y), byte_of (128 + z), byte_of (128 + w)]
    \<and> scalar (x * 262144 + y * 4096 + z * 64 + w)"
proof -
  let ?r = "x * 262144 + y * 4096 + z * 64 + w"
  have e: "?r = (x * 64 + y) * 4096 + z * 64 + w" by simp
  have g: "65536 \<le> ?r" using assms(5) by (cases "x = 0") auto
  have l: "?r < 1114112"
  proof (cases "x = 4")
    case True
    then show ?thesis using assms by auto
  next
    case False
    then have "x \<le> 3" using assms(1) by linarith
    then show ?thesis using assms(2-4) by linarith
  qed
  have d: "?r div 4096 = x * 64 + y" "?r div 64 mod 64 = z" "?r mod 64 = w"
    unfolding e by (rule encode_of_digits3 [OF assms(3,4)])+
  have "?r div 262144 = ?r div 4096 div 64"
    by (simp add: div_mult2_eq [symmetric])
  then have "?r div 262144 = x" "?r div 4096 mod 64 = y"
    using assms(2) by (simp_all only: d) simp_all
  moreover have "scalar ?r" using g l by (simp add: scalar_def)
  ultimately show ?thesis
    using g by (simp only: encode_rune_scalar encode_scalar4 d)
qed

lemma lead3:
  assumes "decode_rune (byte_of b # t) \<noteq> (rune_error, 1)" "224 \<le> b" "b \<le> 239"
  obtains x y z t' where "b = 224 + x" "t = byte_of (128 + y) # byte_of (128 + z) # t'"
    "x < 16" "y < 64" "z < 64" "x = 0 \<longrightarrow> 32 \<le> y" "x = 13 \<longrightarrow> y < 32"
proof -
  obtain lo hi where r: "second_range b = (lo, hi)" by force
  obtain c1 c2 t' where t: "t = c1 # c2 # t'" "byte_in lo hi c1" "byte_in 128 191 c2"
    using assms r by (auto simp: Let_def split: list.splits if_splits)
  have lh: "128 \<le> lo" "hi \<le> 191" "b = 224 \<Longrightarrow> lo = 160" "b = 237 \<Longrightarrow> hi = 159"
    using r by (auto simp: second_range_def split: if_splits)
  obtain y z where y: "y < 64" "c1 = byte_of (128 + y)" and z: "z < 64" "c2 = byte_of (128 + z)"
    using cont_byte [OF cont_byte_sub [OF t(2) lh(1,2)]] cont_byte [OF t(3)] by blast
  show thesis
    using assms(2,3) t y z lh
    by (intro that [of "b - 224" y z t']) (auto simp: byte_in_def)
qed

lemma lead4:
  assumes "decode_rune (byte_of b # t) \<noteq> (rune_error, 1)" "240 \<le> b" "b \<le> 244"
  obtains x y z w t' where "b = 240 + x"
    "t = byte_of (128 + y) # byte_of (128 + z) # byte_of (128 + w) # t'"
    "x < 5" "y < 64" "z < 64" "w < 64" "x = 0 \<longrightarrow> 16 \<le> y" "x = 4 \<longrightarrow> y < 16"
proof -
  obtain lo hi where r: "second_range b = (lo, hi)" by force
  obtain c1 c2 c3 t' where t: "t = c1 # c2 # c3 # t'" "byte_in lo hi c1"
      "byte_in 128 191 c2" "byte_in 128 191 c3"
    using assms r by (auto simp: Let_def split: list.splits if_splits)
  have lh: "128 \<le> lo" "hi \<le> 191" "b = 240 \<Longrightarrow> lo = 144" "b = 244 \<Longrightarrow> hi = 143"
    using r by (auto simp: second_range_def split: if_splits)
  obtain y z w where y: "y < 64" "c1 = byte_of (128 + y)" and z: "z < 64" "c2 = byte_of (128 + z)"
      and w: "w < 64" "c3 = byte_of (128 + w)"
    using cont_byte [OF cont_byte_sub [OF t(2) lh(1,2)]] cont_byte [OF t(3)] cont_byte [OF t(4)] by blast
  show thesis
    using assms(2,3) t y z w lh
    by (intro that [of "b - 240" y z w t']) (auto simp: byte_in_def)
qed

lemma lead2:
  assumes "decode_rune (byte_of b # t) \<noteq> (rune_error, 1)" "194 \<le> b" "b \<le> 223"
  obtains x z t' where "b = 192 + x" "t = byte_of (128 + z) # t'" "2 \<le> x" "x < 32" "z < 64"
proof -
  have r: "second_range b = (128, 191)" using assms by (simp add: second_range_def)
  obtain c1 t' where t: "t = c1 # t'" "byte_in 128 191 c1"
    using assms r by (auto simp: Let_def split: list.splits if_splits)
  obtain z where "z < 64" "c1 = byte_of (128 + z)" using cont_byte t(2) by blast
  then show thesis
    using assms t by (intro that [of "b - 192" z t']) auto
qed

lemma encode_decode_rune:
  assumes "s \<noteq> []" "decode_rune s \<noteq> (rune_error, 1)"
  shows "encode_rune (fst (decode_rune s)) = take (snd (decode_rune s)) s
    \<and> scalar (fst (decode_rune s))"
proof -
  obtain c t where c: "s = c # t" using assms(1) by (cases s) auto
  define b where "b = byte_val c"
  have s: "s = byte_of b # t" by (simp add: b_def c)
  consider "b < 128" | "194 \<le> b" "b \<le> 223" | "224 \<le> b" "b \<le> 239" | "240 \<le> b" "b \<le> 244"
    using assms(2) byte_val_less [of c]
    by (cases "b < 128"; cases "194 \<le> b \<and> b \<le> 223"; cases "224 \<le> b \<and> b \<le> 239";
        cases "240 \<le> b \<and> b \<le> 244") (auto simp: c Let_def split: prod.splits simp flip: b_def)
  then show ?thesis
  proof cases
    case 1
    then show ?thesis
      by (simp add: s Let_def encode_rune_def encode_scalar_def scalar_def split: prod.split)
  next
    case 2
    from lead2 [OF assms(2) [unfolded s] this] obtain x z t' where
      e: "b = 192 + x" "t = byte_of (128 + z) # t'" and l: "2 \<le> x" "x < 32" "z < 64" .
    have "decode_rune s = (x * 64 + z, 2)"
      using l by (simp add: s e Let_def second_range_def byte_in_def lead_mods)
    then show ?thesis using encode_decode2 [OF l] by (simp add: s e)
  next
    case 3
    from lead3 [OF assms(2) [unfolded s] this] obtain x y z t' where
      e: "b = 224 + x" "t = byte_of (128 + y) # byte_of (128 + z) # t'" and
      l: "x < 16" "y < 64" "z < 64" "x = 0 \<longrightarrow> 32 \<le> y" "x = 13 \<longrightarrow> y < 32" .
    show ?thesis
      unfolding s e decode_encode3 [OF l] using encode_decode3 [OF l] by simp
  next
    case 4
    from lead4 [OF assms(2) [unfolded s] this] obtain x y z w t' where
      e: "b = 240 + x" "t = byte_of (128 + y) # byte_of (128 + z) # byte_of (128 + w) # t'" and
      l: "x < 5" "y < 64" "z < 64" "w < 64" "x = 0 \<longrightarrow> 16 \<le> y" "x = 4 \<longrightarrow> y < 16" .
    show ?thesis
      unfolding s e decode_encode4 [OF l] using encode_decode4 [OF l] by simp
  qed
qed

lemma utf8_valid_runes:
  "utf8_valid s \<Longrightarrow> encode_runes (runes s) = s \<and> list_all scalar (runes s)"
proof (induction s rule: utf8_valid.induct)
  case (1 s)
  show ?case
  proof (cases "s = []")
    case False
    then have d: "decode_rune s \<noteq> (rune_error, 1)" "utf8_valid (drop (snd (decode_rune s)) s)"
      using "1.prems" by (simp_all add: utf8_valid.simps [of s])
    with False "1.IH" encode_decode_rune [OF False d(1)] show ?thesis
      by (simp add: runes.simps [of s])
  qed simp
qed

lemma utf8_valid_encode: "list_all scalar rs \<Longrightarrow> utf8_valid (encode_runes rs)"
proof (induction rs)
  case (Cons r rs)
  then have d: "decode_rune (encode_rune r @ encode_runes rs) = (r, length (encode_rune r))"
    using decode_encode_scalar by (simp add: encode_rune_def)
  have "r = rune_error \<Longrightarrow> length (encode_rune r) = 3"
    by (simp add: encode_rune_def encode_scalar_def rune_error_def scalar_def)
  then show ?case
    using Cons d by (subst utf8_valid.simps) auto
qed (simp add: utf8_valid.simps)

text \<open>Plain ASCII is its own rune sequence.\<close>

definition ascii :: "string \<Rightarrow> bool" where
  "ascii s \<longleftrightarrow> list_all (\<lambda>c. byte_val c < 128) s"

lemma ascii_simps [simp]:
  "ascii []" "ascii (c # s) \<longleftrightarrow> byte_val c < 128 \<and> ascii s" "ascii (s @ t) \<longleftrightarrow> ascii s \<and> ascii t"
  by (simp_all add: ascii_def)

lemma decode_ascii [simp]: "byte_val c < 128 \<Longrightarrow> decode_rune (c # s) = (byte_val c, 1)"
  by (simp add: Let_def split: prod.split)

lemma encode_ascii [simp]: "n < 128 \<Longrightarrow> encode_rune n = [byte_of n]"
  by (simp add: encode_rune_def encode_scalar_def scalar_def)

lemma runes_ascii: "ascii s \<Longrightarrow> runes s = map byte_val s"
  by (induction s) (simp_all add: runes.simps)

lemma utf8_valid_ascii: "ascii s \<Longrightarrow> utf8_valid s"
  by (induction s) (simp_all add: utf8_valid.simps rune_error_def)

end
