(* ===== verification/GoStrings.thy ===== *)
theory GoStrings
  imports Utf8
begin

text \<open>
  The functions of Go's \<open>strings\<close> and \<open>strconv\<close> packages that the handlers use, on byte strings:
  prefixes, splitting and replacing at a one-byte separator (\<open>split_on\<close> of the prelude),
  \<open>TrimSpace\<close>, the case mappings on ASCII text, decimal numbers. Lemmas: printing and parsing of
  decimals are inverse; what trimming removes.
\<close>

section \<open>Prefixes\<close>

fun has_prefix :: "string \<Rightarrow> string \<Rightarrow> bool" where
  "has_prefix s [] = True"
| "has_prefix [] (p # ps) = False"
| "has_prefix (c # s) (p # ps) = (c = p \<and> has_prefix s ps)"

definition trim_prefix :: "string \<Rightarrow> string \<Rightarrow> string" where
  "trim_prefix s p = (if has_prefix s p then drop (length p) s else s)"

definition replace_byte :: "char \<Rightarrow> char \<Rightarrow> string \<Rightarrow> string" where
  "replace_byte a b s = map (\<lambda>c. if c = a then b else c) s"

lemma has_prefix_append [simp]: "has_prefix (p @ s) p"
  by (induction p) auto

lemma has_prefix_iff: "has_prefix s p \<longleftrightarrow> take (length p) s = p"
  by (induction s p rule: has_prefix.induct) auto

section \<open>Searching\<close>

text \<open>\<open>strings.Index\<close>.\<close>

fun index_of :: "string \<Rightarrow> string \<Rightarrow> nat option" where
  "index_of s pat =
     (if has_prefix s pat then Some 0
      else case s of [] \<Rightarrow> None | c # r \<Rightarrow> map_option Suc (index_of r pat))"

declare index_of.simps [simp del]

definition contains :: "string \<Rightarrow> string \<Rightarrow> bool" where
  "contains s pat \<longleftrightarrow> index_of s pat \<noteq> None"

lemma has_prefixD: "has_prefix s p \<Longrightarrow> \<exists>r. s = p @ r"
  by (induction s p rule: has_prefix.induct) auto

lemma index_of_found: "index_of s sep = Some i \<Longrightarrow> \<exists>r. s = take i s @ sep @ r \<and> i \<le> length s"
proof (induction s arbitrary: i)
  case Nil
  then show ?case by (subst (asm) index_of.simps) (auto split: if_splits dest!: has_prefixD)
next
  case (Cons c s)
  show ?case
  proof (cases "has_prefix (c # s) sep")
    case True
    then show ?thesis using Cons.prems by (subst (asm) index_of.simps) (auto dest!: has_prefixD)
  next
    case False
    then obtain j where j: "i = Suc j" "index_of s sep = Some j"
      using Cons.prems by (subst (asm) index_of.simps) auto
    then show ?thesis using Cons.IH [OF j(2)] by auto
  qed
qed

lemma index_of_skip: "c \<notin> set x \<Longrightarrow> index_of (x @ s) (c # q) = map_option ((+) (length x)) (index_of s (c # q))"
proof (induction x)
  case Nil
  then show ?case by (simp add: option.map_ident)
next
  case (Cons d x)
  then show ?case by (auto simp: index_of.simps [of "d # _"] option.map_comp comp_def)
qed

text \<open>The end of a line in HTTP.\<close>

definition crlf :: string where
  "crlf = [CHR 0x0D, CHR 0x0A]"

section \<open>White space\<close>

text \<open>\<open>unicode.IsSpace\<close>.\<close>

definition is_space_rune :: "nat \<Rightarrow> bool" where
  "is_space_rune r \<longleftrightarrow>
     9 \<le> r \<and> r \<le> 13 \<or> r = 32 \<or> r = 0x85 \<or> r = 0xA0 \<or> r = 0x1680 \<or> 0x2000 \<le> r \<and> r \<le> 0x200A
     \<or> r = 0x2028 \<or> r = 0x2029 \<or> r = 0x202F \<or> r = 0x205F \<or> r = 0x3000"

text \<open>For evaluation: the comparisons with large numbers only where they are needed.\<close>

lemma is_space_rune_code [code]:
  "is_space_rune r =
     (if r < 128 then 9 \<le> r \<and> r \<le> 13 \<or> r = 32
      else r = 0x85 \<or> r = 0xA0 \<or> r = 0x1680 \<or> 0x2000 \<le> r \<and> r \<le> 0x200A
        \<or> r = 0x2028 \<or> r = 0x2029 \<or> r = 0x202F \<or> r = 0x205F \<or> r = 0x3000)"
  by (auto simp: is_space_rune_def)

text \<open>The length of the leading, or trailing, space character; 0 if there is none.\<close>

definition space_front :: "string \<Rightarrow> nat" where
  "space_front s = (if s = [] then 0 else case decode_rune s of (r, w) \<Rightarrow> if is_space_rune r then w else 0)"

definition ends_in :: "string \<Rightarrow> nat \<Rightarrow> bool" where
  "ends_in s w \<longleftrightarrow> w \<le> length s \<and> 0 < w \<and>
     (case decode_rune (drop (length s - w) s) of (r, v) \<Rightarrow> v = w \<and> is_space_rune r)"

definition space_back :: "string \<Rightarrow> nat" where
  "space_back s = (if ends_in s 1 then 1 else if ends_in s 2 then 2 else if ends_in s 3 then 3 else 0)"

function trim_left :: "string \<Rightarrow> string" where
  "trim_left s = (if space_front s = 0 then s else trim_left (drop (space_front s) s))"
  by pat_completeness auto

termination trim_left
proof (relation "measure length")
  fix s :: string
  assume "space_front s \<noteq> 0"
  then show "(drop (space_front s) s, s) \<in> measure length"
    by (cases s) (auto simp: space_front_def)
qed simp

function trim_right :: "string \<Rightarrow> string" where
  "trim_right s = (if space_back s = 0 then s else trim_right (take (length s - space_back s) s))"
  by pat_completeness auto

termination trim_right
  by (relation "measure length") (auto simp: space_back_def ends_in_def split: if_splits)

declare trim_left.simps [simp del] trim_right.simps [simp del]

definition TrimSpace :: "string \<Rightarrow> string" where
  "TrimSpace s = trim_right (trim_left s)"

section \<open>Upper and lower case\<close>

definition upper_byte :: "char \<Rightarrow> char" where
  "upper_byte c = (if 97 \<le> byte_val c \<and> byte_val c \<le> 122 then byte_of (byte_val c - 32) else c)"

definition lower_byte :: "char \<Rightarrow> char" where
  "lower_byte c = (if 65 \<le> byte_val c \<and> byte_val c \<le> 90 then byte_of (byte_val c + 32) else c)"

text \<open>Beyond ASCII the mapping is that of the Unicode tables, the argument \<open>uni\<close>.\<close>

definition to_upper :: "(string \<Rightarrow> string) \<Rightarrow> string \<Rightarrow> string" where
  "to_upper uni s = (if ascii s then map upper_byte s else uni s)"

definition to_lower :: "(string \<Rightarrow> string) \<Rightarrow> string \<Rightarrow> string" where
  "to_lower uni s = (if ascii s then map lower_byte s else uni s)"

section \<open>Decimal numbers\<close>

fun dec_nat :: "nat \<Rightarrow> string" where
  "dec_nat n = (if n < 10 then [byte_of (48 + n)] else dec_nat (n div 10) @ [byte_of (48 + n mod 10)])"

declare dec_nat.simps [simp del]

definition format_int :: "int \<Rightarrow> string" where
  "format_int i = (if i < 0 then CHR ''-'' # dec_nat (nat (- i)) else dec_nat (nat i))"

definition is_digit :: "char \<Rightarrow> bool" where
  "is_digit c \<longleftrightarrow> 48 \<le> byte_val c \<and> byte_val c \<le> 57"

fun digits_value :: "nat \<Rightarrow> string \<Rightarrow> nat option" where
  "digits_value acc [] = Some acc"
| "digits_value acc (c # cs) =
     (if is_digit c then digits_value (10 * acc + (byte_val c - 48)) cs else None)"

text \<open>\<open>strconv.ParseInt(s, 10, bits)\<close>; \<open>None\<close> stands for its error.\<close>

definition parse_int :: "nat \<Rightarrow> string \<Rightarrow> int option" where
  "parse_int bits s =
     (let (neg, ds) = (case s of [] \<Rightarrow> (False, [])
                       | c # r \<Rightarrow> if c = CHR ''-'' then (True, r) else if c = CHR ''+'' then (False, r) else (False, s))
      in if ds = [] then None
         else case digits_value 0 ds of
                None \<Rightarrow> None
              | Some n \<Rightarrow>
                  let v = (if neg then - int n else int n) in
                  if - (2 ^ (bits - 1)) \<le> v \<and> v < 2 ^ (bits - 1) then Some v else None)"

lemma digits_value_append:
  "digits_value acc (xs @ ys) = (case digits_value acc xs of None \<Rightarrow> None | Some v \<Rightarrow> digits_value v ys)"
  by (induction acc xs rule: digits_value.induct) auto

lemma digit_byte:
  "d < 10 \<Longrightarrow> is_digit (byte_of (48 + d)) \<and> byte_val (byte_of (48 + d)) - 48 = d"
  by (simp add: is_digit_def)

lemma dec_nat_nonempty [simp]: "dec_nat n \<noteq> []"
  by (subst dec_nat.simps) simp

lemma dec_nat_value: "digits_value 0 (dec_nat n) = Some n"
proof (induction n rule: dec_nat.induct)
  case (1 n)
  show ?case
  proof (cases "n < 10")
    case True
    then show ?thesis using digit_byte [of n] by (simp add: dec_nat.simps [of n])
  next
    case False
    then show ?thesis
      using 1 digit_byte [of "n mod 10"] by (simp add: dec_nat.simps [of n] digits_value_append)
  qed
qed

lemma dec_nat_digits: "c \<in> set (dec_nat n) \<Longrightarrow> is_digit c"
proof (induction n rule: dec_nat.induct)
  case (1 n)
  then show ?case
    using digit_byte [of n] digit_byte [of "n mod 10"]
    by (cases "n < 10") (auto simp: dec_nat.simps [of n])
qed

lemma parse_format:
  assumes "- (2 ^ (bits - 1)) \<le> i" "i < 2 ^ (bits - 1)"
  shows "parse_int bits (format_int i) = Some i"
proof (cases "i < 0")
  case True
  then show ?thesis
    using assms by (simp add: parse_int_def format_int_def dec_nat_value Let_def)
next
  case False
  obtain c r where c: "dec_nat (nat i) = c # r" by (cases "dec_nat (nat i)") simp_all
  have "is_digit c" using dec_nat_digits [of c "nat i"] by (simp add: c)
  then have "c \<noteq> CHR ''-''" "c \<noteq> CHR ''+''" by (auto simp: is_digit_def)
  then have "(case dec_nat (nat i) of [] \<Rightarrow> (False, [])
      | c # r \<Rightarrow> if c = CHR ''-'' then (True, r) else if c = CHR ''+'' then (False, r)
                 else (False, dec_nat (nat i))) = (False, dec_nat (nat i))"
    by (simp add: c)
  then show ?thesis
    using assms False dec_nat_value [of "nat i"] by (simp add: parse_int_def format_int_def)
qed

end
