(* ===== verification/Publish.thy ===== *)
theory Publish
  imports Subscribe GoStrings
begin

text \<open>
  Publishing (\<open>iot/publish.go\<close>): \<open>processPublish\<close> for a packet from below, \<open>processPublishDown\<close>
  for one from above, and the commands of a billing channel (\<open>iot/billing-command.go\<close>). Lemmas:
  who gets a publish and who does not; where it goes upstream; what happens to closed contacts.
\<close>

section \<open>serveBillingCommand\<close>

text \<open>The bytes of U+1F513, an open lock, that mark a command of the help text.\<close>

definition open_lock :: string where
  "open_lock = [CHR 0xF0, CHR 0x9F, CHR 0x94, CHR 0x93]"

definition nl :: string where
  "nl = [CHR 0x0A]"

definition httpCommand :: "string \<Rightarrow> string" where
  "httpCommand command =
     (let getline = hd (split_on (CHR 0x0A) command);
          getparts = split_on (CHR '' '') getline
      in if length getparts \<noteq> 3 then ''expected 3 parts to http request ''
         else let c1 = hd (split_on (CHR ''?'') (getparts ! 1));
                  c2 = trim_prefix c1 ''/''
              in replace_byte (CHR ''/'') (CHR '' '') c2)"

definition billingHelp :: string where
  "billingHelp =
     ''[get stats] current usage numbers'' @ open_lock @ nl @
     ''[get max] maximum allowed numbers'' @ open_lock @ nl @
     ''[get pubk] device public key'' @ open_lock @ nl @
     ''[get admin hint] the first chars of the admin public keys'' @ open_lock @ nl @
     ''[about] info on this device'' @ nl @
     ''[help] lists all commands'' @ open_lock @ nl"

definition billingReply :: "env \<Rightarrow> BillingAccumulator \<Rightarrow> u32 \<Rightarrow> string \<Rightarrow> string" where
  "billingReply e ba seconds command =
     (if command = ''get max'' then showStats e (Max ba)
      else if command = ''get stats'' then showStats e (GetStats ba seconds zero_stats)
      else if command = ''about'' then ''billing_v.0.1.2''
      else if command = ''get pubk'' then ''-none''
      else if command = ''get admin hint'' then ''-none''
      else billingHelp)"

definition httpReply :: "string \<Rightarrow> string" where
  "httpReply reply =
     ''HTTP/1.1 200 OK'' @ crlf @ ''Content-Length: '' @ format_int (int (length reply)) @ crlf @
     ''Content-Type: text/plain'' @ crlf @ ''Access-Control-Allow-Origin: *'' @ crlf @
     ''access-control-expose-headers: nonc'' @ crlf @ ''Connection: Closed'' @ crlf @ crlf @ reply"

definition serveBillingCommand :: "env \<Rightarrow> AddressUnion \<Rightarrow> AddressUnion \<Rightarrow> bytes \<Rightarrow> options \<Rightarrow>
    BillingAccumulator \<Rightarrow> u32 \<Rightarrow> packet" where
  "serveBillingCommand e addr src payload opts ba seconds =
     (let isHttp = has_prefix payload ''GET /'';
          command = (if isHttp then httpCommand payload else payload);
          reply = billingReply e ba seconds command
      in Send src addr (if isHttp then httpReply reply else reply) (CopyOptions [] opts))"

section \<open>processPublish\<close>

text \<open>A publish to a billing topic: usage to add, or a command to serve; only an aide handles them.\<close>

definition publishBilling :: "looker \<Rightarrow> env \<Rightarrow> AddressUnion \<Rightarrow> AddressUnion \<Rightarrow> bytes \<Rightarrow> options \<Rightarrow>
    BillingAccumulator \<Rightarrow> (BillingAccumulator \<times> effect list) outcome" where
  "publishBilling me e addr src payload opts ba =
     (let (billstr, hasStats) = GetOption opts ''add-stats'' in
      if hasStats \<and> \<not> isGuru me then
        let (deltatStr, ok) = GetOption opts ''stats-deltat'';
            deltat = (if ok then (case parse_int 32 deltatStr of Some v \<Rightarrow> v | None \<Rightarrow> 10) else 10)
        in (case parseStats e billstr of
              None \<Rightarrow> Ret (ba, [])
            | Some msg \<Rightarrow> bind_out (AddUsage ba msg (timeNow e) deltat) (\<lambda>ba'. Ret (ba', [])))
      else if \<not> isGuru me \<and> \<not> hasStats
      then Ret (ba, [ToAide (serveBillingCommand e addr src payload opts ba (timeNow e))])
      else Ret (ba, []))"

text \<open>What the loop over the watchers does with one of them: the writes, and the contact if it is
  to be dropped.\<close>

definition publishOne :: "env \<Rightarrow> packet \<Rightarrow> contact \<Rightarrow> HalfHash \<times> watcherItem \<Rightarrow> effect list \<times> contact list" where
  "publishOne e p pubKey ki =
     (case ki of (key, item) \<Rightarrow>
        let ci = contactInterface item in
        if pub2self item then
          (if \<not> checkForBadContact e ci then ([Down ci p], []) else ([], []))
        else if key \<noteq> pubKey then
          (if \<not> checkForBadContact e ci then ([Down ci p], []) else ([], [ci]))
        else ([], []))"

definition publishWatchers :: "env \<Rightarrow> packet \<Rightarrow> contact \<Rightarrow> WatchedTopic \<Rightarrow> WatchedTopic \<times> effect list" where
  "publishWatchers e p pubKey wt =
     (let rs = map (publishOne e p pubKey) (wtItems wt);
          badContacts = concat (map snd rs)
      in (dropContacts badContacts wt, concat (map fst rs)))"

definition processPublish :: "looker \<Rightarrow> env \<Rightarrow> contact \<Rightarrow> HashType \<Rightarrow> AddressUnion \<Rightarrow> AddressUnion \<Rightarrow> bytes \<Rightarrow>
    options \<Rightarrow> topics \<Rightarrow> handled" where
  "processPublish me e ss h addr src payload opts s =
     (let p = Send addr src payload opts;
          up = (if isGuru me then Ret [] else pushUp me e p h)
      in case getWatcher s h of
           None \<Rightarrow> bind_out up (\<lambda>effs. Ret (s, effs))
         | Some wt \<Rightarrow>
             (case IsBilling wt of
                Some ba \<Rightarrow>
                  bind_out (publishBilling me e addr src payload opts ba) (\<lambda>(ba', effs).
                  bind_out up (\<lambda>ups.
                    Ret (setWatcher s h (Some (wt\<lparr>Bill := Some ba', Expires := 60 * 60 + timeNow e\<rparr>)),
                         effs @ ups)))
              | None \<Rightarrow>
                  let (wt', effs) = publishWatchers e p ss (wt\<lparr>Expires := 25 * 60 + timeNow e\<rparr>) in
                  bind_out up (\<lambda>ups. Ret (setWatcher s h (Some wt'), effs @ ups))))"

section \<open>processPublishDown\<close>

definition processPublishDown :: "looker \<Rightarrow> env \<Rightarrow> HashType \<Rightarrow> AddressUnion \<Rightarrow> AddressUnion \<Rightarrow> bytes \<Rightarrow> options \<Rightarrow>
    topics \<Rightarrow> handled" where
  "processPublishDown me e h addr src payload opts s =
     (case getWatcher s h of
        None \<Rightarrow>
          bind_out (if isGuru me then Ret []
                    else pushUp me e (Unsubscribe (EnsureAddressIsBinary addr) []) h)
            (\<lambda>effs. Ret (s, effs))
      | Some wt \<Rightarrow>
          let wt' = wt\<lparr>Expires := 25 * 60 + timeNow e\<rparr> in
          Ret (setWatcher s h (Some wt'), downToWatchers e (Send addr src payload opts) wt'))"

section \<open>The handlers' contract\<close>

definition publishStep :: "looker \<Rightarrow> env \<Rightarrow> contact \<Rightarrow> HashType \<Rightarrow> AddressUnion \<Rightarrow> AddressUnion \<Rightarrow> bytes \<Rightarrow> options \<Rightarrow>
    WatchedTopic option \<Rightarrow> (WatchedTopic option \<times> effect list) outcome" where
  "publishStep me e ss h addr src payload opts w =
     (let up = (if isGuru me then Ret [] else pushUp me e (Send addr src payload opts) h) in
      case w of
        None \<Rightarrow> bind_out up (\<lambda>ups. Ret (None, ups))
      | Some wt \<Rightarrow>
          (case IsBilling wt of
             Some ba \<Rightarrow>
               bind_out (publishBilling me e addr src payload opts ba) (\<lambda>(ba', effs).
               bind_out up (\<lambda>ups.
                 Ret (Some (wt\<lparr>Bill := Some ba', Expires := 60 * 60 + timeNow e\<rparr>), effs @ ups)))
           | None \<Rightarrow>
               let r = publishWatchers e (Send addr src payload opts) ss
                         (wt\<lparr>Expires := 25 * 60 + timeNow e\<rparr>) in
               bind_out up (\<lambda>ups. Ret (Some (fst r), snd r @ ups))))"

lemma processPublish_step:
  assumes "om_ok s"
  shows "processPublish me e ss h addr src payload opts s
    = topic_step h (publishStep me e ss h addr src payload opts) s"
proof (cases "getWatcher s h")
  case None
  then show ?thesis
    using assms by (simp add: processPublish_def topic_step_def publishStep_def Let_def bind_out_assoc set_same)
next
  case (Some wt)
  obtain wt' effs where p: "publishWatchers e (Send addr src payload opts) ss
      (wt\<lparr>Expires := 25 * 60 + timeNow e\<rparr>) = (wt', effs)" by fastforce
  show ?thesis
  proof (cases "IsBilling wt")
    case None
    then show ?thesis
      using Some p by (simp add: processPublish_def topic_step_def publishStep_def Let_def bind_out_assoc)
  next
    case (Some ba)
    then show ?thesis
      using \<open>getWatcher s h = Some wt\<close>
      by (cases "publishBilling me e addr src payload opts ba")
         (auto simp: processPublish_def topic_step_def publishStep_def Let_def bind_out_assoc)
  qed
qed

lemma publishWatchers_ok: "topic_ok h wt \<Longrightarrow> topic_ok h (fst (publishWatchers e p c wt))"
  by (simp add: publishWatchers_def Let_def dropContacts_ok)

interpretation pub: topic_handler "processPublish me e ss h addr src payload opts" h
  for me e ss h addr src payload opts
proof (rule topic_handlerI [OF processPublish_step])
  fix w wt' effs
  assume r: "publishStep me e ss h addr src payload opts w = Ret (Some wt', effs)"
    and ok: "\<And>wt. w = Some wt \<Longrightarrow> topic_ok h wt"
  obtain wt where w: "w = Some wt"
    using r by (cases w) (auto simp: publishStep_def bind_out_Ret)
  have up: "topic_ok h (wt\<lparr>Bill := b, Expires := t\<rparr>)" "topic_ok h (wt\<lparr>Expires := t\<rparr>)" for b t
    using ok [OF w] by (simp_all add: topic_ok_def)
  show "topic_ok h wt'"
    using r up publishWatchers_ok [OF up(2)]
    by (auto simp: w publishStep_def Let_def bind_out_Ret split: option.splits)
qed assumption

definition publishDownStep :: "looker \<Rightarrow> env \<Rightarrow> HashType \<Rightarrow> AddressUnion \<Rightarrow> AddressUnion \<Rightarrow> bytes \<Rightarrow> options \<Rightarrow>
    WatchedTopic option \<Rightarrow> (WatchedTopic option \<times> effect list) outcome" where
  "publishDownStep me e h addr src payload opts w =
     (case w of
        None \<Rightarrow> bind_out (if isGuru me then Ret []
                   else pushUp me e (Unsubscribe (EnsureAddressIsBinary addr) []) h) (\<lambda>effs. Ret (None, effs))
      | Some wt \<Rightarrow>
          let wt' = wt\<lparr>Expires := 25 * 60 + timeNow e\<rparr> in
          Ret (Some wt', downToWatchers e (Send addr src payload opts) wt'))"

lemma processPublishDown_step:
  "om_ok s \<Longrightarrow> processPublishDown me e h addr src payload opts s
    = topic_step h (publishDownStep me e h addr src payload opts) s"
  by (simp add: processPublishDown_def topic_step_def publishDownStep_def Let_def bind_out_assoc set_same
      split: option.split)

interpretation pubdown: topic_handler "processPublishDown me e h addr src payload opts" h
  for me e h addr src payload opts
  by (rule topic_handlerI [OF processPublishDown_step])
     (auto simp: publishDownStep_def Let_def bind_out_Ret topic_ok_def split: option.splits)

section \<open>Who gets a publish\<close>

text \<open>The watchers that a publish by \<open>c\<close> is written to: those that are open, and are not \<open>c\<close>
  itself unless they asked for their own packets.\<close>

definition receivers :: "env \<Rightarrow> contact \<Rightarrow> WatchedTopic \<Rightarrow> contact list" where
  "receivers e c wt =
     map fst (filter (\<lambda>(k, item). \<not> isClosed e k \<and> (pub2self item \<or> k \<noteq> c)) (thetree wt))"

lemma publishOne_fst:
  "contactInterface i = k \<Longrightarrow> fst (publishOne e p c (k, i))
    = (if \<not> isClosed e k \<and> (pub2self i \<or> k \<noteq> c) then [Down k p] else [])"
  by (simp add: publishOne_def checkForBadContact_def Let_def)

lemma publishOne_snd:
  "contactInterface i = k \<Longrightarrow> snd (publishOne e p c (k, i))
    = (if isClosed e k \<and> \<not> pub2self i \<and> k \<noteq> c then [k] else [])"
  by (simp add: publishOne_def checkForBadContact_def Let_def)

lemma publish_writes:
  assumes "topic_ok h wt"
  shows "snd (publishWatchers e p c wt) = map (\<lambda>k. Down k p) (receivers e c wt)"
proof -
  have "concat (map fst (map (publishOne e p c) items))
      = map (\<lambda>k. Down k p) (map fst (filter (\<lambda>(k, item). \<not> isClosed e k \<and> (pub2self item \<or> k \<noteq> c)) items))"
    if "\<forall>(k, i) \<in> set items. contactInterface i = k" for items
    using that by (induction items) (auto simp: publishOne_fst)
  then show ?thesis
    using assms by (simp add: publishWatchers_def Let_def wtItems_def receivers_def topic_ok_def)
qed

text \<open>A closed watcher is dropped, unless it is the publisher or asked for its own packets.\<close>

lemma publish_keeps:
  assumes "topic_ok h wt"
  shows "thetree (fst (publishWatchers e p c wt))
    = filter (\<lambda>(k, item). \<not> isClosed e k \<or> pub2self item \<or> k = c) (thetree wt)"
proof -
  have o: "om_ok (thetree wt)" and ci: "\<forall>(k, i) \<in> set (thetree wt). contactInterface i = k"
    using assms by (simp_all add: topic_ok_def)
  define bad where "bad = concat (map snd (map (publishOne e p c) (thetree wt)))"
  have "set (concat (map snd (map (publishOne e p c) items)))
      = {k. \<exists>i. (k, i) \<in> set items \<and> isClosed e k \<and> \<not> pub2self i \<and> k \<noteq> c}"
    if "\<forall>(k, i) \<in> set items. contactInterface i = k" for items
    using that by (induction items) (auto simp: publishOne_snd)
  then have b: "set bad = {k. \<exists>i. (k, i) \<in> set (thetree wt) \<and> isClosed e k \<and> \<not> pub2self i \<and> k \<noteq> c}"
    using ci by (simp add: bad_def)
  have "filter (\<lambda>kv. fst kv \<notin> set bad) (thetree wt)
      = filter (\<lambda>(k, item). \<not> isClosed e k \<or> pub2self item \<or> k = c) (thetree wt)"
  proof (rule filter_cong [OF refl])
    fix kv
    assume m: "kv \<in> set (thetree wt)"
    obtain k i where kv: "kv = (k, i)" by (cases kv)
    have uniq: "(k, j) \<in> set (thetree wt) \<longleftrightarrow> j = i" for j
      using om_mem_get [OF o, of k i] om_mem_get [OF o, of k j] m kv by auto
    have "k \<in> set bad \<longleftrightarrow> isClosed e k \<and> \<not> pub2self i \<and> k \<noteq> c"
      unfolding b by (simp add: uniq)
    then show "(fst kv \<notin> set bad) = (case kv of (k, item) \<Rightarrow> \<not> isClosed e k \<or> pub2self item \<or> k = c)"
      by (simp add: kv)
  qed
  then show ?thesis
    unfolding publishWatchers_def Let_def wtItems_def fst_conv dropContacts_tree [OF o] bad_def .
qed

lemma publish_result:
  assumes "table_ok P s" "getWatcher s h = Some wt" "IsBilling wt = None" "isGuru me"
  shows "\<exists>s' wt'. processPublish me e c h addr src payload opts s
      = Ret (s', map (\<lambda>k. Down k (Send addr src payload opts)) (receivers e c wt))
    \<and> getWatcher s' h = Some wt'
    \<and> thetree wt' = filter (\<lambda>(k, item). \<not> isClosed e k \<or> pub2self item \<or> k = c) (thetree wt)
    \<and> Expires wt' = 25 * 60 + timeNow e"
proof -
  define w0 where "w0 = wt\<lparr>Expires := 25 * 60 + timeNow e\<rparr>"
  have o: "om_ok s" "topic_ok h w0"
    using assms(1) table_ok_get [OF assms(1,2)] by (auto simp: w0_def table_ok_def topic_ok_def)
  define r where "r = publishWatchers e (Send addr src payload opts) c w0"
  have "receivers e c w0 = receivers e c wt" "thetree w0 = thetree wt"
    by (simp_all add: receivers_def w0_def)
  moreover have "Expires (fst r) = 25 * 60 + timeNow e"
    by (simp add: r_def publishWatchers_def Let_def w0_def)
  moreover have "processPublish me e c h addr src payload opts s
      = Ret (setWatcher s h (Some (fst r)), snd r)"
    using assms(2-4) by (simp add: processPublish_step [OF o(1)] topic_step_def publishStep_def Let_def
        w0_def r_def)
  ultimately show ?thesis
    using publish_writes [OF o(2), of e "Send addr src payload opts" c]
      publish_keeps [OF o(2), of e "Send addr src payload opts" c] o(1)
    by (auto simp: r_def getWatcher_set)
qed

end
