(* ===== verification/BadJson.thy ===== *)
theory BadJson
  imports GoEncoding Utf8
begin

text \<open>
  The parser of the text protocol (\<open>badjson/parse.go\<close>): \<open>Chop\<close> cuts a line into segments, which
  are texts, quoted texts, hex and base64 byte arrays and bracketed lists; \<open>Raw\<close> and \<open>GetQuoted\<close>
  give a segment's value and its JSON form. A segment list is a HOL list, the empty one standing
  for a nil segment. The scanner's position is the rest of the text: at its end \<open>r\<close> is the closer.
  A rune of width 1 that is U+FFFD indexes a table of 256 entries and panics.
\<close>

section \<open>Tables\<close>

definition encodeStd :: string where
  "encodeStd = ''ABCDEFGHIJKLMNOPQRSTUVWXYZabcdefghijklmnopqrstuvwxyz0123456789+/-_''"

definition B64DecodeMap :: "nat list" where
  "B64DecodeMap =
     fold (\<lambda>(i, c) m. m[byte_val c := i]) (enumerate 0 encodeStd) (replicate 256 0xFF)"

text \<open>Both loops run to their bound inclusively.\<close>

definition HexMap :: "nat list" where
  "HexMap =
     fold (\<lambda>i m. m[97 + i - 10 := i, 65 + i - 10 := i]) [10..<17]
       (fold (\<lambda>i m. m[48 + i := i]) [0..<11] (replicate 256 0xFF))"

section \<open>Segments\<close>

datatype segment =
    RuneArray (raInput: string) (theQuote: nat) (hadQuoteOrSlash: bool)
  | Base64Bytes (b64Input: string)
  | HexBytes (hexInput: string)
  | Parent (children: "segment list") (wasArray: bool)

datatype bad_error = LongerThan16k | Recursed16Deep

type_synonym chopped = "(segment list \<times> string \<times> bad_error option) outcome"

abbreviation (input) qDouble :: nat where "qDouble \<equiv> 34"
abbreviation (input) qSingle :: nat where "qSingle \<equiv> 39"
abbreviation (input) slash :: nat where "slash \<equiv> 92"

section \<open>Scanning\<close>

definition cur :: "nat \<Rightarrow> string \<Rightarrow> nat" where
  "cur closer t = (if t = [] then closer else fst (decode_rune t))"

text \<open>\<open>pop\<close>: on to the next rune; done when nothing is left.\<close>

definition adv :: "string \<Rightarrow> string" where
  "adv t = drop (snd (decode_rune t)) t"

lemma adv_shorter: "t \<noteq> [] \<Longrightarrow> length (adv t) < length t"
  using decode_rune_width [of t] by (simp add: adv_def)

lemma adv_le: "length (adv t) \<le> length t"
  by (simp add: adv_def)

function skipWhile :: "(nat \<Rightarrow> bool) \<Rightarrow> string \<Rightarrow> string" where
  "skipWhile P t = (if t = [] then [] else if P (fst (decode_rune t)) then skipWhile P (adv t) else t)"
  by pat_completeness auto
termination by (relation "measure (length o snd)") (auto dest: adv_shorter)

declare skipWhile.simps [simp del]

function scanTable :: "nat list \<Rightarrow> string \<Rightarrow> string outcome" where
  "scanTable tab t =
     (if t = [] then Ret []
      else let (r, w) = decode_rune t in
        if w \<noteq> 1 then Ret t
        else if length tab \<le> r then Panic
        else if tab ! r \<noteq> 0xFF then scanTable tab (adv t) else Ret t)"
  by pat_completeness auto
termination by (relation "measure (length o snd)") (auto dest: adv_shorter)

declare scanTable.simps [simp del]

text \<open>The inside of a quoted string: what follows it, and whether a slash or double quote was
  met.\<close>

function scanQuote :: "nat \<Rightarrow> string \<Rightarrow> bool \<Rightarrow> string \<times> bool" where
  "scanQuote quote t had =
     (if t = [] then ([], had)
      else let r = fst (decode_rune t) in
        if r = quote then (t, had)
        else if r = slash then
          (if adv t = [] then ([], True) else scanQuote quote (adv (adv t)) True)
        else scanQuote quote (adv t) (had \<or> r = qDouble))"
  by pat_completeness auto
termination
  by (relation "measure (\<lambda>(q, t, h). length t)")
     (auto dest: adv_shorter intro: order_le_less_trans [OF adv_le])

declare scanQuote.simps [simp del]

function scanPlain :: "nat \<Rightarrow> string \<Rightarrow> bool \<Rightarrow> string \<times> bool" where
  "scanPlain closer t had =
     (if t = [] then ([], had)
      else let r = fst (decode_rune t) in
        if r = 32 \<or> r = 58 \<or> r = 44 \<or> r = closer then (t, had)
        else scanPlain closer (adv t) (had \<or> r = qDouble \<or> r = slash))"
  by pat_completeness auto
termination
  by (relation "measure (\<lambda>(q, t, h). length t)") (auto dest: adv_shorter)

declare scanPlain.simps [simp del]

text \<open>\<open>str[start:i]\<close> when the text from \<open>start\<close> is \<open>t\<close> and the text from \<open>i\<close> is \<open>rest\<close>.\<close>

definition upto_rest :: "string \<Rightarrow> string \<Rightarrow> string" where
  "upto_rest t rest = take (length t - length rest) t"

section \<open>chop\<close>

text \<open>The delimiters between two elements: spaces, one comma or colon, spaces.\<close>

definition passDelimiters :: "string \<Rightarrow> string" where
  "passDelimiters t =
     (let t1 = skipWhile (\<lambda>r. r = 32) t in
      if t1 = [] then []
      else let t2 = (if fst (decode_rune t1) = 44 \<or> fst (decode_rune t1) = 58 then adv t1 else t1) in
        skipWhile (\<lambda>r. r = 32) t2)"

text \<open>One element at a text that is not empty: the segments it adds (none or one), the text where
  the scan goes on, and an error. The child parser returns its segments and what it consumed. After
  a bracketed list \<open>pop\<close> still has the width of the first rune inside the brackets.\<close>

definition chopElement :: "(nat \<Rightarrow> string \<Rightarrow> (segment list \<times> nat \<times> bad_error option) outcome) \<Rightarrow> nat \<Rightarrow> string \<Rightarrow>
    chopped" where
  "chopElement child closer t =
     (let r = fst (decode_rune t); t1 = adv t in
      if r = 36 then
        (if t1 = [] then Ret ([HexBytes []], [], None)
         else bind_out (scanTable HexMap t1) (\<lambda>rest. Ret ([HexBytes (upto_rest t1 rest)], rest, None)))
      else if r = qDouble \<or> r = qSingle then
        (if t1 = [] then Ret ([], [], None)
         else let (rest, had) = scanQuote r t1 False in
           Ret ([RuneArray (upto_rest t1 rest) r had], adv rest, None))
      else if r = 61 then
        (if t1 = [] then Ret ([Base64Bytes ''=''], [], None)
         else bind_out (scanTable B64DecodeMap t1) (\<lambda>rest.
           let rest2 = skipWhile (\<lambda>r. r = 61) rest in
           Ret ([Base64Bytes (upto_rest t1 rest2)], rest2, None)))
      else if r = 123 \<or> r = 91 then
        (if t1 = [] then Ret ([], [], None)
         else bind_out (child (if r = 123 then 125 else 93) t1) (\<lambda>(cs, newi, err).
           case err of
             Some e \<Rightarrow> Ret ([], drop newi t1, Some e)
           | None \<Rightarrow> Ret ([Parent cs (r = 91)], drop (newi + snd (decode_rune t1)) t1, None)))
      else
        let (rest, had) = scanPlain closer t False in
        Ret ([RuneArray (upto_rest t rest) 0 had], rest, None))"

lemma skipWhile_le: "length (skipWhile P t) \<le> length t"
proof (induction P t rule: skipWhile.induct)
  case (1 P t)
  show ?case
  proof (cases "t \<noteq> [] \<and> P (fst (decode_rune t))")
    case True
    then show ?thesis using 1 adv_le [of t] by (simp add: skipWhile.simps [of P t])
  qed (auto simp: skipWhile.simps [of P t])
qed

lemma scanTable_le: "scanTable tab t = Ret rest \<Longrightarrow> length rest \<le> length t"
proof (induction tab t rule: scanTable.induct)
  case (1 tab t)
  obtain r w where d: "decode_rune t = (r, w)" by (cases "decode_rune t")
  show ?case
    using 1(1) [OF _ d [symmetric]] 1(2) adv_le [of t]
    by (auto simp: scanTable.simps [of tab t] d split: if_splits intro: order_trans)
qed

lemma scanQuote_le: "length (fst (scanQuote q t had)) \<le> length t"
proof (induction q t had rule: scanQuote.induct)
  case (1 q t had)
  show ?case
    using 1 adv_le [of t] adv_le [of "adv t"]
    by (auto simp: scanQuote.simps [of q t] Let_def)
qed

lemma scanPlain_le: "length (fst (scanPlain c t had)) \<le> length t"
proof (induction c t had rule: scanPlain.induct)
  case (1 c t had)
  show ?case
    using 1 adv_le [of t] by (auto simp: scanPlain.simps [of c t] Let_def)
qed

lemma scanPlain_less:
  assumes "t \<noteq> []" "fst (decode_rune t) \<notin> {32, 58, 44, closer}"
  shows "length (fst (scanPlain closer t had)) < length t"
proof -
  have "length (fst (scanPlain closer (adv t) h)) \<le> length (adv t)" for h
    by (rule scanPlain_le)
  then show ?thesis
    using assms adv_shorter [OF assms(1)]
    by (auto simp: scanPlain.simps [of closer t] Let_def intro: order_le_less_trans)
qed

text \<open>An element consumes something, unless it is an empty text before a delimiter.\<close>

lemma chopElement_rest:
  assumes e: "chopElement child closer t = Ret (segs, rest, None)" and t: "t \<noteq> []"
  shows "length rest < length t \<or> rest = fst (scanPlain closer t False)"
proof -
  define r t1 where d: "r = fst (decode_rune t)" "t1 = adv t"
  have lt: "length t1 < length t" using adv_shorter [OF t] by (simp add: d)
  have le: "length x \<le> length t1 \<Longrightarrow> length x < length t" for x :: string
    using lt by (rule order_le_less_trans [rotated])
  consider (hex) "r = 36" | (quote) "r \<noteq> 36" "r = qDouble \<or> r = qSingle"
    | (b64) "r = 61" | (paren) "r = 123 \<or> r = 91"
    | (plain) "r \<noteq> 36" "r \<noteq> qDouble" "r \<noteq> qSingle" "r \<noteq> 61" "r \<noteq> 123" "r \<noteq> 91"
    by blast
  then show ?thesis
  proof cases
    case hex
    then have "t1 = [] \<and> rest = [] \<or> scanTable HexMap t1 = Ret rest"
      using e by (auto simp: chopElement_def d [symmetric] bind_out_Ret split: if_splits)
    then show ?thesis using scanTable_le [of HexMap t1 rest] le lt by auto
  next
    case quote
    then have "rest = [] \<or> rest = adv (fst (scanQuote r t1 False))"
      using e by (auto simp: chopElement_def Let_def d [symmetric] split: if_splits prod.splits)
    then have "length rest \<le> length t1"
      using adv_le [of "fst (scanQuote r t1 False)"] scanQuote_le [of r t1 False] by auto
    then show ?thesis using le by blast
  next
    case b64
    then have "rest = [] \<or> (\<exists>u. scanTable B64DecodeMap t1 = Ret u \<and> rest = skipWhile (\<lambda>r. r = 61) u)"
      using e by (auto simp: chopElement_def Let_def d [symmetric] bind_out_Ret split: if_splits)
    then have "length rest \<le> length t1"
      using scanTable_le [of B64DecodeMap t1] skipWhile_le by (auto intro: order_trans)
    then show ?thesis using le by blast
  next
    case paren
    then have "\<exists>n. rest = drop n t1"
      using e by (auto simp: chopElement_def Let_def d [symmetric] bind_out_Ret
          split: if_splits prod.splits option.splits intro: exI [of _ 0])
    then have "length rest \<le> length t1" by auto
    then show ?thesis using le by blast
  next
    case plain
    then show ?thesis
      using e by (auto simp: chopElement_def Let_def d [symmetric] split: prod.splits)
  qed
qed

lemma chopElement_le:
  "chopElement child closer t = Ret (segs, rest, None) \<Longrightarrow> t \<noteq> [] \<Longrightarrow> length rest \<le> length t"
  using chopElement_rest [of child closer t segs rest] scanPlain_le [of closer t False] by auto

lemma chopElement_less:
  "chopElement child closer t = Ret (segs, rest, None) \<Longrightarrow> t \<noteq> [] \<Longrightarrow>
    fst (decode_rune t) \<notin> {32, 58, 44, closer} \<Longrightarrow> length rest < length t"
  using chopElement_rest [of child closer t segs rest] scanPlain_less [of t closer False] by auto

lemma passDelimiters_le: "length (passDelimiters t) \<le> length t"
proof -
  define t1 where "t1 = skipWhile (\<lambda>r. r = 32) t"
  have "length t1 \<le> length t" by (simp add: t1_def skipWhile_le)
  moreover have "length (passDelimiters t) \<le> length t1"
    using skipWhile_le [of "\<lambda>r. r = 32" "adv t1"] skipWhile_le [of "\<lambda>r. r = 32" t1] adv_le [of t1]
    by (auto simp: passDelimiters_def Let_def t1_def [symmetric])
  ultimately show ?thesis by simp
qed

lemma skipWhile_stop: "skipWhile P t \<noteq> [] \<Longrightarrow> \<not> P (fst (decode_rune (skipWhile P t)))"
proof (induction P t rule: skipWhile.induct)
  case (1 P t)
  then show ?case by (auto simp: skipWhile.simps [of P t] split: if_splits)
qed

lemma skipWhile_here: "t \<noteq> [] \<Longrightarrow> \<not> P (fst (decode_rune t)) \<Longrightarrow> skipWhile P t = t"
  by (simp add: skipWhile.simps [of P t])

lemma passDelimiters_moves:
  assumes "passDelimiters t \<noteq> []"
  shows "length (passDelimiters t) < length t
    \<or> fst (decode_rune (passDelimiters t)) \<notin> {32, 44, 58}"
proof -
  define t1 where "t1 = skipWhile (\<lambda>r. r = 32) t"
  have le: "length t1 \<le> length t" by (simp add: t1_def skipWhile_le)
  have ne: "t1 \<noteq> []" using assms by (auto simp: passDelimiters_def Let_def t1_def [symmetric])
  have sp: "fst (decode_rune t1) \<noteq> 32" using skipWhile_stop [of "\<lambda>r. r = 32" t] ne by (simp add: t1_def)
  show ?thesis
  proof (cases "fst (decode_rune t1) = 44 \<or> fst (decode_rune t1) = 58")
    case True
    then have "passDelimiters t = skipWhile (\<lambda>r. r = 32) (adv t1)"
      using ne by (simp add: passDelimiters_def Let_def t1_def [symmetric])
    then have "length (passDelimiters t) \<le> length (adv t1)" by (simp add: skipWhile_le)
    then show ?thesis using adv_shorter [OF ne] le by linarith
  next
    case False
    then have "passDelimiters t = t1"
      using ne sp by (simp add: passDelimiters_def Let_def t1_def [symmetric] skipWhile_here)
    then show ?thesis using False sp by simp
  qed
qed

text \<open>The scanning loop.\<close>

function chopLoop :: "(nat \<Rightarrow> string \<Rightarrow> (segment list \<times> nat \<times> bad_error option) outcome) \<Rightarrow> nat \<Rightarrow> string \<Rightarrow>
    segment list \<Rightarrow> chopped" where
  "chopLoop child closer t front =
     (let t3 = passDelimiters t in
      if t3 = [] then Ret (front, [], None)
      else if fst (decode_rune t3) = closer then Ret (front, t3, None)
      else case chopElement child closer t3 of
             Panic \<Rightarrow> Panic
           | Hang \<Rightarrow> Hang
           | Ret (segs, rest, Some e) \<Rightarrow> Ret (front @ segs, rest, Some e)
           | Ret (segs, rest, None) \<Rightarrow> chopLoop child closer rest (front @ segs))"
  by pat_completeness auto
termination
proof (relation "measure (\<lambda>(child, closer, t, front). length t)")
  fix child closer t front t3 x segs y rest z
  assume t3: "t3 = passDelimiters t" "t3 \<noteq> []" "fst (decode_rune t3) \<noteq> closer"
    and e: "chopElement child closer t3 = Ret x" "(segs, y) = x" "(rest, z) = y" "z = None"
  then have e': "chopElement child closer t3 = Ret (segs, rest, None)" by simp
  have "length rest < length t"
  proof (cases "length t3 < length t")
    case True
    then show ?thesis using chopElement_le [OF e' t3(2)] by simp
  next
    case False
    then have "fst (decode_rune t3) \<notin> {32, 58, 44, closer}"
      using passDelimiters_moves [of t] t3 by auto
    then show ?thesis
      using chopElement_less [OF e' t3(2)] passDelimiters_le [of t] t3(1) by simp
  qed
  then show "((child, closer, rest, front @ segs), (child, closer, t, front))
      \<in> measure (\<lambda>(child, closer, t, front). length t)"
    by simp
qed simp

declare chopLoop.simps [simp del]

text \<open>\<open>chop\<close> at a depth with \<open>left\<close> levels to go: the head of the list, the bytes consumed, an
  error.\<close>

fun chop :: "nat \<Rightarrow> nat \<Rightarrow> string \<Rightarrow> (segment list \<times> nat \<times> bad_error option) outcome" where
  "chop left closer t =
     (if 16 * 1024 < length t then Ret ([], 0, Some LongerThan16k)
      else case left of
        0 \<Rightarrow> Ret ([], 0, Some Recursed16Deep)
      | Suc n \<Rightarrow>
          bind_out (chopLoop (\<lambda>c s. chop n c s) closer t []) (\<lambda>(segs, rest, err).
            Ret (segs, length t - length rest, err)))"

declare chop.simps [simp del]

definition AsParent :: "segment \<Rightarrow> (segment list \<times> bool) option" where
  "AsParent s = (case s of Parent cs arr \<Rightarrow> Some (cs, arr) | _ \<Rightarrow> None)"

definition Chop :: "string \<Rightarrow> (segment list \<times> bad_error option) outcome" where
  "Chop inputLineOfText =
     bind_out (chop 17 rune_error inputLineOfText) (\<lambda>(s, n, err).
       case err of
         Some e \<Rightarrow> Ret (s, Some e)
       | None \<Rightarrow>
           (case s of
              [] \<Rightarrow> Ret ([RuneArray [] 0 False], None)
            | [x] \<Rightarrow> (case AsParent x of
                        Some (cs, arr) \<Rightarrow> if arr \<and> cs \<noteq> [] then Ret (cs, None) else Ret (s, None)
                      | None \<Rightarrow> Ret (s, None))
            | _ \<Rightarrow> Ret (s, None)))"

section \<open>Escaping\<close>

definition MakeEscaped :: "string \<Rightarrow> string" where
  "MakeEscaped str =
     concat (map (\<lambda>r. (if r = slash \<or> r = qDouble then encode_rune slash else []) @ encode_rune r) (runes str))"

fun unescapeLoop :: "nat \<Rightarrow> nat list \<Rightarrow> bool \<Rightarrow> string" where
  "unescapeLoop quote [] passedSlash = []"
| "unescapeLoop quote (r # rs) passedSlash =
     (if r = slash \<and> \<not> passedSlash then unescapeLoop quote rs True
      else (if passedSlash \<and> r \<noteq> slash \<and> r \<noteq> quote then encode_rune slash else [])
           @ encode_rune r @ unescapeLoop quote rs False)"

definition MakeUnescaped :: "string \<Rightarrow> nat \<Rightarrow> string" where
  "MakeUnescaped str quote = unescapeLoop quote (runes str) False"

section \<open>The value of a segment\<close>

definition base64GetBytes :: "string \<Rightarrow> bytes" where
  "base64GetBytes input = (case b64_decode input of (bs, ok) \<Rightarrow> if ok then bs else [])"

definition hexGetBytes :: "string \<Rightarrow> bytes" where
  "hexGetBytes input =
     (let s = (if odd (length input) then input @ ''0'' else input) in fst (hex_decode s))"

definition quoted :: "string \<Rightarrow> string" where
  "quoted s = CHR 0x22 # s @ [CHR 0x22]"

definition runeArrayQuoted :: "string \<Rightarrow> nat \<Rightarrow> bool \<Rightarrow> string" where
  "runeArrayQuoted input q had =
     quoted (if q = qDouble then (if had then input else MakeEscaped input)
             else if q = qSingle then MakeEscaped (MakeUnescaped input qSingle)
             else MakeEscaped input)"

definition runeArrayRaw :: "string \<Rightarrow> nat \<Rightarrow> bool \<Rightarrow> string" where
  "runeArrayRaw input q had =
     (if (q = qDouble \<or> q = qSingle) \<and> had then MakeUnescaped input q else input)"

text \<open>The JSON form of a list from its elements' forms: in an object, commas and colons alternate.\<close>

fun joinJSON :: "nat \<Rightarrow> char \<Rightarrow> string list \<Rightarrow> string" where
  "joinJSON i oddDelimeter [] = []"
| "joinJSON i oddDelimeter (q # qs) =
     (if i = 0 then [] else if even i then '','' else [oddDelimeter]) @ q @ joinJSON (Suc i) oddDelimeter qs"

definition bracketJSON :: "bool \<Rightarrow> string list \<Rightarrow> string" where
  "bracketJSON isArray qs =
     (if isArray then ''['' @ joinJSON 0 (CHR '','') qs @ '']''
      else ''{'' @ joinJSON 0 (CHR '':'') qs @ ''}'')"

fun GetQuoted :: "segment \<Rightarrow> string" where
  "GetQuoted (RuneArray input q had) = runeArrayQuoted input q had"
| "GetQuoted (Base64Bytes input) = quoted (CHR ''='' # b64_encode (base64GetBytes input))"
| "GetQuoted (HexBytes input) = quoted (CHR ''$'' # hex_encode (hexGetBytes input))"
| "GetQuoted (Parent cs arr) = bracketJSON arr (map GetQuoted cs)"

definition getJSONinternal :: "segment list \<Rightarrow> bool \<Rightarrow> string" where
  "getJSONinternal s isArray = bracketJSON isArray (map GetQuoted s)"

definition segToString :: "segment list \<Rightarrow> string" where
  "segToString s = getJSONinternal s True"

fun Raw :: "segment \<Rightarrow> string" where
  "Raw (RuneArray input q had) = runeArrayRaw input q had"
| "Raw (Base64Bytes input) = CHR ''='' # b64_encode (base64GetBytes input)"
| "Raw (HexBytes input) = CHR ''$'' # hex_encode (hexGetBytes input)"
| "Raw (Parent cs arr) = getJSONinternal cs arr"

section \<open>IsASCII\<close>

definition IsASCII :: "bytes \<Rightarrow> bool \<times> bool" where
  "IsASCII bstr =
     (let (r, w) = decode_rune bstr in
      (list_all (\<lambda>b. 32 \<le> byte_val b \<and> byte_val b \<le> 127) bstr,
       w = 1 \<and> r \<in> {34, 44, 58, 32, 36, 61, 91, 123}
       \<or> list_ex (\<lambda>b. 32 \<le> byte_val b \<and> byte_val b \<le> 127 \<and> b \<in> set '' :,'') bstr))"

section \<open>Valid text does not panic\<close>

definition cont :: "char \<Rightarrow> bool" where
  "cont c = byte_in 128 191 c"

text \<open>A valid text after some bytes have been cut off its front.\<close>

definition semi :: "string \<Rightarrow> bool" where
  "semi t \<longleftrightarrow> utf8_valid (dropWhile cont t)"

lemma decode_cont: "cont c \<Longrightarrow> decode_rune (c # t) = (rune_error, 1)"
  by (auto simp: cont_def byte_in_def Let_def split: prod.split)

lemma valid_Nil [simp]: "utf8_valid []"
  by (simp add: utf8_valid.simps)

lemma valid_adv: "utf8_valid t \<Longrightarrow> t \<noteq> [] \<Longrightarrow> utf8_valid (adv t)"
  by (simp add: utf8_valid.simps [of t] adv_def)

lemma valid_decode: "utf8_valid t \<Longrightarrow> t \<noteq> [] \<Longrightarrow> decode_rune t \<noteq> (rune_error, 1)"
  by (simp add: utf8_valid.simps [of t])

lemma valid_semi: "utf8_valid t \<Longrightarrow> semi t"
  using valid_decode [of t] decode_cont by (cases t) (auto simp: semi_def)

lemma cont_of [simp]: "y < 64 \<Longrightarrow> cont (byte_of (128 + y))"
  by (simp add: cont_def byte_in_def)

lemma encode_rune_tail: "c \<in> set (tl (encode_rune r)) \<Longrightarrow> cont c"
  by (auto simp: encode_rune_def encode_scalar_def split: if_splits)

lemma semi_cont: "(\<And>c. c \<in> set xs \<Longrightarrow> cont c) \<Longrightarrow> semi (xs @ t) = semi t"
  by (induction xs) (simp_all add: semi_def)

lemma valid_drop: "utf8_valid t \<Longrightarrow> semi (drop n t)"
proof (induction t arbitrary: n rule: utf8_valid.induct)
  case (1 t)
  show ?case
  proof (cases "t = [] \<or> n = 0")
    case True
    then show ?thesis using 1(2) by (auto intro: valid_semi)
  next
    case False
    then have t: "t \<noteq> []" "0 < n" by auto
    define w where "w = snd (decode_rune t)"
    note v = valid_adv [OF 1(2) t(1)]
    show ?thesis
    proof (cases "n < w")
      case True
      have e: "take w t = encode_rune (fst (decode_rune t))"
        using encode_decode_rune [OF t(1) valid_decode [OF 1(2) t(1)]] by (simp add: w_def)
      have "drop n t = drop n (take w t) @ drop w t"
        using True by (metis append_take_drop_id drop_append drop_eq_Nil2 drop_take length_take
            le_simps(1) min.bounded_iff diff_is_0_eq drop0 nat_le_linear take_all w_def
            decode_rune_width [OF t(1)])
      moreover have "c \<in> set (drop n (take w t)) \<Longrightarrow> cont c" for c
        using t(2) by (intro encode_rune_tail [of c "fst (decode_rune t)"])
          (metis e drop_Suc gr0_conv_Suc in_set_dropD)
      ultimately show ?thesis
        using valid_semi [OF v] semi_cont [of "drop n (take w t)" "drop w t"]
        by (simp add: adv_def w_def)
    next
      case False
      then have "drop n t = drop (n - w) (drop w t)" by simp
      then show ?thesis
        using 1(1) [of "n - w"] t(1) 1(2) by (simp add: utf8_valid.simps [of t] w_def)
    qed
  qed
qed

lemma semi_drop: "semi t \<Longrightarrow> semi (drop n t)"
proof (induction t arbitrary: n)
  case (Cons c t)
  show ?case
  proof (cases "cont c \<and> 0 < n")
    case True
    then obtain m where "n = Suc m" by (metis gr0_conv_Suc)
    then show ?thesis using Cons True by (simp add: semi_def)
  next
    case False
    then show ?thesis
      using Cons.prems valid_drop [of "c # t" n] by (cases n) (auto simp: semi_def)
  qed
qed simp

lemma semi_adv: "semi t \<Longrightarrow> semi (adv t)"
  by (simp add: adv_def semi_drop)

lemma semi_head:
  assumes "semi t" "t \<noteq> []" "fst (decode_rune t) < 128"
  shows "utf8_valid t"
proof -
  obtain c s where t: "t = c # s" using assms(2) by (cases t) auto
  have "\<not> cont c"
    using assms(3) decode_cont [of c s] by (auto simp: t rune_error_def)
  then show ?thesis using assms(1) by (simp add: semi_def t)
qed

lemma decode_width1: "snd (decode_rune t) = 1 \<Longrightarrow> fst (decode_rune t) < 128 \<or> fst (decode_rune t) = rune_error"
  by (cases t) (auto simp: Let_def split: list.splits prod.splits if_splits)

lemma scanTable_valid:
  "utf8_valid t \<Longrightarrow> 128 \<le> length tab \<Longrightarrow> \<exists>rest. scanTable tab t = Ret rest \<and> utf8_valid rest"
proof (induction tab t rule: scanTable.induct)
  case (1 tab t)
  obtain r w where d: "decode_rune t = (r, w)" by (cases "decode_rune t")
  have "t \<noteq> [] \<Longrightarrow> w = 1 \<Longrightarrow> r < length tab"
    using decode_width1 [of t] valid_decode [OF 1(2)] 1(3) by (auto simp: d)
  then show ?case
    using 1 valid_adv [OF 1(2)] by (cases "t = []") (auto simp: scanTable.simps [of tab t] scanTable.simps [of tab "[]"] d)
qed

lemma semi_skipWhile: "semi t \<Longrightarrow> semi (skipWhile P t)"
  by (induction P t rule: skipWhile.induct)
     (metis semi_adv skipWhile.simps)

lemma semi_scanQuote: "semi t \<Longrightarrow> semi (fst (scanQuote q t had))"
proof (induction q t had rule: scanQuote.induct)
  case (1 q t had)
  then show ?case
    using semi_adv by (auto simp: scanQuote.simps [of q t] Let_def semi_def)
qed

lemma semi_scanPlain: "semi t \<Longrightarrow> semi (fst (scanPlain c t had))"
proof (induction c t had rule: scanPlain.induct)
  case (1 c t had)
  then show ?case
    using semi_adv by (auto simp: scanPlain.simps [of c t] Let_def semi_def)
qed

lemma semi_passDelimiters: "semi t \<Longrightarrow> semi (passDelimiters t)"
  using semi_adv semi_skipWhile by (auto simp: passDelimiters_def Let_def semi_def)

lemma table_lengths [simp]: "length B64DecodeMap = 256" "length HexMap = 256"
proof -
  have "length (fold (\<lambda>(i, c) m. m[byte_val c := i]) xs m) = length m" for xs and m :: "nat list"
    by (induction xs arbitrary: m) auto
  then show "length B64DecodeMap = 256" by (simp add: B64DecodeMap_def)
  have "length (fold (\<lambda>i m. m[f i := i, g i := i]) xs m) = length m" for xs f g and m :: "nat list"
    by (induction xs arbitrary: m) auto
  moreover have "length (fold (\<lambda>i m. m[f i := i]) xs m) = length m" for xs f and m :: "nat list"
    by (induction xs arbitrary: m) auto
  ultimately show "length HexMap = 256" by (simp add: HexMap_def)
qed

lemma chopElement_semi:
  assumes "semi t" "t \<noteq> []" "\<And>c s. semi s \<Longrightarrow> \<exists>x. child c s = Ret x"
  shows "\<exists>segs rest err. chopElement child closer t = Ret (segs, rest, err) \<and> semi rest"
proof -
  have tab: "\<exists>rest. scanTable tab (adv t) = Ret rest \<and> semi rest"
    if "fst (decode_rune t) < 128" "length tab = 256" for tab
    using scanTable_valid [of "adv t" tab] valid_adv [OF semi_head [OF assms(1,2) that(1)] assms(2)]
      that(2) valid_semi by fastforce
  note s = semi_adv [OF assms(1)]
  consider (hex) "fst (decode_rune t) = 36" | (b64) "fst (decode_rune t) = 61"
    | (paren) "fst (decode_rune t) = 123 \<or> fst (decode_rune t) = 91"
    | (other) "fst (decode_rune t) \<noteq> 36" "fst (decode_rune t) \<noteq> 61"
        "fst (decode_rune t) \<noteq> 123" "fst (decode_rune t) \<noteq> 91"
    by blast
  then show ?thesis
  proof cases
    case hex
    then show ?thesis using tab [of HexMap] by (auto simp: chopElement_def Let_def semi_def)
  next
    case b64
    then show ?thesis
      using tab [of B64DecodeMap] semi_skipWhile by (auto simp: chopElement_def Let_def semi_def)
  next
    case paren
    obtain cs n err where "child (if fst (decode_rune t) = 123 then 125 else 93) (adv t) = Ret (cs, n, err)"
      using assms(3) [OF s] by (metis prod_cases3)
    then show ?thesis
      using paren semi_drop [OF s] by (cases err) (auto simp: chopElement_def Let_def semi_def [of "[]"])
  next
    case other
    then show ?thesis
      using semi_scanQuote [OF s, of "fst (decode_rune t)" False] semi_scanPlain [OF assms(1), of closer False]
        semi_adv
      by (auto simp: chopElement_def Let_def semi_def [of "[]"] split: prod.splits)
  qed
qed

lemma chopLoop_semi:
  "semi t \<Longrightarrow> (\<And>c s. semi s \<Longrightarrow> \<exists>x. child c s = Ret x) \<Longrightarrow> \<exists>x. chopLoop child closer t front = Ret x"
proof (induction child closer t front rule: chopLoop.induct)
  case (1 child closer t front)
  define t3 where "t3 = passDelimiters t"
  show ?case
  proof (cases "t3 = [] \<or> fst (decode_rune t3) = closer")
    case True
    then show ?thesis by (auto simp: chopLoop.simps [of child closer t] Let_def t3_def)
  next
    case False
    obtain segs rest err where e: "chopElement child closer t3 = Ret (segs, rest, err)" "semi rest"
      using chopElement_semi [of t3 child closer] semi_passDelimiters [OF 1(2)] False 1(3)
      by (auto simp: t3_def)
    show ?thesis
    proof (cases err)
      case None
      have "\<exists>x. chopLoop child closer rest (front @ segs) = Ret x"
        using False e 1(2,3) None by (intro 1(1)) (simp_all add: t3_def)
      then show ?thesis
        using False e None by (simp add: chopLoop.simps [of child closer t] Let_def t3_def)
    next
      case (Some x)
      then show ?thesis
        using False e by (simp add: chopLoop.simps [of child closer t] Let_def t3_def)
    qed
  qed
qed

lemma chop_semi: "semi t \<Longrightarrow> \<exists>x. chop left closer t = Ret x"
proof (induction left arbitrary: closer t)
  case 0
  show ?case by (simp add: chop.simps [of 0])
next
  case (Suc n)
  obtain x where "chopLoop (\<lambda>c s. chop n c s) closer t [] = Ret x"
    using chopLoop_semi [OF Suc.prems, of "\<lambda>c s. chop n c s"] Suc.IH by blast
  then show ?case by (cases x) (simp add: chop.simps [of "Suc n"])
qed

lemma chop_valid: "utf8_valid t \<Longrightarrow> \<exists>x. Chop t = Ret x"
  using chop_semi [OF valid_semi, of t 17 rune_error]
  by (auto simp: Chop_def AsParent_def split: list.splits option.splits segment.splits)

end
