(* ===== verification/Tokens.thy ===== *)
theory Tokens
  imports BadJson GoStrings Billing "HOL-Library.Multiset"
begin

text \<open>
  Access tokens and the keys that verify them (\<open>tokens/tokens.go\<close>): \<open>GetKnotFreePayload\<close> finds a
  token inside other text, \<open>SavePublicKey\<close>, \<open>FindPublicKey\<close> and \<open>LoadPublicKeys\<close> keep the sorted
  list of public keys, \<open>LoadPrivateKeys\<close> reads the signing keys, \<open>ValidateToken\<close> puts them together.
  Verifying a signature (package \<open>jwt\<close>) and decoding the JSON claims are parameters. Lemmas: the
  binary search finds the first key with the prefix, if there is one; which keys are loaded; when
  the lookup panics.
\<close>

section \<open>Tokens in text\<close>

record KnotFreeTokenPayload =
  ExpirationTime :: u32
  Issuer :: string
  JWTID :: string
  tokenStats :: KnotFreeContactStats
  URL :: string
  Pubk :: string

datatype token_error = ExpectedHeader | ExpectedDot | BadClaims | BadPublicKey | BadToken

definition firstPart :: string where
  "firstPart = ''eyJhbGciOiJFZERTQSIsInR5cCI6IkpXVCJ9.''"

definition firstPart2 :: string where
  "firstPart2 = ''eyJhbGciOiJFZDI1NTE5IiwidHlwIjoiSldUIn0.''"

definition b64_byte :: "char \<Rightarrow> bool" where
  "b64_byte c \<longleftrightarrow> B64DecodeMap ! byte_val c \<noteq> 0xFF"

text \<open>The header: where it starts and how long it is.\<close>

definition findHeader :: "string \<Rightarrow> (nat \<times> nat) option" where
  "findHeader token =
     (case index_of token firstPart of
        Some i \<Rightarrow> Some (i, length firstPart)
      | None \<Rightarrow> map_option (\<lambda>i. (i, length firstPart2)) (index_of token firstPart2))"

definition GetKnotFreePayload :: "(bytes \<Rightarrow> KnotFreeTokenPayload option) \<Rightarrow> string \<Rightarrow>
    token_error + string \<times> string" where
  "GetKnotFreePayload parseClaims token =
     (case findHeader token of
        None \<Rightarrow> Inl ExpectedHeader
      | Some (start, flen) \<Rightarrow>
          let t = drop (start + flen) token in
          (case index_of t ''.'' of
             None \<Rightarrow> Inl ExpectedDot
           | Some index \<Rightarrow>
               (case b64_decode (take index t) of
                  (claimsPlain, ok) \<Rightarrow>
                    if \<not> ok then Inl BadClaims
                    else (case parseClaims claimsPlain of
                       None \<Rightarrow> Inl BadClaims
                     | Some payload \<Rightarrow>
                         let part3 = takeWhile b64_byte (drop (index + 1) t) in
                         Inr (drop start (take (start + flen + index + 1) token) @ part3,
                              Issuer payload)))))"

definition ParseTokenNoVerify :: "(bytes \<Rightarrow> KnotFreeTokenPayload option) \<Rightarrow> string \<Rightarrow>
    KnotFreeTokenPayload option" where
  "ParseTokenNoVerify parseClaims toke =
     (let parts = split_on (CHR ''.'') toke in
      if length parts \<noteq> 3 then None
      else case b64_decode (parts ! 1) of
             (claimsPlain, ok) \<Rightarrow> if \<not> ok then None else parseClaims claimsPlain)"

section \<open>Public keys\<close>

definition std_to_url :: "string \<Rightarrow> string" where
  "std_to_url s = replace_byte (CHR ''+'') (CHR ''-'') (replace_byte (CHR ''/'') (CHR ''_'') s)"

text \<open>Decoding into a buffer of 43 bytes, which a longer key overruns.\<close>

definition decodeKey :: "string \<Rightarrow> (bytes \<times> bool) outcome" where
  "decodeKey key = (case b64_decode key of (bs, ok) \<Rightarrow> if 43 < length bs then Panic else Ret (bs, ok))"

text \<open>\<open>sort.Search\<close>: bisection between \<open>i\<close> and \<open>j\<close>.\<close>

function sortSearch :: "(nat \<Rightarrow> bool outcome) \<Rightarrow> nat \<Rightarrow> nat \<Rightarrow> nat outcome" where
  "sortSearch f i j =
     (if i < j then
        let h = (i + j) div 2 in
        (case f h of
           Panic \<Rightarrow> Panic
         | Hang \<Rightarrow> Hang
         | Ret b \<Rightarrow> if \<not> b then sortSearch f (h + 1) j else sortSearch f i h)
      else Ret i)"
  by pat_completeness auto
termination by (relation "measure (\<lambda>(f, i, j). j - i)") auto

declare sortSearch.simps [simp del]

definition keyAtLeast :: "string list \<Rightarrow> bytes \<Rightarrow> nat \<Rightarrow> bool outcome" where
  "keyAtLeast keys prefix i =
     (let item = keys ! i in
      if length item < length prefix then Panic else Ret (prefix \<le> take (length prefix) item))"

text \<open>\<open>FindPublicKey\<close> once the keys are loaded.\<close>

definition findKey :: "string list \<Rightarrow> string \<Rightarrow> string outcome" where
  "findKey keys thekey =
     (if thekey = ''1iVt'' then Ret []
      else bind_out (decodeKey thekey) (\<lambda>(prefix, ok).
        if \<not> ok \<or> length prefix < 1 \<or> 32 \<le> length prefix then Ret []
        else bind_out (sortSearch (keyAtLeast keys prefix) 0 (length keys)) (\<lambda>foundi.
          if length keys \<le> foundi then Ret []
          else let item = keys ! foundi in
            if has_prefix item prefix then Ret item else Ret [])))"

definition SavePublicKey :: "string list \<Rightarrow> string \<Rightarrow> bytes \<Rightarrow> string list outcome" where
  "SavePublicKey keys key0 publicKey =
     (let key = std_to_url key0 in
      if key = ''1iVt'' then Ret keys
      else bind_out (findKey keys key) (\<lambda>found.
        if found = publicKey then Ret keys
        else bind_out (decodeKey key) (\<lambda>(prefix, ok).
          if \<not> ok \<or> length prefix < 1 \<or> 32 \<le> length prefix then Ret keys
          else if \<not> has_prefix publicKey prefix then Ret keys
          else if length publicKey < 32 then Ret keys
          else Ret (sort (keys @ [publicKey])))))"

text \<open>\<open>strings.Trim\<close> for a set of bytes.\<close>

definition trim_bytes :: "string \<Rightarrow> string \<Rightarrow> string" where
  "trim_bytes cutset s =
     rev (dropWhile (\<lambda>c. c \<in> set cutset) (rev (dropWhile (\<lambda>c. c \<in> set cutset) s)))"

fun loadLoop :: "string list \<Rightarrow> string list \<Rightarrow> string list outcome" where
  "loadLoop [] keys = Ret keys"
| "loadLoop (s # parts) keys =
     (if length s < 4 then loadLoop parts keys
      else let s' = trim_bytes (CHR '' '' # [CHR 0x0A]) (std_to_url s) in
        if length s' < 4 then Panic
        else case SavePublicKey keys (take 4 s') (fst (b64_decode s')) of
               Ret keys' \<Rightarrow> loadLoop parts keys'
             | Panic \<Rightarrow> Panic
             | Hang \<Rightarrow> Hang)"

definition LoadPublicKeys :: "string \<Rightarrow> string list \<Rightarrow> string list outcome" where
  "LoadPublicKeys publicKeys keys =
     (if keys \<noteq> [] then Ret keys
      else bind_out (loadLoop (split_on (CHR 0x0A) (trim_bytes (CHR '' '' # [CHR 0x0A]) publicKeys)) [''dummy''])
             (\<lambda>ks. Ret (tl ks)))"

definition FindPublicKey :: "string \<Rightarrow> string list \<Rightarrow> string \<Rightarrow> (string list \<times> string) outcome" where
  "FindPublicKey publicKeys keys thekey =
     bind_out (LoadPublicKeys publicKeys keys) (\<lambda>ks. bind_out (findKey ks thekey) (\<lambda>r. Ret (ks, r)))"

section \<open>Validation\<close>

record verifier =
  parseClaims :: "bytes \<Rightarrow> KnotFreeTokenPayload option"
  jwtVerify :: "bytes \<Rightarrow> bytes \<Rightarrow> KnotFreeTokenPayload option"
  builtinKeys :: string

definition ValidateToken :: "verifier \<Rightarrow> string list \<Rightarrow> string \<Rightarrow>
    (string list \<times> (token_error + KnotFreeTokenPayload)) outcome" where
  "ValidateToken v keys token =
     (case GetKnotFreePayload (parseClaims v) token of
        Inl e \<Rightarrow> Ret (keys, Inl e)
      | Inr (trimmedToken, issuer) \<Rightarrow>
          bind_out (FindPublicKey (builtinKeys v) keys issuer) (\<lambda>(keys', publicKey).
            if length publicKey \<noteq> 32 then Ret (keys', Inl BadPublicKey)
            else case jwtVerify v trimmedToken publicKey of
                   None \<Rightarrow> Ret (keys', Inl BadToken)
                 | Some payload \<Rightarrow> Ret (keys', Inr payload)))"

section \<open>Private keys\<close>

record privateKeys =
  knownPrivateKeys :: "(string, string) map"
  knownPrivateKeyPrefixes :: "string list"
  keysLoaded :: bool

text \<open>The keys of a file, one per line; \<open>keysLoaded\<close> tells whether the map has an entry. \<open>None\<close>
  is a file that cannot be read.\<close>

definition addPrivateKey :: "string \<Rightarrow> privateKeys \<Rightarrow> privateKeys" where
  "addPrivateKey part ks =
     (case b64_decode (std_to_url part) of
        (bs, ok) \<Rightarrow>
          if \<not> ok then ks
          else if length bs \<noteq> 64 then ks
          else let first4 = take 4 (b64_encode (drop 32 bs)) in
            ks\<lparr>knownPrivateKeys := (knownPrivateKeys ks)(first4 \<mapsto> bs),
               knownPrivateKeyPrefixes := knownPrivateKeyPrefixes ks @ [first4],
               keysLoaded := True\<rparr>)"

definition LoadPrivateKeys :: "string option \<Rightarrow> privateKeys \<Rightarrow> privateKeys" where
  "LoadPrivateKeys file ks =
     (if keysLoaded ks then ks
      else case file of
             None \<Rightarrow> ks
           | Some data \<Rightarrow> fold addPrivateKey (split_on (CHR 0x0A) (trim_bytes [CHR 0x0A] data)) ks)"

definition GetPrivateKeyPrefix :: "privateKeys \<Rightarrow> nat \<Rightarrow> string outcome" where
  "GetPrivateKeyPrefix ks n =
     (if length (knownPrivateKeyPrefixes ks) \<le> n then Panic
      else if length (knownPrivateKeyPrefixes ks ! n) < 4 then Panic
      else Ret (take 4 (knownPrivateKeyPrefixes ks ! n)))"

definition GetPrivateKeyMatching :: "privateKeys \<Rightarrow> string \<Rightarrow> string" where
  "GetPrivateKeyMatching ks prefix =
     (case knownPrivateKeys ks prefix of None \<Rightarrow> [] | Some k \<Rightarrow> k)"

definition GetPrivateKeyWhole :: "privateKeys \<Rightarrow> nat \<Rightarrow> string outcome" where
  "GetPrivateKeyWhole ks n =
     bind_out (GetPrivateKeyPrefix ks n) (\<lambda>prefix. Ret (GetPrivateKeyMatching ks prefix))"

text \<open>\<open>ParseString\<close>: a string with its length in four bytes before it.\<close>

definition ParseString :: "bytes \<Rightarrow> (bytes \<times> bytes) option" where
  "ParseString bs =
     (if length bs < 4 then None
      else let len = foldl (\<lambda>v c. 256 * v + byte_val c) 0 (take 4 bs); r = drop 4 bs in
        if length r < len then None else Some (take len r, drop len r))"

section \<open>The search\<close>

lemma sortSearch_spec:
  assumes "i \<le> j" "\<And>h. i \<le> h \<Longrightarrow> h < j \<Longrightarrow> f h = Ret (P h)"
    and "\<And>a b. i \<le> a \<Longrightarrow> a \<le> b \<Longrightarrow> b < j \<Longrightarrow> P a \<Longrightarrow> P b"
  shows "\<exists>k. sortSearch f i j = Ret k \<and> i \<le> k \<and> k \<le> j
    \<and> (\<forall>h. i \<le> h \<longrightarrow> h < k \<longrightarrow> \<not> P h) \<and> (\<forall>h. k \<le> h \<longrightarrow> h < j \<longrightarrow> P h)"
  using assms
proof (induction f i j rule: sortSearch.induct)
  case (1 f i j)
  show ?case
  proof (cases "i < j")
    case False
    then have "sortSearch f i j = Ret i" by (simp add: sortSearch.simps [of f i j])
    moreover have "i = j" using False "1.prems"(1) by simp
    ultimately show ?thesis by auto
  next
    case True
    define h where "h = (i + j) div 2"
    have h: "i \<le> h" "h < j" using True by (auto simp: h_def)
    have fh: "f h = Ret (P h)" using "1.prems"(2) h by simp
    show ?thesis
    proof (cases "P h")
      case False
      have below: "\<not> P a" if "i \<le> a" "a \<le> h" for a
        using False "1.prems"(3) [of a h] that h by blast
      have "\<exists>k. sortSearch f (h + 1) j = Ret k \<and> h + 1 \<le> k \<and> k \<le> j
          \<and> (\<forall>x. h + 1 \<le> x \<longrightarrow> x < k \<longrightarrow> \<not> P x) \<and> (\<forall>x. k \<le> x \<longrightarrow> x < j \<longrightarrow> P x)"
      proof (rule "1.IH"(1) [OF True h_def fh False])
        show "h + 1 \<le> j" using h by simp
        show "f x = Ret (P x)" if "h + 1 \<le> x" "x < j" for x
          using that h by (intro "1.prems"(2)) simp_all
        show "P b" if "h + 1 \<le> a" "a \<le> b" "b < j" "P a" for a b
          using that h by (intro "1.prems"(3) [of a b]) simp_all
      qed
      then obtain k where k: "sortSearch f (h + 1) j = Ret k" "h + 1 \<le> k" "k \<le> j"
          "\<forall>x. h + 1 \<le> x \<longrightarrow> x < k \<longrightarrow> \<not> P x" "\<forall>x. k \<le> x \<longrightarrow> x < j \<longrightarrow> P x"
        by blast
      moreover have "\<not> P x" if "i \<le> x" "x < k" for x
        using k(4) below that by (cases "h + 1 \<le> x") auto
      ultimately show ?thesis
        using True False fh h
        by (intro exI [of _ k]) (auto simp: sortSearch.simps [of f i j] h_def [symmetric] Let_def)
    next
      case Ph: True
      have above: "P a" if "h \<le> a" "a < j" for a
        using Ph "1.prems"(3) [of h a] that h by blast
      have "\<exists>k. sortSearch f i h = Ret k \<and> i \<le> k \<and> k \<le> h
          \<and> (\<forall>x. i \<le> x \<longrightarrow> x < k \<longrightarrow> \<not> P x) \<and> (\<forall>x. k \<le> x \<longrightarrow> x < h \<longrightarrow> P x)"
      proof (rule "1.IH"(2) [OF True h_def fh])
        show "\<not> \<not> P h" using Ph by simp
        show "i \<le> h" by (rule h)
        show "f x = Ret (P x)" if "i \<le> x" "x < h" for x
          using that h by (intro "1.prems"(2)) simp_all
        show "P b" if "i \<le> a" "a \<le> b" "b < h" "P a" for a b
          using that h by (intro "1.prems"(3) [of a b]) simp_all
      qed
      then obtain k where k: "sortSearch f i h = Ret k" "i \<le> k" "k \<le> h"
          "\<forall>x. i \<le> x \<longrightarrow> x < k \<longrightarrow> \<not> P x" "\<forall>x. k \<le> x \<longrightarrow> x < h \<longrightarrow> P x"
        by blast
      moreover have "P x" if "k \<le> x" "x < j" for x
        using k(5) above that by (cases "x < h") auto
      ultimately show ?thesis
        using True Ph fh h
        by (intro exI [of _ k]) (auto simp: sortSearch.simps [of f i j] h_def [symmetric] Let_def)
    qed
  qed
qed

lemma take_mono_lex: "(xs :: string) \<le> ys \<Longrightarrow> take n xs \<le> take n ys"
proof (induction n arbitrary: xs ys)
  case (Suc n)
  then show ?case by (cases xs; cases ys) auto
qed simp

definition firstWith :: "string list \<Rightarrow> bytes \<Rightarrow> string" where
  "firstWith keys prefix = (case List.find (\<lambda>k. has_prefix k prefix) keys of Some k \<Rightarrow> k | None \<Rightarrow> [])"

lemma find_at:
  assumes "k < length xs" "Q (xs ! k)" "\<And>h. h < k \<Longrightarrow> \<not> Q (xs ! h)"
  shows "List.find Q xs = Some (xs ! k)"
  using assms by (auto simp: find_Some_iff intro!: exI [of _ k])

lemma findKey_first:
  assumes "sorted keys" "\<And>k. k \<in> set keys \<Longrightarrow> 32 \<le> length k"
    and "b64_decode thekey = (prefix, True)" "prefix \<noteq> []" "length prefix < 32" "thekey \<noteq> ''1iVt''"
  shows "findKey keys thekey = Ret (firstWith keys prefix)"
proof -
  define n where "n = length prefix"
  define P where "P = (\<lambda>i. prefix \<le> take n (keys ! i))"
  have f: "keyAtLeast keys prefix h = Ret (P h)" if "h < length keys" for h
    using assms(2) [of "keys ! h"] assms(5) that by (simp add: keyAtLeast_def P_def n_def Let_def)
  have mono: "P a \<Longrightarrow> P b" if "a \<le> b" "b < length keys" for a b
    using take_mono_lex [OF sorted_nth_mono [OF assms(1) that], of n] by (simp add: P_def)
  obtain k where k: "sortSearch (keyAtLeast keys prefix) 0 (length keys) = Ret k" "k \<le> length keys"
      "\<forall>h. h < k \<longrightarrow> \<not> P h" "\<forall>h. k \<le> h \<longrightarrow> h < length keys \<longrightarrow> P h"
    using sortSearch_spec [of 0 "length keys" "keyAtLeast keys prefix" P] f mono by auto
  have pre: "has_prefix (keys ! h) prefix \<Longrightarrow> P h" for h
    by (simp add: has_prefix_iff P_def n_def)
  have dec: "decodeKey thekey = Ret (prefix, True)"
    using assms(3,5) by (simp add: decodeKey_def)
  show ?thesis
  proof (cases "k < length keys \<and> has_prefix (keys ! k) prefix")
    case True
    then have "List.find (\<lambda>k. has_prefix k prefix) keys = Some (keys ! k)"
      using k(3) pre by (intro find_at) auto
    then show ?thesis
      using True k(1) dec assms(4-6) by (simp add: findKey_def firstWith_def)
  next
    case False
    have "\<not> has_prefix x prefix" if "x \<in> set keys" for x
    proof
      assume hp: "has_prefix x prefix"
      obtain h where h: "h < length keys" "x = keys ! h" using \<open>x \<in> set keys\<close> by (auto simp: in_set_conv_nth)
      then have kh: "k \<le> h" using k(3) pre hp by (meson not_less)
      then have "P k" using k(4) h(1) by auto
      then have "take n (keys ! k) = prefix"
        using take_mono_lex [OF sorted_nth_mono [OF assms(1) kh h(1)], of n] hp h(2)
        by (simp add: P_def has_prefix_iff n_def)
      then show False using False kh h(1) by (simp add: has_prefix_iff n_def)
    qed
    then have "List.find (\<lambda>k. has_prefix k prefix) keys = None"
      by (auto simp: find_None_iff)
    then show ?thesis
      using False k(1,2) dec assms(4-6) by (auto simp: findKey_def firstWith_def)
  qed
qed

section \<open>Saving and loading\<close>

lemma save_cases: "SavePublicKey keys key pk = Ret ks \<Longrightarrow> ks = keys \<or> ks = sort (keys @ [pk]) \<and> 32 \<le> length pk"
  by (auto simp: SavePublicKey_def Let_def bind_out_Ret split: if_splits prod.splits)

lemma save_sorted: "SavePublicKey keys key pk = Ret ks \<Longrightarrow> sorted keys \<Longrightarrow> sorted ks"
  using save_cases by fastforce

lemma load_loop_keeps:
  "loadLoop parts keys = Ret ks \<Longrightarrow> sorted keys \<Longrightarrow> sorted ks \<and> mset keys \<subseteq># mset ks"
proof (induction parts arbitrary: keys)
  case (Cons s parts)
  show ?case
  proof (cases "length s < 4")
    case True
    then show ?thesis using Cons by simp
  next
    case False
    then obtain s' k1 where k1: "SavePublicKey keys (take 4 s') (fst (b64_decode s')) = Ret k1"
        "loadLoop parts k1 = Ret ks"
      using Cons.prems(1) by (auto simp: Let_def split: if_splits outcome.splits)
    have "sorted k1" "mset keys \<subseteq># mset k1"
      using save_sorted [OF k1(1) Cons.prems(2)] save_cases [OF k1(1)] by auto
    then show ?thesis using Cons.IH [OF k1(2)] by auto
  qed
qed simp

text \<open>The first entry of the sorted list is dropped, which is \<open>''dummy''\<close> only if no key sorts
  before it.\<close>

lemma load_drops_least:
  assumes "LoadPublicKeys publicKeys [] = Ret ks"
  shows "\<exists>all. sorted all \<and> ''dummy'' \<in> set all \<and> ks = tl all
    \<and> (hd all \<noteq> ''dummy'' \<longrightarrow> ''dummy'' \<in> set ks)"
proof -
  obtain all where a: "loadLoop (split_on (CHR 0x0A) (trim_bytes (CHR '' '' # [CHR 0x0A]) publicKeys)) [''dummy'']
      = Ret all" "ks = tl all"
    using assms by (auto simp: LoadPublicKeys_def bind_out_Ret)
  have s: "sorted all" "mset [''dummy''] \<subseteq># mset all"
    using load_loop_keeps [OF a(1)] by simp_all
  then have "''dummy'' \<in> set all"
    by (metis mset_subset_eqD set_mset_mset list.set_intros(1))
  then show ?thesis using s(1) a(2) by (intro exI [of _ all]) (cases all, auto)
qed

section \<open>Long issuers\<close>

lemma findKey_panics:
  "43 < length (fst (b64_decode thekey)) \<Longrightarrow> findKey keys thekey = Panic"
proof -
  assume l: "43 < length (fst (b64_decode thekey))"
  have "length (fst (b64_decode ''1iVt'')) = 3"
    by (simp add: b64_decode_def b64_value_def)
  then have "thekey \<noteq> ''1iVt''" using l by auto
  then show ?thesis using l by (cases "b64_decode thekey") (simp add: findKey_def decodeKey_def)
qed

lemma validate_panics:
  assumes "GetKnotFreePayload (parseClaims v) token = Inr (t, issuer)" "keys \<noteq> []"
    and "43 < length (fst (b64_decode issuer))"
  shows "ValidateToken v keys token = Panic"
  using assms findKey_panics [OF assms(3)]
  by (simp add: ValidateToken_def FindPublicKey_def LoadPublicKeys_def)

lemma validate_accepts:
  assumes "ValidateToken v keys token = Ret (ks, Inr payload)"
  shows "\<exists>t issuer pk. GetKnotFreePayload (parseClaims v) token = Inr (t, issuer)
    \<and> FindPublicKey (builtinKeys v) keys issuer = Ret (ks, pk) \<and> length pk = 32
    \<and> jwtVerify v t pk = Some payload"
  using assms
  by (auto simp: ValidateToken_def bind_out_Ret split: sum.splits prod.splits if_splits option.splits)

end
