(* ===== verification/LookMsg.thy ===== *)
theory LookMsg
  imports Publish Tokens
begin

text \<open>
  The lookup commands (\<open>iot/lookmsg.go\<close>) and the two commands that create and delete names
  (\<open>iot/nameServices.go\<close>). A guru finds the command, checks the sealed copy of it, and answers with
  a \<open>Send\<close> to the requester through any aide. A topic that is not in memory is fetched from the
  database by a goroutine, which queues a \<open>LookBack\<close> to the same bucket; the goroutine's read is
  done when it is started. The database, \<open>box.Open\<close>, the clock, JSON and the Unicode case tables are
  fields of \<open>services\<close>. A \<open>LookBack\<close> of \<open>createNameFunc\<close> for a topic that is in the table refers to
  that topic and leaves it as it is then; if it has left the table meanwhile, the topic is put back
  as it was when the command ran.
\<close>

section \<open>Services\<close>

record services =
  wallSeconds :: int
  randomWord :: u32
  clusterPubk :: bytes
  boxOpen :: "bytes \<Rightarrow> bytes \<Rightarrow> bytes \<Rightarrow> bytes option"
  dbGet :: "string \<Rightarrow> WatchedTopic option"
  dbCount :: "string \<Rightarrow> int option"
  showTopic :: "WatchedTopic \<Rightarrow> string + bytes"
  parseMap :: "bytes \<Rightarrow> string + (string \<times> string) list"
  base64Error :: "string \<Rightarrow> string"
  quoteJSON :: "string \<Rightarrow> string"
  uniUpper :: "string \<Rightarrow> string"
  uniLower :: "string \<Rightarrow> string"
  mapKeys :: "string list \<Rightarrow> string list"
  verification :: verifier
  publicKeys :: "string list"

section \<open>Option values that are maps\<close>

fun pairLoop :: "string list \<Rightarrow> (string, string) omap \<Rightarrow> (string, string) omap outcome" where
  "pairLoop [] m = Ret m"
| "pairLoop [key] m = Panic"
| "pairLoop (key # val # entries) m = pairLoop entries (om_put key val m)"

definition StringToMap :: "string \<Rightarrow> (string, string) omap outcome" where
  "StringToMap str =
     (let tmp = TrimSpace str in
      if tmp = [] then Ret []
      else let entries = split_on (CHR '' '') tmp in
        if length entries = 1 then Ret [(''@'', hd entries)]
        else pairLoop entries [])"

definition MapToString :: "(string list \<Rightarrow> string list) \<Rightarrow> (string, string) omap \<Rightarrow> string outcome" where
  "MapToString order m =
     (let str = concat (map (\<lambda>key. key @ '' '' @ (case om_get m key of None \<Rightarrow> [] | Some v \<Rightarrow> v) @ '' '')
                  (order (map fst m)))
      in if str = [] then Panic else Ret (butlast str))"

section \<open>Replies\<close>

definition replyPacket :: "lookupReq \<Rightarrow> string \<Rightarrow> packet" where
  "replyPacket req reply =
     Send (lookSource req) (lookAddress req) reply (CopyOptions [] (lookOptions req))"

definition sendReply :: "lookupReq \<Rightarrow> string \<Rightarrow> effect list" where
  "sendReply req reply = [ToAide (replyPacket req reply)]"

definition showBool :: "bool \<Rightarrow> string" where
  "showBool b = (if b then ''true'' else ''false'')"

definition existsJSON :: "bool \<Rightarrow> bool \<Rightarrow> string" where
  "existsJSON ex online =
     [CHR ''{'', CHR 0x22] @ ''Exists'' @ [CHR 0x22] @ '':'' @ showBool ex @ '','' @
     [CHR 0x22] @ ''Online'' @ [CHR 0x22] @ '':'' @ showBool online @ ''}''"

definition proxyJSON :: "services \<Rightarrow> bool \<Rightarrow> bool \<Rightarrow> string \<Rightarrow> string \<Rightarrow> string" where
  "proxyJSON sv ex online static proxy =
     butlast (existsJSON ex online) @ '','' @ [CHR 0x22] @ ''Static'' @ [CHR 0x22] @ '':'' @ quoteJSON sv static @
     '','' @ [CHR 0x22] @ ''Proxy'' @ [CHR 0x22] @ '':'' @ quoteJSON sv proxy @ ''}''"

section \<open>Finishing a command on its topic\<close>

definition reqPubk :: "lookupReq \<Rightarrow> string" where
  "reqPubk req = fst (GetOption (lookOptions req) ''pubk'')"

definition optionMapOf :: "WatchedTopic \<Rightarrow> string \<Rightarrow> (string, string) omap outcome" where
  "optionMapOf wt key =
     (let (val, ok) = wtGetOption wt key in StringToMap (if ok then val else []))"

fun bulkLoop :: "string list \<Rightarrow> (string, string) omap \<Rightarrow> (string, string) omap" where
  "bulkLoop (k # v # r) m = bulkLoop r (om_put k v m)"
| "bulkLoop _ m = m"

text \<open>Store a changed option map in the topic, save the topic, say ok.\<close>

definition storeOption :: "services \<Rightarrow> lookupReq \<Rightarrow> string \<Rightarrow> (string, string) omap \<Rightarrow> topics \<Rightarrow> WatchedTopic \<Rightarrow>
    handled" where
  "storeOption sv req key m s wt =
     bind_out (MapToString (mapKeys sv) m) (\<lambda>str.
       let wt' = wtSetOption wt key str in
       Ret (setWatcher s (lookHash req) (Some wt'), SaveTopic wt' # sendReply req ''ok''))"

fun finishCommand :: "services \<Rightarrow> lookupReq \<Rightarrow> finish \<Rightarrow> topics \<Rightarrow> WatchedTopic \<Rightarrow> handled" where
  "finishCommand sv req FinDetails s wt =
     Ret (s, sendReply req
       (if reqPubk req \<noteq> Owner wt then ''error: not owner''
        else case showTopic sv wt of Inl err \<Rightarrow> ''json error: '' @ err | Inr js \<Rightarrow> js))"
| "finishCommand sv req (FinGetOption key0 subKey) s wt =
     (let key = to_upper (uniUpper sv) key0 in
      bind_out (optionMapOf wt key) (\<lambda>m. Ret (s, sendReply req
        (case om_get m subKey of
           Some v \<Rightarrow> v
         | None \<Rightarrow> if key = ''A'' \<and> subKey = ''@'' then ''216.128.128.195''
                   else ''error: not found'' @ key @ '' '' @ subKey))))"
| "finishCommand sv req (FinGetTxt subKey) s wt =
     bind_out (optionMapOf wt ''TXT'') (\<lambda>m. Ret (s, sendReply req
       (case om_get m subKey of Some v \<Rightarrow> v | None \<Rightarrow> ''error: get txt not found'' @ subKey)))"
| "finishCommand sv req (FinSetOption key subKey newOptionVal) s wt =
     (if reqPubk req \<noteq> Owner wt then Ret (s, sendReply req ''error: not owner'')
      else bind_out (optionMapOf wt (to_upper (uniUpper sv) key)) (\<lambda>m.
             storeOption sv req key (om_put subKey newOptionVal m) s wt))"
| "finishCommand sv req (FinBulkOption key bulkVals) s wt =
     (if reqPubk req \<noteq> Owner wt then Ret (s, sendReply req ''error: not owner'')
      else bind_out (optionMapOf wt (to_upper (uniUpper sv) key)) (\<lambda>m.
             storeOption sv req key (bulkLoop bulkVals m) s wt))"
| "finishCommand sv req (FinReplaceOptions newOptionsString) s wt =
     (if reqPubk req \<noteq> Owner wt then Ret (s, sendReply req ''error: not owner'')
      else case parseMap sv newOptionsString of
             Inl err \<Rightarrow> Ret (s, sendReply req (''replace options error: '' @ err))
           | Inr aMap \<Rightarrow>
               let wt' = wtReplaceOptions wt aMap in
               Ret (setWatcher s (lookHash req) (Some wt'), SaveTopic wt' # sendReply req ''ok''))"
| "finishCommand sv req FinProxyStatus s wt =
     (let part = (\<lambda>key. let (val, ok) = wtGetOption wt key in
                if ok then bind_out (StringToMap val) (\<lambda>m.
                  Ret (case om_get m ''@'' of None \<Rightarrow> [] | Some v \<Rightarrow> v)) else Ret [])
      in bind_out (part ''STATIC'') (\<lambda>static. bind_out (part ''PROXY'') (\<lambda>proxy.
           Ret (s, sendReply req (proxyJSON sv True (thetree wt \<noteq> []) static proxy)))))"
| "finishCommand sv req FinExists s wt = Ret (s, sendReply req (existsJSON True False))"
| "finishCommand sv req FinOk s wt = Ret (s, sendReply req ''ok'')"

text \<open>The callback a goroutine queues once it has the topic: remember it, finish.\<close>

definition lookBackRun :: "services \<Rightarrow> lookupReq \<Rightarrow> WatchedTopic option \<Rightarrow> finish \<Rightarrow> topics \<Rightarrow> handled" where
  "lookBackRun sv req wto fin s =
     (let s' = setWatcher s (lookHash req) wto in
      case wto of
        Some wt \<Rightarrow> finishCommand sv req fin s' wt
      | None \<Rightarrow> Ret (s', sendReply req ''ok''))"

definition getAndSetWatcher :: "services \<Rightarrow> lookupReq \<Rightarrow> finish \<Rightarrow> topics \<Rightarrow> handled" where
  "getAndSetWatcher sv req fin s =
     (case getWatcher s (lookHash req) of
        Some wt \<Rightarrow> finishCommand sv req fin s wt
      | None \<Rightarrow>
          (case dbGet sv (ToBase64 (lookHash req)) of
             None \<Rightarrow> Ret (s, sendReply req ''error: topic not found'')
           | Some wt \<Rightarrow> Ret (s, [Requeue (CallBackMessage (LookBack req (Some wt) fin))])))"

definition lookBackSameRun :: "lookupReq \<Rightarrow> WatchedTopic \<Rightarrow> topics \<Rightarrow> handled" where
  "lookBackSameRun req wt s =
     Ret (case getWatcher s (lookHash req) of
            Some w \<Rightarrow> s
          | None \<Rightarrow> setWatcher s (lookHash req) (Some wt), sendReply req ''ok'')"

section \<open>Creating and deleting names\<close>

definition createNameFunc :: "services \<Rightarrow> string list \<Rightarrow> lookupReq \<Rightarrow> topics \<Rightarrow> handled" where
  "createNameFunc sv args req s =
     (case args of
        name # token # rest \<Rightarrow>
          bind_out (ValidateToken (verification sv) (publicKeys sv) token) (\<lambda>(keys, r).
            case r of
              Inl e \<Rightarrow> Ret (s, sendReply req ''add name error: invalid token'')
            | Inr payload \<Rightarrow>
                if Pubk payload \<noteq> reqPubk req then Ret (s, sendReply req ''add name error: not owner'')
                else case dbCount sv (Pubk payload) of
                  None \<Rightarrow> Ret (s, sendReply req ''error GetSubscriptionList'')
                | Some owned \<Rightarrow>
                    if f_to_int (Subscriptions (tokenStats payload)) < owned + 1
                    then Ret (s, sendReply req
                           ''add name error: you own more names than allowed by your token'')
                    else case getWatcher s (lookHash req) of
                      Some wt \<Rightarrow>
                        if Owner wt \<noteq> Pubk payload
                        then Ret (s, sendReply req ''add name error: not owner'')
                        else
                          let wt' = wt\<lparr>Expires := ExpirationTime payload, Jwtid := JWTID payload,
                                      Owner := Pubk payload\<rparr>
                          in Ret (setWatcher s (lookHash req) (Some wt'),
                               [SaveTopic wt', RequeueNow (CallBackMessage (LookBackSame req wt'))])
                    | None \<Rightarrow>
                        (case dbGet sv (ToBase64 (lookHash req)) of
                           Some g \<Rightarrow>
                             if Owner g \<noteq> reqPubk req
                             then Ret (s, sendReply req ''add name error: not owner'')
                             else
                               let g' = g\<lparr>Expires := ExpirationTime payload, Jwtid := JWTID payload\<rparr>
                               in Ret (s, [SaveTopic g',
                                    RequeueNow (CallBackMessage (LookBack req (Some g') FinOk))])
                         | None \<Rightarrow>
                             let n = emptyTopic\<lparr>Name := lookHash req, NameStr := name,
                                       Expires := ExpirationTime payload, Jwtid := JWTID payload,
                                       Owner := Pubk payload\<rparr>
                             in Ret (s, [SaveTopic n,
                                  RequeueNow (CallBackMessage (LookBack req (Some n) FinOk))])))
      | _ \<Rightarrow> Ret (s, sendReply req ''add name error: too few args''))"

definition deleteNameFunc :: "services \<Rightarrow> string list \<Rightarrow> lookupReq \<Rightarrow> topics \<Rightarrow> handled" where
  "deleteNameFunc sv args req s =
     (case args of
        [] \<Rightarrow> Ret (s, sendReply req ''delete name error: too few args'')
      | name # rest \<Rightarrow>
          let check = (\<lambda>wt. if Owner wt \<noteq> reqPubk req
                then Ret (s, sendReply req ''delete name error: not owner'')
                else case HashString name of
                  None \<Rightarrow> Panic
                | Some hashed \<Rightarrow>
                    if hashed \<noteq> lookHash req \<or> hashed \<noteq> Name wt
                    then Ret (s, sendReply req ''delete name error: hash mismatch'')
                    else Ret (s, [DeleteTopic (ToBase64 hashed),
                           RequeueNow (CallBackMessage (LookBack req None FinOk))]))
          in case getWatcher s (lookHash req) of
               Some wt \<Rightarrow> check wt
             | None \<Rightarrow>
                 (case dbGet sv (ToBase64 (lookHash req)) of
                    None \<Rightarrow> Ret (s, sendReply req ''delete name error: not found'')
                  | Some g \<Rightarrow> check g))"

section \<open>The commands\<close>

text \<open>Name and description of each; an open lock in the description means that no encryption is
  required.\<close>

definition commandTable :: "(string \<times> string) list" where
  "commandTable =
     [(''details'', ''A serialization of the name record''),
      (''get option'', ''get key val. eg A 12.34.56.78 '' @ open_lock),
      (''get txt'', ''get key val. eg A 12.34.56.78 '' @ open_lock),
      (''set option'', ''add key subkey value. eg A @ 12.34.56.78 ''),
      (''bulk option'', ''add key kv pairs''),
      (''replace options'', ''Replace all the options. Arg is json map in base64.''),
      (''proxy-status'', ''returns ProxyStatusReturnType '' @ open_lock),
      (''exists'', ''returns true if the name exists '' @ open_lock),
      (''get time'', ''seconds since 1970'' @ open_lock),
      (''get random'', ''returns a random integer''),
      (''get pubk'', ''device public key '' @ open_lock),
      (''version'', ''info about this thing''),
      (''help'', ''lists all commands. '' @ open_lock @ '' means no encryption required''),
      (''reserve'', ''assign a public key to a name, create''),
      (''delete'', ''delete a name'')]"

definition helpText :: string where
  "helpText = concat (map (\<lambda>k. ''['' @ k @ '']'' @ '' '' @ (case map_of commandTable k of None \<Rightarrow> [] | Some d \<Rightarrow> d) @ nl)
     (sort (map fst commandTable)))"

definition setOptionCommand :: "services \<Rightarrow> string list \<Rightarrow> lookupReq \<Rightarrow> topics \<Rightarrow> handled" where
  "setOptionCommand sv args req s =
     (case args of
        a # b # c # r \<Rightarrow> getAndSetWatcher sv req (FinSetOption (to_upper (uniUpper sv) a) b c) s
      | [a, b] \<Rightarrow> getAndSetWatcher sv req (FinSetOption (to_upper (uniUpper sv) a) ''@'' b) s
      | _ \<Rightarrow> Panic)"

definition existsCommand :: "services \<Rightarrow> lookupReq \<Rightarrow> topics \<Rightarrow> handled" where
  "existsCommand sv req s =
     (case getWatcher s (lookHash req) of
        Some wt \<Rightarrow> Ret (s, sendReply req (existsJSON True (thetree wt \<noteq> [])))
      | None \<Rightarrow>
          (case dbGet sv (ToBase64 (lookHash req)) of
             None \<Rightarrow> Ret (s, sendReply req (existsJSON False False))
           | Some wt \<Rightarrow> Ret (s, [Requeue (CallBackMessage (LookBack req (Some wt) FinExists))])))"

definition executeCommand :: "services \<Rightarrow> string \<Rightarrow> string list \<Rightarrow> lookupReq \<Rightarrow> topics \<Rightarrow> handled" where
  "executeCommand sv cmd args req s =
     (if cmd = ''details'' then getAndSetWatcher sv req FinDetails s
      else if cmd = ''get option'' then
        (case args of
           [] \<Rightarrow> Ret (s, [])
         | [key] \<Rightarrow> getAndSetWatcher sv req (FinGetOption key ''@'') s
         | key # subKey # r \<Rightarrow> getAndSetWatcher sv req (FinGetOption key subKey) s)
      else if cmd = ''get txt'' then
        getAndSetWatcher sv req (FinGetTxt (case args of [] \<Rightarrow> ''@'' | a # r \<Rightarrow> a)) s
      else if cmd = ''set option'' then setOptionCommand sv args req s
      else if cmd = ''bulk option'' then
        (case args of
           a # b # r \<Rightarrow> getAndSetWatcher sv req (FinBulkOption (to_upper (uniUpper sv) a) (b # r)) s
         | _ \<Rightarrow> Ret (s, sendReply req ''error: not enough arguments''))
      else if cmd = ''replace options'' then
        (case args of
           [] \<Rightarrow> Ret (s, sendReply req ''error: not enough arguments'')
         | a # r \<Rightarrow> (case b64_decode a of (bs, ok) \<Rightarrow>
             if \<not> ok then Ret (s, sendReply req (''replace options error: '' @ base64Error sv a))
             else getAndSetWatcher sv req (FinReplaceOptions bs) s))
      else if cmd = ''proxy-status'' then getAndSetWatcher sv req FinProxyStatus s
      else if cmd = ''exists'' then existsCommand sv req s
      else if cmd = ''get time'' then Ret (s, sendReply req (format_int (wallSeconds sv)))
      else if cmd = ''get random'' then Ret (s, sendReply req (format_int (uint (randomWord sv))))
      else if cmd = ''get pubk'' then Ret (s, sendReply req (b64_encode (clusterPubk sv)))
      else if cmd = ''version'' then Ret (s, sendReply req ''v0.1.7'')
      else if cmd = ''reserve'' then createNameFunc sv args req s
      else if cmd = ''delete'' then deleteNameFunc sv args req s
      else Ret (s, sendReply req helpText))"

section \<open>Finding and checking the command\<close>

text \<open>The command and its arguments: two words if they name one, else one word, else help.\<close>

definition findCommand :: "services \<Rightarrow> string \<Rightarrow> string \<times> string list" where
  "findCommand sv cmd =
     (let parts = split_on (CHR '' '') cmd;
          two = to_lower (uniLower sv) (hd parts @ '' '' @ (parts ! 1));
          one = to_lower (uniLower sv) (hd parts)
      in if 1 < length parts \<and> map_of commandTable two \<noteq> None then (two, drop 2 parts)
         else if map_of commandTable one \<noteq> None then (one, drop 1 parts)
         else (''help'', drop 1 parts))"

definition requiresEncryption :: "string \<Rightarrow> bool" where
  "requiresEncryption name =
     (case map_of commandTable name of None \<Rightarrow> True | Some d \<Rightarrow> \<not> contains d open_lock)"

definition fitBytes :: "nat \<Rightarrow> bytes \<Rightarrow> bytes" where
  "fitBytes n bs = take n (bs @ replicate n (CHR 0x00))"

text \<open>The sealed option must open to the command and a time at most ten seconds off; the
  difference is taken in 64-bit arithmetic.\<close>

definition timeIsNear :: "int \<Rightarrow> int \<Rightarrow> bool" where
  "timeIsNear now t =
     (let diff = (word_of_int now - word_of_int t :: u64);
          diff' = (if sint diff \<le> 0 then - diff else diff)
      in sint diff' \<le> 10)"

definition decryptCommand :: "services \<Rightarrow> options \<Rightarrow> string \<Rightarrow> bool" where
  "decryptCommand sv opts command =
     (let (sealed, ok1) = GetOption opts ''sealed'';
          (nonce, ok2) = GetOption opts ''nonc'';
          (pubk, ok3) = GetOption opts ''pubk''
      in ok1 \<and> ok2 \<and> ok3 \<and>
         (case b64_decode pubk of (pubkBytes, ok4) \<Rightarrow> ok4 \<and>
           (case boxOpen sv sealed (fitBytes 24 nonce) (fitBytes 32 pubkBytes) of
              None \<Rightarrow> False
            | Some payload \<Rightarrow>
                let parts = split_on (CHR ''#'') payload in
                2 \<le> length parts \<and>
                (case parse_int 64 (last parts) of
                   None \<Rightarrow> False
                 | Some t \<Rightarrow> timeIsNear (wallSeconds sv) t \<and> command = hd parts))))"

definition processLookup :: "looker \<Rightarrow> env \<Rightarrow> services \<Rightarrow> lookupReq \<Rightarrow> topics \<Rightarrow> handled" where
  "processLookup me e sv req s =
     (if \<not> isGuru me then
        bind_out (pushUp me e (Lookup (lookAddress req) (lookSource req) (lookOptions req)) (lookHash req))
          (\<lambda>effs. Ret (s, effs))
      else
        let cmd = TrimSpace (fst (GetOption (lookOptions req) ''cmd''));
            (name, args) = findCommand sv cmd
        in if \<not> requiresEncryption name \<or> decryptCommand sv (lookOptions req) cmd
           then executeCommand sv name args req s
           else Ret (s, sendReply req ''error: decryption failed''))"

section \<open>The handler's contract\<close>

lemma finishCommand_local: "h = lookHash req \<Longrightarrow> local_run h (\<lambda>s. finishCommand sv req fin s wt)"
  by (cases fin) (auto simp: Let_def storeOption_def intro!: local_intros)

lemma finishCommand_safe:
  "h = lookHash req \<Longrightarrow> topic_ok h wt \<Longrightarrow> safe_run h (\<lambda>s. finishCommand sv req fin s wt)"
  by (cases fin)
     (auto simp: Let_def storeOption_def wtSetOption_ok wtReplaceOptions_ok intro!: safe_intros)

lemma getAndSetWatcher_local: "h = lookHash req \<Longrightarrow> local_run h (getAndSetWatcher sv req fin)"
  unfolding getAndSetWatcher_def
  by (auto intro!: local_intros finishCommand_local)

lemma getAndSetWatcher_safe: "h = lookHash req \<Longrightarrow> safe_run h (getAndSetWatcher sv req fin)"
  unfolding getAndSetWatcher_def
  by (auto intro!: safe_intros finishCommand_safe)

lemma createName_local: "h = lookHash req \<Longrightarrow> local_run h (createNameFunc sv args req)"
  unfolding createNameFunc_def Let_def
  by (auto intro!: local_intros)

lemma createName_safe: "h = lookHash req \<Longrightarrow> safe_run h (createNameFunc sv args req)"
  unfolding createNameFunc_def Let_def
  by (auto intro!: safe_intros simp: topic_ok_def)

lemma deleteName_local: "h = lookHash req \<Longrightarrow> local_run h (deleteNameFunc sv args req)"
  unfolding deleteNameFunc_def Let_def
  by (auto intro!: local_intros)

lemma deleteName_safe: "h = lookHash req \<Longrightarrow> safe_run h (deleteNameFunc sv args req)"
  unfolding deleteNameFunc_def Let_def
  by (auto intro!: safe_intros)

lemma exists_local: "h = lookHash req \<Longrightarrow> local_run h (existsCommand sv req)"
  unfolding existsCommand_def by (auto intro!: local_intros)

lemma exists_safe: "h = lookHash req \<Longrightarrow> safe_run h (existsCommand sv req)"
  unfolding existsCommand_def by (auto intro!: safe_intros)

lemma setOption_local: "h = lookHash req \<Longrightarrow> local_run h (setOptionCommand sv args req)"
  unfolding setOptionCommand_def by (auto intro!: local_intros getAndSetWatcher_local)

lemma setOption_safe: "h = lookHash req \<Longrightarrow> safe_run h (setOptionCommand sv args req)"
  unfolding setOptionCommand_def by (auto intro!: safe_intros getAndSetWatcher_safe)

lemmas command_local = getAndSetWatcher_local createName_local deleteName_local exists_local setOption_local
lemmas command_safe = getAndSetWatcher_safe createName_safe deleteName_safe exists_safe setOption_safe

lemma execute_local: "h = lookHash req \<Longrightarrow> local_run h (executeCommand sv cmd args req)"
  unfolding executeCommand_def by (intro local_intros command_local) simp_all

lemma execute_safe: "h = lookHash req \<Longrightarrow> safe_run h (executeCommand sv cmd args req)"
  unfolding executeCommand_def by (intro safe_intros command_safe) simp_all

lemma processLookup_local: "local_run (lookHash req) (processLookup me e sv req)"
  unfolding processLookup_def Let_def
  by (intro local_intros execute_local) simp_all

lemma processLookup_safe: "safe_run (lookHash req) (processLookup me e sv req)"
  unfolding processLookup_def Let_def
  by (intro safe_intros execute_safe) simp_all

interpretation look: topic_handler "processLookup me e sv req" "lookHash req" for me e sv req
  by (rule handler_of_runs [OF processLookup_local processLookup_safe])

lemma lookBack_local: "local_run (lookHash req) (lookBackRun sv req wto fin)"
  unfolding lookBackRun_def Let_def
  by (intro local_option local_ret local_set local_after [OF finishCommand_local] refl)

lemma lookBack_safe: "(\<And>wt. wto = Some wt \<Longrightarrow> topic_ok (lookHash req) wt) \<Longrightarrow>
  safe_run (lookHash req) (lookBackRun sv req wto fin)"
  unfolding lookBackRun_def Let_def
  by (cases wto) (auto intro!: safe_set safe_after [OF finishCommand_safe])

lemma lookBackSame_local: "local_run (lookHash req) (lookBackSameRun req wt)"
proof -
  have "lookBackSameRun req wt = (\<lambda>s. case getWatcher s (lookHash req) of
      None \<Rightarrow> Ret (setWatcher s (lookHash req) (Some wt), sendReply req ''ok'')
    | Some w \<Rightarrow> Ret (s, sendReply req ''ok''))"
    by (rule ext) (simp add: lookBackSameRun_def split: option.split)
  then show ?thesis by (simp add: local_case local_set local_ret)
qed

lemma lookBackSame_safe: "topic_ok (lookHash req) wt \<Longrightarrow> safe_run (lookHash req) (lookBackSameRun req wt)"
  by (auto simp: safe_run_def lookBackSameRun_def getWatcher_set split: option.splits)

text \<open>What a lookup queues to its bucket is about its own topic, and carries a topic with that name.\<close>

definition look_effect :: "lookupReq \<Rightarrow> effect \<Rightarrow> bool" where
  "look_effect req x \<longleftrightarrow>
     (case x of
        Requeue (CallBackMessage (LookBack r (Some wt) fin)) \<Rightarrow> r = req \<and> topic_ok (lookHash req) wt
      | RequeueNow (CallBackMessage (LookBack r wto fin)) \<Rightarrow>
          r = req \<and> (\<forall>wt. wto = Some wt \<longrightarrow> topic_ok (lookHash req) wt)
      | RequeueNow (CallBackMessage (LookBackSame r wt)) \<Rightarrow> r = req \<and> topic_ok (lookHash req) wt
      | Requeue _ \<Rightarrow> False
      | RequeueNow _ \<Rightarrow> False
      | Down c p \<Rightarrow> False
      | _ \<Rightarrow> True)"

definition known_ok :: "HashType \<Rightarrow> WatchedTopic option \<Rightarrow> bool" where
  "known_ok h w \<longleftrightarrow> (\<forall>wt. w = Some wt \<longrightarrow> topic_ok h wt)"

definition db_ok :: "services \<Rightarrow> bool" where
  "db_ok sv \<longleftrightarrow> (\<forall>h wt. dbGet sv (ToBase64 h) = Some wt \<longrightarrow> topic_ok h wt)"

lemma reply_effects: "x \<in> set (sendReply req r) \<Longrightarrow> look_effect req x"
  by (simp add: sendReply_def look_effect_def)

lemma look_effect_simps:
  "look_effect req (ToAide p)" "look_effect req (SaveTopic wt)" "look_effect req (DeleteTopic t)" "look_effect req (Up i p)"
  "look_effect req (Requeue (CallBackMessage (LookBack r (Some wt) fin))) \<longleftrightarrow> r = req \<and> topic_ok (lookHash req) wt"
  "look_effect req (RequeueNow (CallBackMessage (LookBack r wto fin))) \<longleftrightarrow>
     r = req \<and> (\<forall>wt. wto = Some wt \<longrightarrow> topic_ok (lookHash req) wt)"
  "look_effect req (RequeueNow (CallBackMessage (LookBackSame r wt))) \<longleftrightarrow> r = req \<and> topic_ok (lookHash req) wt"
  by (simp_all add: look_effect_def)

lemma topic_ok_updates [simp]:
  "topic_ok h (wt\<lparr>Expires := a\<rparr>) = topic_ok h wt" "topic_ok h (wt\<lparr>Jwtid := b\<rparr>) = topic_ok h wt"
  "topic_ok h (wt\<lparr>Owner := c\<rparr>) = topic_ok h wt" "topic_ok h (wt\<lparr>NameStr := d\<rparr>) = topic_ok h wt"
  by (simp_all add: topic_ok_def)

lemma finishCommand_effects:
  "run_post h Q (\<lambda>s s' effs. \<forall>x \<in> set effs. look_effect req x) (\<lambda>s. finishCommand sv req fin s wt)"
  by (cases fin) (auto simp: Let_def storeOption_def sendReply_def look_effect_def run_post_def bind_out_Ret
    split: if_splits sum.splits)

lemma getAndSetWatcher_effects:
  "db_ok sv \<Longrightarrow> run_post (lookHash req) Q (\<lambda>s s' effs. \<forall>x \<in> set effs. look_effect req x) (getAndSetWatcher sv req fin)"
  unfolding getAndSetWatcher_def
  by (auto intro!: post_intros finishCommand_effects simp: reply_effects)
     (auto simp: look_effect_def db_ok_def)

lemma createName_effects:
  "db_ok sv \<Longrightarrow> run_post (lookHash req) (known_ok (lookHash req)) (\<lambda>s s' effs. \<forall>x \<in> set effs. look_effect req x)
     (createNameFunc sv args req)"
  unfolding createNameFunc_def Let_def
  by (intro post_intros) (auto simp: reply_effects look_effect_simps db_ok_def emptyTopic_ok known_ok_def)

lemma deleteName_effects:
  "run_post (lookHash req) Q (\<lambda>s s' effs. \<forall>x \<in> set effs. look_effect req x) (deleteNameFunc sv args req)"
  unfolding deleteNameFunc_def Let_def
  by (intro post_intros) (auto simp: reply_effects look_effect_simps)

lemma exists_effects:
  "db_ok sv \<Longrightarrow> run_post (lookHash req) Q (\<lambda>s s' effs. \<forall>x \<in> set effs. look_effect req x) (existsCommand sv req)"
  unfolding existsCommand_def
  by (intro post_intros) (auto simp: reply_effects look_effect_simps db_ok_def)

lemma execute_effects:
  "db_ok sv \<Longrightarrow> run_post (lookHash req) (known_ok (lookHash req)) (\<lambda>s s' effs. \<forall>x \<in> set effs. look_effect req x)
     (executeCommand sv cmd args req)"
  unfolding executeCommand_def setOptionCommand_def
  by (intro post_intros getAndSetWatcher_effects createName_effects deleteName_effects exists_effects)
     (simp_all add: reply_effects)

lemma pushUp_effects: "pushUp me e p h = Ret effs \<Longrightarrow> x \<in> set effs \<Longrightarrow> \<exists>i. x = Up i p"
  by (auto simp: pushUp_def PushUp_def bind_out_Ret split: option.splits if_splits)

lemma lookup_effects:
  "db_ok sv \<Longrightarrow> run_post (lookHash req) (known_ok (lookHash req)) (\<lambda>s s' effs. \<forall>x \<in> set effs. look_effect req x)
     (processLookup me e sv req)"
  unfolding processLookup_def Let_def
  by (intro post_intros execute_effects)
     (auto simp: reply_effects look_effect_simps dest!: pushUp_effects)

section \<open>Who may change a topic\<close>

definition is_reply :: "lookupReq \<Rightarrow> effect \<Rightarrow> bool" where
  "is_reply req x \<longleftrightarrow> (\<exists>r. x = ToAide (replyPacket req r))"

definition read_finish :: "finish \<Rightarrow> bool" where
  "read_finish fin \<longleftrightarrow> (case fin of FinSetOption _ _ _ \<Rightarrow> False | FinBulkOption _ _ \<Rightarrow> False
     | FinReplaceOptions _ \<Rightarrow> False | FinDetails \<Rightarrow> False | _ \<Rightarrow> True)"

definition read_effect :: "lookupReq \<Rightarrow> effect \<Rightarrow> bool" where
  "read_effect req x \<longleftrightarrow> is_reply req x
     \<or> (\<exists>wt fin. x = Requeue (CallBackMessage (LookBack req (Some wt) fin)) \<and> read_finish fin)"

definition refused :: "lookupReq \<Rightarrow> WatchedTopic option \<Rightarrow> bool" where
  "refused req w \<longleftrightarrow> (\<exists>wt. w = Some wt \<and> Owner wt \<noteq> reqPubk req)"

lemma reply_is: "x \<in> set (sendReply req r) \<Longrightarrow> is_reply req x"
  by (auto simp: sendReply_def is_reply_def)

lemma finish_refused:
  "Owner wt \<noteq> reqPubk req \<Longrightarrow>
    run_post h Q (\<lambda>s s' effs. s' = s \<and> (\<forall>x \<in> set effs. is_reply req x)) (\<lambda>s. finishCommand sv req fin s wt)"
  by (cases fin) (auto simp: Let_def run_post_def bind_out_Ret split: if_splits dest: reply_is)

lemma execute_refused:
  "run_post (lookHash req) (refused req) (\<lambda>s s' effs. s' = s \<and> (\<forall>x \<in> set effs. is_reply req x))
     (executeCommand sv cmd args req)"
  unfolding executeCommand_def setOptionCommand_def getAndSetWatcher_def createNameFunc_def deleteNameFunc_def
    existsCommand_def Let_def
  by (intro post_intros finish_refused) (auto simp: refused_def dest: reply_is)

lemma finish_read:
  "read_finish fin \<Longrightarrow>
    run_post h Q (\<lambda>s s' effs. s' = s \<and> (\<forall>x \<in> set effs. is_reply req x)) (\<lambda>s. finishCommand sv req fin s wt)"
  by (cases fin) (auto simp: Let_def run_post_def bind_out_Ret read_finish_def split: if_splits dest: reply_is)

lemma open_names:
  "filter (\<lambda>n. \<not> requiresEncryption n) (map fst commandTable) =
     [''get option'', ''get txt'', ''proxy-status'', ''exists'', ''get time'', ''get pubk'', ''help'']"
  by code_simp

lemma open_commands:
  assumes "\<not> requiresEncryption name"
  shows "name \<in> {''get option'', ''get txt'', ''proxy-status'', ''exists'', ''get time'', ''get pubk'', ''help''}"
proof -
  obtain d where "map_of commandTable name = Some d"
    using assms unfolding requiresEncryption_def by (auto split: option.splits)
  then have "name \<in> set (map fst commandTable)"
    using map_of_SomeD by (simp only: set_map) (rule image_eqI [where x = "(name, d)"], simp, fast)
  then have "name \<in> set (filter (\<lambda>n. \<not> requiresEncryption n) (map fst commandTable))" using assms by simp
  then show ?thesis unfolding open_names by simp
qed

lemma read_reply: "is_reply req x \<Longrightarrow> read_effect req x"
  by (simp add: read_effect_def)

lemma getAndSet_read:
  assumes "read_finish fin"
  shows "run_post (lookHash req) Q (\<lambda>s s' effs. s' = s \<and> (\<forall>x \<in> set effs. read_effect req x)) (getAndSetWatcher sv req fin)"
proof -
  have "run_post h Q (\<lambda>s s' effs. s' = s \<and> (\<forall>x \<in> set effs. read_effect req x)) (\<lambda>s. finishCommand sv req fin s wt)"
    for h Q wt using finish_read [OF assms] by (auto simp: run_post_def read_effect_def)
  then show ?thesis
    unfolding getAndSetWatcher_def
    by (intro post_intros) (auto simp: assms read_effect_def dest: reply_is)
qed

lemma execute_open:
  assumes "\<not> requiresEncryption name"
  shows "run_post (lookHash req) Q (\<lambda>s s' effs. s' = s \<and> (\<forall>x \<in> set effs. read_effect req x))
     (executeCommand sv name args req)"
proof -
  have r: "read_finish (FinGetOption a b)" "read_finish (FinGetTxt a)" "read_finish FinProxyStatus" for a b
    by (simp_all add: read_finish_def)
  show ?thesis
    using open_commands [OF assms] unfolding executeCommand_def existsCommand_def
    by (intro post_intros getAndSet_read r)
       (auto simp: read_effect_def read_finish_def dest: reply_is)
qed

section \<open>Every command is answered\<close>

definition answers :: "lookupReq \<Rightarrow> effect list \<Rightarrow> nat" where
  "answers req effs =
     length (filter (\<lambda>x. case x of
        ToAide p \<Rightarrow> True
      | Requeue (CallBackMessage (LookBack r w fin)) \<Rightarrow> r = req
      | RequeueNow (CallBackMessage (LookBack r w fin)) \<Rightarrow> r = req
      | RequeueNow (CallBackMessage (LookBackSame r w)) \<Rightarrow> r = req
      | _ \<Rightarrow> False) effs)"

lemma answers_simps:
  "answers req (sendReply req r) = 1" "answers req [] = 0"
  "answers req [Requeue (CallBackMessage (LookBack req w fin))] = 1"
  "answers req [RequeueNow (CallBackMessage (LookBack req w fin))] = 1"
  "answers req [RequeueNow (CallBackMessage (LookBackSame req wt))] = 1"
  "answers req (SaveTopic wt # effs) = answers req effs"
  "answers req (DeleteTopic t # effs) = answers req effs"
  by (simp_all add: answers_def sendReply_def)

lemma finish_answers: "run_post h Q (\<lambda>s s' effs. answers req effs = 1) (\<lambda>s. finishCommand sv req fin s wt)"
  by (cases fin) (auto simp: Let_def storeOption_def run_post_def bind_out_Ret answers_simps split: if_splits sum.splits)

lemma execute_answers:
  "cmd \<noteq> ''get option'' \<or> args \<noteq> [] \<Longrightarrow>
    run_post (lookHash req) Q (\<lambda>s s' effs. answers req effs = 1) (executeCommand sv cmd args req)"
  unfolding executeCommand_def setOptionCommand_def getAndSetWatcher_def createNameFunc_def deleteNameFunc_def
    existsCommand_def Let_def
  by (intro post_intros finish_answers) (auto simp: answers_simps)

lemma lookBack_answers: "lookBackRun sv req wto fin s = Ret (s', effs) \<Longrightarrow> om_ok s \<Longrightarrow> answers req effs = 1"
  using run_postD [OF finish_answers [where Q = "\<lambda>w. True"], of "setWatcher s (lookHash req) wto"]
  by (cases wto) (auto simp: lookBackRun_def Let_def answers_simps setWatcher_ok)

end
