(* ===== verification/LookOptions.thy ===== *)
theory LookOptions
  imports LookMsg "HOL-Library.Multiset"
begin

text \<open>
  The option values of a topic that are maps (\<open>StringToMap\<close> and \<open>MapToString\<close> of
  \<open>iot/lookmsg.go\<close>): words separated by blanks. Maps of plain words survive being written and read
  back in any order of the keys, so what an owner sets is what a reader gets; other words do not,
  and a value that does not read back stops the guru.
\<close>

section \<open>Plain words\<close>

definition plain_char :: "char \<Rightarrow> bool" where
  "plain_char c \<longleftrightarrow> 33 \<le> byte_val c \<and> byte_val c \<le> 126"

definition plain_word :: "string \<Rightarrow> bool" where
  "plain_word w \<longleftrightarrow> w \<noteq> [] \<and> (\<forall>c \<in> set w. plain_char c)"

definition plain_map :: "(string, string) omap \<Rightarrow> bool" where
  "plain_map m \<longleftrightarrow> om_ok m \<and> (\<forall>(k, v) \<in> set m. plain_word k \<and> plain_word v)"

lemma plain_no_blank: "plain_word w \<Longrightarrow> CHR '' '' \<notin> set w"
  by (auto simp: plain_word_def plain_char_def)

lemma space_front_plain: "plain_char c \<Longrightarrow> space_front (c # s) = 0"
  by (auto simp: space_front_def plain_char_def is_space_rune_def Let_def)

lemma decode_last:
  assumes "decode_rune t = (r, length t)" "2 \<le> length t" "length t \<le> 3"
  shows "128 \<le> byte_val (last t)"
proof (cases t)
  case (Cons c s)
  then show ?thesis
    using assms by (auto simp: Let_def byte_in_def second_range_def split: if_splits list.splits)
qed (use assms in simp)

lemma space_back_plain:
  assumes "s \<noteq> []" "plain_char (last s)"
  shows "space_back s = 0"
proof -
  have l: "byte_val (last s) < 128" using assms(2) by (simp add: plain_char_def)
  have "\<not> ends_in s w" if "2 \<le> w" "w \<le> 3" for w
  proof
    assume e: "ends_in s w"
    then have w: "length (drop (length s - w) s) = w" by (simp add: ends_in_def)
    obtain r where "decode_rune (drop (length s - w) s) = (r, w)"
      using e by (auto simp: ends_in_def split: prod.splits)
    then have "128 \<le> byte_val (last (drop (length s - w) s))"
      using that w decode_last [of "drop (length s - w) s" r] by simp
    moreover have "last (drop (length s - w) s) = last s"
      using e that by (intro last_drop) (auto simp: ends_in_def)
    ultimately show False using l by simp
  qed
  moreover have "\<not> ends_in s 1"
  proof -
    have "drop (length s - 1) s = [last s]"
      using assms(1) by (metis append_butlast_last_id append_eq_conv_conj length_butlast)
    then show ?thesis using assms(2) l by (auto simp: ends_in_def plain_char_def is_space_rune_def Let_def)
  qed
  ultimately show ?thesis by (simp add: space_back_def)
qed

lemma trim_plain:
  assumes "s \<noteq> []" "plain_char (hd s)" "plain_char (last s)"
  shows "TrimSpace s = s"
proof -
  have "trim_left s = s"
    using assms(1,2) space_front_plain by (cases s) (simp_all add: trim_left.simps)
  then show ?thesis
    using space_back_plain [OF assms(1,3)] by (simp add: TrimSpace_def trim_right.simps)
qed

section \<open>Writing and reading a map\<close>

definition words_of :: "(string, string) omap \<Rightarrow> string list \<Rightarrow> string list" where
  "words_of m ks = concat (map (\<lambda>k. [k, case om_get m k of None \<Rightarrow> [] | Some v \<Rightarrow> v]) ks)"

definition permutes_keys :: "(string list \<Rightarrow> string list) \<Rightarrow> bool" where
  "permutes_keys order \<longleftrightarrow> (\<forall>ks. mset (order ks) = mset ks)"

lemma blanks_join:
  "ws \<noteq> [] \<Longrightarrow> butlast (concat (map (\<lambda>w. w @ '' '') ws)) = join_with (CHR '' '') ws"
  by (induction ws rule: join_with.induct) (auto simp: butlast_append)

lemma pairLoop_words:
  "pairLoop (words_of m ks) acc = Ret (om_build (map (\<lambda>k. (k, case om_get m k of None \<Rightarrow> [] | Some v \<Rightarrow> v)) ks) acc)"
  by (induction ks arbitrary: acc) (simp_all add: words_of_def)

lemma MapToString_words:
  assumes "m \<noteq> []" "permutes_keys order"
  shows "MapToString order m = Ret (join_with (CHR '' '') (words_of m (order (map fst m))))"
proof -
  let ?ks = "order (map fst m)"
  have ne: "?ks \<noteq> []" using assms by (metis Nil_is_map_conv mset_zero_iff permutes_keys_def)
  have "concat (map (\<lambda>key. key @ '' '' @ (case om_get m key of None \<Rightarrow> [] | Some v \<Rightarrow> v) @ '' '') ks) =
      concat (map (\<lambda>w. w @ '' '') (words_of m ks))" for ks
    by (induction ks) (simp_all add: words_of_def)
  moreover have "words_of m ?ks \<noteq> []" "concat (map (\<lambda>w. w @ '' '') (words_of m ?ks)) \<noteq> []"
    using ne by (cases ?ks; simp add: words_of_def)+
  ultimately show ?thesis by (simp add: MapToString_def Let_def blanks_join)
qed

lemma map_of_rev_keys: "map_of (rev (map (\<lambda>k. (k, f k)) ks)) k = (if k \<in> set ks then Some (f k) else None)"
  by (induction ks) (auto simp: map_add_def)

lemma words_build:
  assumes "om_ok m" "permutes_keys order"
  shows "om_build (map (\<lambda>k. (k, case om_get m k of None \<Rightarrow> [] | Some v \<Rightarrow> v)) (order (map fst m))) [] = m"
proof (rule om_eqI)
  have s: "set (order (map fst m)) = fst ` set m"
    using assms(2) by (metis mset_eq_setD permutes_keys_def set_map)
  show "om_get (om_build (map (\<lambda>k. (k, case om_get m k of None \<Rightarrow> [] | Some v \<Rightarrow> v)) (order (map fst m))) []) k
      = om_get m k" for k
  proof (cases "k \<in> fst ` set m")
    case True
    then obtain v where "om_get m k = Some v" using om_get_None_iff [of m k] by auto
    then show ?thesis using True by (simp add: om_build_get map_of_rev_keys s)
  next
    case False
    then have "om_get m k = None" using om_get_None_iff [of m k] by simp
    then show ?thesis using False by (simp add: om_build_get map_of_rev_keys s)
  qed
qed (simp_all add: assms om_build_ok)

lemma words_plain:
  assumes "plain_map m" "permutes_keys order" "w \<in> set (words_of m (order (map fst m)))"
  shows "plain_word w"
proof -
  have s: "set (order (map fst m)) = fst ` set m"
    using assms(2) by (metis mset_eq_setD permutes_keys_def set_map)
  obtain k where k: "k \<in> fst ` set m" "w \<in> {k, case om_get m k of None \<Rightarrow> [] | Some v \<Rightarrow> v}"
    using assms(3) s by (auto simp: words_of_def)
  obtain v where v: "om_get m k = Some v" using k(1) om_get_None_iff [of m k] by auto
  then show ?thesis using k(2) om_get_mem [OF v] assms(1) by (auto simp: plain_map_def)
qed

lemma join_ends:
  "ws \<noteq> [] \<Longrightarrow> (\<And>w. w \<in> set ws \<Longrightarrow> plain_word w) \<Longrightarrow>
    join_with (CHR '' '') ws \<noteq> [] \<and> plain_char (hd (join_with (CHR '' '') ws)) \<and>
    plain_char (last (join_with (CHR '' '') ws))"
proof (induction ws)
  case (Cons w ws)
  have "plain_word w" using Cons.prems(2) by simp
  then have w: "w \<noteq> []" "plain_char (hd w)" "plain_char (last w)" by (auto simp: plain_word_def)
  show ?case
  proof (cases "ws = []")
    case False
    then show ?thesis using Cons w by (simp add: join_with_Cons)
  qed (use w in simp)
qed simp

lemma map_roundtrip:
  assumes "plain_map m" "m \<noteq> []" "permutes_keys order"
  shows "\<exists>str. MapToString order m = Ret str \<and> StringToMap str = Ret m"
proof -
  let ?ks = "order (map fst m)"
  let ?ws = "words_of m ?ks"
  let ?str = "join_with (CHR '' '') ?ws"
  have len: "length (words_of m ks) = 2 * length ks" for ks by (induction ks) (simp_all add: words_of_def)
  have "length ?ks = length m" using assms(3) by (metis length_map mset_eq_length permutes_keys_def)
  then have ne: "?ws \<noteq> []" "length ?ws \<noteq> 1" using len [of ?ks] assms(2) by (cases m; auto)+
  have ends: "?str \<noteq> []" "plain_char (hd ?str)" "plain_char (last ?str)"
    using join_ends [OF ne(1) words_plain [OF assms(1,3)]] by simp_all
  have "split_on (CHR '' '') ?str = ?ws"
    using words_plain [OF assms(1,3)] plain_no_blank by (intro split_join ne) auto
  then have "StringToMap ?str = pairLoop ?ws []"
    using ends ne by (simp add: StringToMap_def trim_plain Let_def)
  also have "\<dots> = Ret m"
    using words_build [OF conjunct1 [OF assms(1) [unfolded plain_map_def]] assms(3)] by (simp add: pairLoop_words)
  finally show ?thesis using MapToString_words [OF assms(2,3)] by simp
qed

section \<open>Setting and getting\<close>

lemma om_put_set: "set (om_put k v m) \<subseteq> insert (k, v) (set m)"
  by (induction k v m rule: om_put.induct) auto

lemma plain_put: "plain_map m \<Longrightarrow> plain_word k \<Longrightarrow> plain_word v \<Longrightarrow> plain_map (om_put k v m)"
  using om_put_set [of k v m] by (fastforce simp: plain_map_def om_put_ok)

lemma put_not_Nil: "om_put k v m \<noteq> []"
  by (cases "(k, v, m)" rule: om_put.cases) auto

lemma get_wtSetOption: "wtGetOption (wtSetOption wt k v) k = (v, True)"
  by (simp add: wtGetOption_def wtSetOption_def om_put_get)

lemma storeOption_plain:
  assumes "plain_map m" "m \<noteq> []" "permutes_keys (mapKeys sv)"
  shows "\<exists>wt'. storeOption sv req key m s wt =
      Ret (setWatcher s (lookHash req) (Some wt'), SaveTopic wt' # sendReply req ''ok'')
    \<and> optionMapOf wt' key = Ret m \<and> Owner wt' = Owner wt \<and> thetree wt' = thetree wt"
proof -
  obtain str where str: "MapToString (mapKeys sv) m = Ret str" "StringToMap str = Ret m"
    using map_roundtrip [OF assms] by auto
  have "optionMapOf (wtSetOption wt key str) key = Ret m"
    using str(2) by (simp add: optionMapOf_def get_wtSetOption)
  then show ?thesis
    using str(1) by (intro exI [of _ "wtSetOption wt key str"]) (simp add: storeOption_def Let_def wtSetOption_def)
qed

lemma upper_val: "byte_val (upper_byte c) = (if 97 \<le> byte_val c \<and> byte_val c \<le> 122 then byte_val c - 32 else byte_val c)"
proof -
  have "byte_val c - 32 < (256::nat)" using byte_val_less [of c] by linarith
  then show ?thesis by (simp add: upper_byte_def byte_val_of)
qed

lemma upper_idem: "upper_byte (upper_byte c) = upper_byte c"
proof -
  have "\<not> (97 \<le> byte_val (upper_byte c) \<and> byte_val (upper_byte c) \<le> 122)" by (simp only: upper_val) auto
  then show ?thesis by (simp only: upper_byte_def [of "upper_byte c"] if_False)
qed

lemma to_upper_idem: "ascii s \<Longrightarrow> to_upper uni (to_upper uni s) = to_upper uni s"
  by (auto simp: to_upper_def upper_idem ascii_def upper_val list_all_iff comp_def)

text \<open>What the owner sets, a reader of the topic gets; the other entries stay.\<close>

lemma set_then_map:
  assumes "getWatcher s (lookHash req) = Some wt" "reqPubk req = Owner wt" "ascii key"
    "optionMapOf wt (to_upper (uniUpper sv) key) = Ret m"
    "plain_map m" "plain_word sub" "plain_word v" "permutes_keys (mapKeys sv)" "om_ok s"
  shows "\<exists>wt' s'. executeCommand sv ''set option'' [key, sub, v] req s =
      Ret (s', SaveTopic wt' # sendReply req ''ok'')
    \<and> getWatcher s' (lookHash req) = Some wt' \<and> om_ok s'
    \<and> optionMapOf wt' (to_upper (uniUpper sv) key) = Ret (om_put sub v m)
    \<and> Owner wt' = Owner wt \<and> thetree wt' = thetree wt"
proof -
  note p = plain_put [OF assms(5-7)]
  obtain wt' where "storeOption sv req (to_upper (uniUpper sv) key) (om_put sub v m) s wt =
      Ret (setWatcher s (lookHash req) (Some wt'), SaveTopic wt' # sendReply req ''ok'')"
    and r: "optionMapOf wt' (to_upper (uniUpper sv) key) = Ret (om_put sub v m)"
      "Owner wt' = Owner wt" "thetree wt' = thetree wt"
    using storeOption_plain [OF p put_not_Nil assms(8)] by metis
  then have "executeCommand sv ''set option'' [key, sub, v] req s =
      Ret (setWatcher s (lookHash req) (Some wt'), SaveTopic wt' # sendReply req ''ok'')"
    using assms(1-4) by (simp add: executeCommand_def setOptionCommand_def getAndSetWatcher_def to_upper_idem)
  then show ?thesis using r assms(9) by (auto simp: getWatcher_set setWatcher_ok)
qed

lemma get_option_map:
  assumes "getWatcher s (lookHash req) = Some wt" "optionMapOf wt (to_upper (uniUpper sv) key) = Ret m"
    "om_get m sub = Some v"
  shows "executeCommand sv ''get option'' [key, sub] req s = Ret (s, sendReply req v)"
  using assms by (simp add: executeCommand_def getAndSetWatcher_def)

end
