(* ===== verification/Upstream.thy ===== *)
theory Upstream
  imports LookupTable
begin

text \<open>
  The upstream router (\<open>iot/upper-channels.go\<close>, \<open>iot/guru-dialer.go\<close>): a channel per guru,
  \<open>SetUpstreamNames\<close> when the set of gurus changes, the start of a dialer and of a connection.
  The goroutines that pump packets between channel and socket are not modelled.
\<close>

section \<open>Upper channels\<close>

definition isRunning :: "upperChannel \<Rightarrow> bool" where
  "isRunning upc \<longleftrightarrow> upStopped upc \<noteq> ClosedChan"

definition newUpperChannel :: "string \<Rightarrow> string \<Rightarrow> nat \<Rightarrow> upperChannel" where
  "newUpperChannel name address i =
     \<lparr>upName = name, upAddress = address, upQueue = [], upIndex = i, upUp = OpenChan, upDown = OpenChan,
      upStopped = NilChan, upConn = False\<rparr>"

text \<open>The first statement of \<open>dialGuru\<close>, and the start of \<open>dialGuruAndServe\<close> up to the result of
  the dial.\<close>

definition dialGuruStart :: "upperChannel \<Rightarrow> upperChannel" where
  "dialGuruStart upc = upc\<lparr>upStopped := OpenChan\<rparr>"

definition dialGuruServe :: "upperChannel \<Rightarrow> bool \<Rightarrow> upperChannel" where
  "dialGuruServe upc dialed =
     (if dialed then upc\<lparr>upConn := True, upDown := NilChan\<rparr> else upc\<lparr>upConn := False\<rparr>)"

definition closeChan :: "chanState \<Rightarrow> chanState outcome" where
  "closeChan c = (if c = OpenChan then Ret ClosedChan else Panic)"

text \<open>A channel that is no longer wanted is shut down.\<close>

definition closeUpper :: "upperChannel \<Rightarrow> upperChannel outcome" where
  "closeUpper upc =
     bind_out (closeChan (upStopped upc)) (\<lambda>st.
     bind_out (closeChan (upUp upc)) (\<lambda>up.
     bind_out (closeChan (upDown upc)) (\<lambda>down.
       if \<not> upConn upc then Panic
       else Ret (upc\<lparr>upStopped := st, upUp := up, upDown := down\<rparr>))))"

section \<open>SetUpstreamNames\<close>

definition maglevSize :: "looker \<Rightarrow> nat" where
  "maglevSize me = (if lookDebug me then 97 else 65537)"

text \<open>Whether the names differ from those of the channels; a missing channel panics.\<close>

fun namesDiffer :: "string list \<Rightarrow> upperChannel option list \<Rightarrow> bool outcome" where
  "namesDiffer (n # ns) (Some c # cs) = bind_out (namesDiffer ns cs) (\<lambda>d. Ret (n \<noteq> upName c \<or> d))"
| "namesDiffer (n # ns) (None # cs) = Panic"
| "namesDiffer _ _ = Ret False"

definition hadChange :: "string list \<Rightarrow> upperChannel option list \<Rightarrow> bool outcome" where
  "hadChange names chans =
     (if length names = length chans then namesDiffer names chans else Ret True)"

definition lastIndex :: "string list \<Rightarrow> string \<Rightarrow> int" where
  "lastIndex names me =
     fold (\<lambda>(i, n) acc. if n = me then int i else acc) (enumerate 0 names) (-1)"

definition newMaglev :: "looker \<Rightarrow> string list \<Rightarrow> looker" where
  "newMaglev me names =
     me\<lparr>router := (router me)\<lparr>previousMaglev := maglevTable (router me),
                               maglevTable := Some (names, maglevSize me)\<rparr>\<rparr>"

definition setGuruUpstreamNames :: "looker \<Rightarrow> string list \<Rightarrow> looker \<times> unit outcome" where
  "setGuruUpstreamNames me names =
     broadcast (newMaglev me names) (GuruDeleteRemapped (lastIndex names (myname me)))"

definition channelFor :: "looker \<Rightarrow> nat \<Rightarrow> string \<Rightarrow> string \<Rightarrow> upperChannel" where
  "channelFor me i name address =
     (case om_get (name2channel (router me)) name of
        Some upc \<Rightarrow> if isRunning upc then upc else newUpperChannel name address i
      | None \<Rightarrow> newUpperChannel name address i)"

text \<open>The channels whose name is gone are closed and forgotten.\<close>

fun loseStale :: "string list \<Rightarrow> upperChannel option list \<Rightarrow> (string, upperChannel) omap \<Rightarrow>
    (string, upperChannel) omap outcome" where
  "loseStale names [] n2c = Ret n2c"
| "loseStale names (None # cs) n2c = Panic"
| "loseStale names (Some upc # cs) n2c =
     (if upName upc \<in> set names then loseStale names cs n2c
      else bind_out (closeUpper upc) (\<lambda>_. loseStale names cs (om_remove (upName upc) n2c)))"

definition SetUpstreamNames :: "looker \<Rightarrow> string list \<Rightarrow> string list \<Rightarrow> looker \<times> unit outcome" where
  "SetUpstreamNames me names addresses =
     (if length names \<noteq> length addresses then (me, Panic)
      else case hadChange names (channels (router me)) of
        Panic \<Rightarrow> (me, Panic)
      | Hang \<Rightarrow> (me, Hang)
      | Ret False \<Rightarrow> (me, Ret ())
      | Ret True \<Rightarrow>
          if isGuru me then setGuruUpstreamNames me names
          else
            let old = channels (router me);
                chans = map (\<lambda>(i, n, a). Some (channelFor me i n a)) (enumerate 0 (zip names addresses));
                me1 = me\<lparr>router := (router me)\<lparr>channels := chans\<rparr>\<rparr>
            in case loseStale names old (name2channel (router me1)) of
                 Ret n2c \<Rightarrow>
                   broadcast (newMaglev (me1\<lparr>router := (router me1)\<lparr>name2channel := n2c\<rparr>\<rparr>) names)
                     ReSubscribeRemapped
               | Panic \<Rightarrow> (me1, Panic)
               | Hang \<Rightarrow> (me1, Hang))"

section \<open>The router after a change\<close>

lemma namesDiffer_total: "(\<forall>c \<in> set cs. c \<noteq> None) \<Longrightarrow> length ns = length cs \<Longrightarrow>
  namesDiffer ns cs = Ret (ns \<noteq> map (\<lambda>c. upName (the c)) cs)"
proof (induction ns cs rule: list_induct2')
  case (4 n ns c cs)
  then obtain upc where "c = Some upc" by (cases c) auto
  then show ?case using 4 by auto
qed auto

lemma hadChange_router:
  "router_ok r \<Longrightarrow> hadChange names (channels r) = Ret (names \<noteq> map (\<lambda>c. upName (the c)) (channels r))"
proof -
  assume "router_ok r"
  then have "\<forall>c \<in> set (channels r). c \<noteq> None" by (auto simp: router_ok_def)
  then show ?thesis using namesDiffer_total [of "channels r" names] by (auto simp: hadChange_def)
qed

lemma loseStale_Nil: "loseStale names cs [] = Ret n2c \<Longrightarrow> n2c = []"
proof (induction cs)
  case (Cons c cs)
  then show ?case by (cases c) (auto simp: bind_out_Ret split: if_splits)
qed simp

lemma loseStale_returns: "loseStale names cs n2c \<noteq> Hang"
proof (induction cs arbitrary: n2c)
  case (Cons c cs)
  have h: "closeUpper upc \<noteq> Hang" for upc by (auto simp: closeUpper_def closeChan_def)
  show ?case
  proof (cases c)
    case (Some upc)
    then show ?thesis using Cons h [of upc] by (cases "closeUpper upc") auto
  qed simp
qed simp

lemma channels_new: "name2channel (router me) = [] \<Longrightarrow> channelFor me i n a = newUpperChannel n a i"
  by (simp add: channelFor_def)

lemma map_enumerate_fst: "length xs = length ys \<Longrightarrow> map (\<lambda>(i, n, a). n) (enumerate k (zip xs ys)) = xs"
  by (induction xs ys arbitrary: k rule: list_induct2) auto

text \<open>The router that a successful change leaves: open channels to the given names in their order,
  and a maglev table of these names.\<close>

definition freshChannels :: "string list \<Rightarrow> string list \<Rightarrow> upperChannel option list" where
  "freshChannels names addresses = map (\<lambda>(i, n, a). Some (newUpperChannel n a i)) (enumerate 0 (zip names addresses))"

lemma fresh_length [simp]: "length names = length addresses \<Longrightarrow> length (freshChannels names addresses) = length names"
  by (simp add: freshChannels_def)

lemma fresh_names:
  "length names = length addresses \<Longrightarrow> map (\<lambda>c. upName (the c)) (freshChannels names addresses) = names"
  using map_enumerate_fst [of names addresses 0]
  by (simp add: freshChannels_def newUpperChannel_def comp_def case_prod_unfold)

lemma fresh_open: "c \<in> set (freshChannels names addresses) \<Longrightarrow> \<exists>upc. c = Some upc \<and> upUp upc = OpenChan"
  by (auto simp: freshChannels_def newUpperChannel_def)

definition changedRouter :: "looker \<Rightarrow> string list \<Rightarrow> string list \<Rightarrow> upstreamRouter" where
  "changedRouter me names addresses =
     \<lparr>channels = (if isGuru me then channels (router me) else freshChannels names addresses),
      maglevTable = Some (names, maglevSize me), previousMaglev = maglevTable (router me), name2channel = []\<rparr>"

lemma router_update:
  "r\<lparr>channels := a, name2channel := b, previousMaglev := c, maglevTable := d\<rparr>
    = \<lparr>channels = a, maglevTable = d, previousMaglev = c, name2channel = b\<rparr>"
  "r\<lparr>previousMaglev := c, maglevTable := d\<rparr>
    = \<lparr>channels = channels r, maglevTable = d, previousMaglev = c, name2channel = name2channel r\<rparr>"
  by (cases r, simp)+

text \<open>What a call of \<open>SetUpstreamNames\<close> that does not panic comes down to.\<close>

lemma SetUpstreamNames_cases:
  assumes "SetUpstreamNames me names addresses = (t, r)" "r \<noteq> Panic" "router_ok (router me)"
    "name2channel (router me) = []"
  shows "length names = length addresses \<and>
    (if names = map (\<lambda>c. upName (the c)) (channels (router me)) then t = me \<and> r = Ret ()
     else broadcast (me\<lparr>router := changedRouter me names addresses\<rparr>)
       (if isGuru me then GuruDeleteRemapped (lastIndex names (myname me)) else ReSubscribeRemapped) = (t, r))"
proof (cases "length names = length addresses")
  case True
  note h = hadChange_router [OF assms(3), of names]
  show ?thesis
  proof (cases "names = map (\<lambda>c. upName (the c)) (channels (router me))")
    case False
    have c: "hadChange names (channels (router me)) = Ret True" using h False by simp
    have f: "map (\<lambda>(i, n, a). Some (channelFor me i n a)) (enumerate 0 (zip names addresses)) = freshChannels names addresses"
      using channels_new [OF assms(4)] by (simp add: freshChannels_def)
    show ?thesis
    proof (cases "isGuru me")
      case True
      then have "(t, r) = broadcast (newMaglev me names) (GuruDeleteRemapped (lastIndex names (myname me)))"
        using assms(1) \<open>length names = length addresses\<close> c by (simp add: SetUpstreamNames_def setGuruUpstreamNames_def)
      then show ?thesis
        using False \<open>length names = length addresses\<close> True assms(4)
        by (simp add: newMaglev_def changedRouter_def router_update)
    next
      case aide: False
      obtain n2c where n2c: "loseStale names (channels (router me)) [] = Ret n2c"
        using assms(1,2,4) True c aide loseStale_returns [of names "channels (router me)" "[]"]
        by (cases "loseStale names (channels (router me)) []") (auto simp: SetUpstreamNames_def Let_def)
      then have "n2c = []" by (rule loseStale_Nil)
      then show ?thesis
        using assms(1,4) False True aide c n2c
        by (simp add: SetUpstreamNames_def Let_def f newMaglev_def changedRouter_def router_update maglevSize_def)
    qed
  qed (use assms True h in \<open>simp add: SetUpstreamNames_def\<close>)
qed (use assms in \<open>simp add: SetUpstreamNames_def\<close>)

text \<open>Forgetting a channel that \<open>dialGuruAndServe\<close> has served closes a nil channel.\<close>

lemma closeUpper_panics: "upDown upc \<noteq> OpenChan \<Longrightarrow> closeUpper upc = Panic"
  by (simp add: closeUpper_def closeChan_def)

lemma loseStale_panics:
  assumes "Some upc \<in> set cs" "upName upc \<notin> set names" "upDown upc \<noteq> OpenChan"
  shows "loseStale names cs n2c = Panic"
  using assms(1)
proof (induction cs arbitrary: n2c)
  case (Cons c cs)
  show ?case
  proof (cases c)
    case (Some u)
    have "closeUpper u \<noteq> Hang" by (auto simp: closeUpper_def closeChan_def)
    then show ?thesis
      using Cons Some assms(2) closeUpper_panics [OF assms(3)] by (cases "closeUpper u") auto
  qed simp
qed simp

lemma forget_served_panics:
  assumes "Some upc \<in> set (channels (router me))" "upName upc \<notin> set names" "upDown upc \<noteq> OpenChan"
    "router_ok (router me)" "\<not> isGuru me" "length names = length addresses"
  shows "snd (SetUpstreamNames me names addresses) = Panic"
proof -
  have "upName upc \<in> set (map (\<lambda>c. upName (the c)) (channels (router me)))"
    using assms(1) by (auto intro!: image_eqI [where x = "Some upc"])
  then have "names \<noteq> map (\<lambda>c. upName (the c)) (channels (router me))" using assms(2) by metis
  then show ?thesis
    using assms(5,6) hadChange_router [OF assms(4)] loseStale_panics [OF assms(1-3)]
    by (simp add: SetUpstreamNames_def Let_def)
qed

end
