(* ===== verification/Dispatch.thy ===== *)
theory Dispatch
  imports LookOptions Upstream
begin

text \<open>
  A node at work: the loop that takes the messages of a bucket (\<open>processMessages\<close> of
  \<open>iot/lookup-table.go\<close>), the goroutines that queue a message later, and the calls from outside
  that queue messages and exchange the router. A node is the table, the messages that goroutines
  still have to queue, and everything it has written so far. Steps may interleave in any order, as
  the goroutines of the program do; every step reads the clock, the state of the contacts and the
  database anew.
\<close>

section \<open>One message\<close>

definition withBilling :: "looker \<Rightarrow> handled \<Rightarrow> (topics \<times> BillingAccumulator \<times> effect list) outcome" where
  "withBilling me r = bind_out r (\<lambda>(s, effs). Ret (s, exBilling me, effs))"

fun runCallback :: "looker \<Rightarrow> env \<Rightarrow> services \<Rightarrow> callback \<Rightarrow> topics \<Rightarrow>
    (topics \<times> BillingAccumulator \<times> effect list) outcome" where
  "runCallback me e sv (HeartBeatCallBack now) s = heartBeatCallBack me e now s"
| "runCallback me e sv (GuruDeleteRemapped i) s = withBilling me (guruDeleteRemappedAndGoneTopics me e i s)"
| "runCallback me e sv ReSubscribeRemapped s = withBilling me (reSubscribeRemappedTopics me e s)"
| "runCallback me e sv (ReSubscribeMine i) s = withBilling me (reSubscribeMyTopics me e i s)"
| "runCallback me e sv FlushMarker s = withBilling me (Ret (s, []))"
| "runCallback me e sv Counting s = withBilling me (Ret (s, []))"
| "runCallback me e sv (LookBack req w fin) s = withBilling me (lookBackRun sv req w fin s)"
| "runCallback me e sv (LookBackSame req w) s = withBilling me (lookBackSameRun req w s)"

fun handleMessage :: "looker \<Rightarrow> env \<Rightarrow> services \<Rightarrow> message \<Rightarrow> topics \<Rightarrow>
    (topics \<times> BillingAccumulator \<times> effect list) outcome" where
  "handleMessage me e sv (SubscriptionMessage c h a opts) s = withBilling me (processSubscribe me e c h a opts s)"
| "handleMessage me e sv (UnsubscribeMessage c h a opts) s = withBilling me (processUnsubscribe me e c h a opts s)"
| "handleMessage me e sv (PublishMessage c h a src payload opts) s =
     withBilling me (processPublish me e c h a src payload opts s)"
| "handleMessage me e sv (LookupMessage req) s = withBilling me (processLookup me e sv req s)"
| "handleMessage me e sv (SubscriptionMessageDown h a opts) s =
     withBilling me (processSubscribeDown me e h a opts s)"
| "handleMessage me e sv (PublishMessageDown h a src payload opts) s =
     withBilling me (processPublishDown me e h a src payload opts s)"
| "handleMessage me e sv (CallBackMessage cb) s = runCallback me e sv cb s"

section \<open>One round of a bucket's loop\<close>

text \<open>What a handler asked for, in order: a message it queues itself has to fit now, a message of a
  goroutine waits, the rest is written.\<close>

record node =
  nodeTable :: looker
  nodePending :: "(nat \<times> message) list"
  nodeLog :: "effect list"

fun perform :: "nat \<Rightarrow> effect list \<Rightarrow> node \<Rightarrow> node outcome" where
  "perform i [] n = Ret n"
| "perform i (RequeueNow m # effs) n =
     (case enqueue (nodeTable n) i m of
        (t, Ret u) \<Rightarrow> perform i effs (n\<lparr>nodeTable := t\<rparr>)
      | (t, Panic) \<Rightarrow> Panic
      | (t, Hang) \<Rightarrow> Hang)"
| "perform i (Requeue m # effs) n = perform i effs (n\<lparr>nodePending := nodePending n @ [(i, m)]\<rparr>)"
| "perform i (x # effs) n = perform i effs (n\<lparr>nodeLog := nodeLog n @ [x]\<rparr>)"

definition storeBucket :: "nat \<Rightarrow> topics \<Rightarrow> BillingAccumulator \<Rightarrow> looker \<Rightarrow> looker" where
  "storeBucket i s bill me = (modifyBucket me i (\<lambda>b. b\<lparr>mySubscriptions := s\<rparr>))\<lparr>exBilling := bill\<rparr>"

definition processHead :: "env \<Rightarrow> services \<Rightarrow> nat \<Rightarrow> node \<Rightarrow> node outcome" where
  "processHead e sv i n =
     (case incoming (allTheSubscriptions (nodeTable n) ! i) of
        [] \<Rightarrow> Hang
      | msg # rest \<Rightarrow>
          let me = modifyBucket (nodeTable n) i (\<lambda>b. b\<lparr>incoming := rest\<rparr>) in
          bind_out (handleMessage me e sv msg (mySubscriptions (allTheSubscriptions me ! i))) (\<lambda>(s, bill, effs).
            perform i effs (n\<lparr>nodeTable := storeBucket i s bill me\<rparr>)))"

section \<open>The steps of a node\<close>

definition updateChannel :: "nat \<Rightarrow> (upperChannel \<Rightarrow> upperChannel) \<Rightarrow> looker \<Rightarrow> looker" where
  "updateChannel i f me =
     me\<lparr>router := (router me)\<lparr>channels := (channels (router me))[i := map_option f (channels (router me) ! i)]\<rparr>\<rparr>"

inductive node_step :: "node \<Rightarrow> node \<Rightarrow> bool" where
  Process: "i < length (allTheSubscriptions (nodeTable n)) \<Longrightarrow> order_ok e \<Longrightarrow> maglev_sound e \<Longrightarrow> db_ok sv \<Longrightarrow>
    processHead e sv i n = Ret n' \<Longrightarrow> node_step n n'"
| Late: "j < length (nodePending n) \<Longrightarrow> nodePending n ! j = (i, m) \<Longrightarrow>
    enqueue (nodeTable n) i m = (t, Ret ()) \<Longrightarrow>
    node_step n (n\<lparr>nodeTable := t, nodePending := take j (nodePending n) @ drop (Suc j) (nodePending n)\<rparr>)"
| Subscribed: "sendSubscriptionMessage (nodeTable n) c a opts = (t, r) \<Longrightarrow> node_step n (n\<lparr>nodeTable := t\<rparr>)"
| Unsubscribed: "sendUnsubscribeMessage (nodeTable n) c a opts = (t, r) \<Longrightarrow> node_step n (n\<lparr>nodeTable := t\<rparr>)"
| Published: "sendPublishMessage (nodeTable n) c a src payload opts = (t, r) \<Longrightarrow> node_step n (n\<lparr>nodeTable := t\<rparr>)"
| LookedUp: "sendLookupMessage (nodeTable n) c a src opts = (t, r) \<Longrightarrow> node_step n (n\<lparr>nodeTable := t\<rparr>)"
| SubscribedDown: "sendSubscriptionMessageDown (nodeTable n) a opts = (t, r) \<Longrightarrow> node_step n (n\<lparr>nodeTable := t\<rparr>)"
| PublishedDown: "sendPublishMessageDown (nodeTable n) a src payload opts = (t, r) \<Longrightarrow>
    node_step n (n\<lparr>nodeTable := t\<rparr>)"
| Beat: "Heartbeat (nodeTable n) now = (t, r) \<Longrightarrow> node_step n (n\<lparr>nodeTable := t\<rparr>)"
| Flushed: "FlushMarkerAndWait (nodeTable n) = (t, r) \<Longrightarrow> node_step n (n\<lparr>nodeTable := t\<rparr>)"
| Renamed: "SetUpstreamNames (nodeTable n) names addresses = (t, r) \<Longrightarrow> r \<noteq> Panic \<Longrightarrow>
    node_step n (n\<lparr>nodeTable := t\<rparr>)"
| Dialing: "i < length (channels (router (nodeTable n))) \<Longrightarrow>
    node_step n (n\<lparr>nodeTable := updateChannel i dialGuruStart (nodeTable n)\<rparr>)"
| DialFailed: "i < length (channels (router (nodeTable n))) \<Longrightarrow>
    node_step n (n\<lparr>nodeTable := updateChannel i (\<lambda>c. dialGuruServe c False) (nodeTable n)\<rparr>)"
| Dialed: "i < length (channels (router (nodeTable n))) \<Longrightarrow>
    broadcast (updateChannel i (\<lambda>c. dialGuruServe c True) (nodeTable n)) (ReSubscribeMine (int i)) = (t, r) \<Longrightarrow>
    node_step n (n\<lparr>nodeTable := t\<rparr>)"

definition newNode :: "nat \<Rightarrow> string \<Rightarrow> bool \<Rightarrow> BillingAccumulator \<Rightarrow> node" where
  "newNode topicCount aname guru bill =
     \<lparr>nodeTable = NewLookupTable topicCount aname guru bill, nodePending = [], nodeLog = []\<rparr>"

text \<open>What a node can come to from its start.\<close>

inductive reached :: "node \<Rightarrow> bool" where
  Start: "reached (newNode topicCount aname guru bill)"
| Step: "reached n \<Longrightarrow> node_step n n' \<Longrightarrow> reached n'"

end
