(* ===== verification/Node.thy ===== *)
theory Node
  imports Dispatch
begin

text \<open>
  The invariant of a node and that every step keeps it: each topic is in the bucket its hash
  selects, under its own name, with its watchers under their keys; each queued or pending message
  is in front of the bucket of its topic; no queue is over its capacity; the router has an open
  channel per guru. On a sound node only lookup commands and the billing arithmetic can stop a
  bucket.
\<close>

section \<open>What handlers write\<close>

definition is_write :: "effect \<Rightarrow> bool" where
  "is_write x \<longleftrightarrow> (case x of Down c p \<Rightarrow> True | Up i p \<Rightarrow> True | ToAide p \<Rightarrow> True | _ \<Rightarrow> False)"

lemma is_write_simps [simp]: "is_write (Down c p)" "is_write (Up i p)" "is_write (ToAide p)"
  by (simp_all add: is_write_def)

lemma pushUp_writes: "pushUp me e p h = Ret effs \<Longrightarrow> x \<in> set effs \<Longrightarrow> is_write x"
  by (auto dest!: pushUp_effects)

lemma down_writes: "x \<in> set (downToWatchers e p wt) \<Longrightarrow> is_write x"
  by (auto simp: downToWatchers_def split: if_splits)

lemma publishWatchers_writes: "x \<in> set (snd (publishWatchers e p c wt)) \<Longrightarrow> is_write x"
  by (auto simp: publishWatchers_def publishOne_def Let_def split: if_splits)

lemma publishBilling_writes:
  "publishBilling me e addr src payload opts ba = Ret (ba', effs) \<Longrightarrow> x \<in> set effs \<Longrightarrow> is_write x"
  by (auto simp: publishBilling_def Let_def bind_out_Ret split: if_splits prod.splits option.splits)

lemma sub_writes: "processSubscribe me e c h a opts s = Ret (s', effs) \<Longrightarrow> x \<in> set effs \<Longrightarrow> is_write x"
  by (auto simp: processSubscribe_def subscribeAck_def Let_def bind_out_Ret dest: pushUp_writes split: if_splits)

lemma subdown_writes: "processSubscribeDown me e h a opts s = Ret (s', effs) \<Longrightarrow> x \<in> set effs \<Longrightarrow> is_write x"
  by (auto simp: processSubscribeDown_def dest: down_writes split: option.splits)

lemma unsub_writes: "processUnsubscribe me e c h a opts s = Ret (s', effs) \<Longrightarrow> x \<in> set effs \<Longrightarrow> is_write x"
  by (auto simp: processUnsubscribe_def Let_def bind_out_Ret dest: pushUp_writes split: if_splits option.splits)

lemma pub_writes:
  assumes "processPublish me e c h a src payload opts s = Ret (s', effs)" "x \<in> set effs"
  shows "is_write x"
proof -
  define up where "up = (if isGuru me then Ret [] else pushUp me e (Send a src payload opts) h)"
  have up: "is_write y" if "up = Ret ups" "y \<in> set ups" for y ups
    using that by (auto simp: up_def dest: pushUp_writes split: if_splits)
  have pw: "is_write y" if "publishWatchers e p c wt = (wt', ws)" "y \<in> set ws" for y p wt wt' ws
    using that publishWatchers_writes [of y e p c wt] by simp
  show ?thesis
    using assms unfolding processPublish_def Let_def up_def [symmetric]
    by (auto simp: bind_out_Ret split: option.splits prod.splits dest: up pw publishBilling_writes)
qed

lemma pubdown_writes:
  "processPublishDown me e h a src payload opts s = Ret (s', effs) \<Longrightarrow> x \<in> set effs \<Longrightarrow> is_write x"
  by (auto simp: processPublishDown_def Let_def bind_out_Ret dest: pushUp_writes down_writes
      split: if_splits option.splits)

lemma rangeLoop_inv:
  assumes "rangeLoop f hs s = Ret (s', effs)" "I s"
    and "\<And>h s s' effs. I s \<Longrightarrow> f h s = Ret (s', effs) \<Longrightarrow> I s' \<and> (\<forall>x \<in> set effs. E x)"
  shows "I s' \<and> (\<forall>x \<in> set effs. E x)"
  using assms(1,2)
proof (induction hs arbitrary: s effs)
  case (Cons h hs)
  then obtain s1 e1 e2 where "f h s = Ret (s1, e1)" "rangeLoop f hs s1 = Ret (s', e2)" "effs = e1 @ e2"
    by (auto simp: bind_out_Ret)
  then show ?case using Cons.IH [of s1 e2] assms(3) [OF Cons.prems(2)] by auto
qed simp

lemma table_ok_remove: "table_ok P s \<Longrightarrow> table_ok P (om_remove h s)"
  by (auto simp: table_ok_def om_remove_ok getWatcher_def om_remove_get split: if_splits)

lemma guruDelete_keeps:
  assumes "guruDeleteRemappedAndGoneTopics me e i s = Ret (s', effs)" "table_ok P s"
  shows "table_ok P s' \<and> (\<forall>x \<in> set effs. is_write x)"
  using assms(1)[unfolded guruDeleteRemappedAndGoneTopics_def] assms(2)
  by (rule rangeLoop_inv)
     (auto simp: bind_out_Ret dest: pushUp_writes table_ok_remove split: if_splits)

lemma reRemapped_keeps:
  assumes "reSubscribeRemappedTopics me e s = Ret (s', effs)"
  shows "s' = s \<and> (\<forall>x \<in> set effs. is_write x)"
  using assms[unfolded reSubscribeRemappedTopics_def] refl
  by (rule rangeLoop_inv) (auto simp: bind_out_Ret Let_def dest: pushUp_writes split: if_splits)

lemma reMine_keeps:
  assumes "reSubscribeMyTopics me e i s = Ret (s', effs)"
  shows "s' = s \<and> (\<forall>x \<in> set effs. is_write x)"
proof (cases "maglevTable (router me)")
  case None
  then show ?thesis using assms by (simp add: reSubscribeMyTopics_def)
next
  case (Some m)
  show ?thesis
    using assms [unfolded reSubscribeMyTopics_def Some option.case] refl
    by (rule rangeLoop_inv) (auto simp: bind_out_Ret dest: pushUp_writes split: if_splits)
qed

lemma heartRound_writes:
  "heartRound me e now h st = Ret (st', effs) \<Longrightarrow> x \<in> set effs \<Longrightarrow> is_write x"
  by (auto simp: heartRound_def billingRound_def billingCheck_def Let_def dest: down_writes
      split: option.splits if_splits prod.splits)

lemma heartBeat_keeps:
  assumes "heartBeatCallBack me e now s = Ret (s', bill, effs)" "table_ok P s" "order_ok e"
    "router_ok (router me)" "maglev_sound e"
  shows "table_ok P s' \<and> (\<forall>x \<in> set effs. is_write x)"
proof -
  obtain st e1 e2 where st: "rangeLoop (heartRound me e now) (rangeTopics e s)
      \<lparr>hsTopics = s, hsBilling = exBilling me, hsEmpty = [], hsLate = [], hsLast = None\<rparr> = Ret (st, e1)"
    and ups: "pushUnsubs me e (hsEmpty st) = Ret e2" and effs: "effs = e1 @ runLate e st @ e2"
    using assms(1) by (auto simp: heartBeatCallBack_def bind_out_Ret)
  have "\<forall>x \<in> set e1. is_write x"
    using rangeLoop_inv [OF st, of "\<lambda>_. True" is_write] heartRound_writes by blast
  moreover have "\<forall>x \<in> set e2. is_write x"
  proof -
    obtain u where "rangeLoop (\<lambda>h u. if isGuru me then Ret (u, [])
        else bind_out (pushUp me e (Unsubscribe (keyAddress h) []) h) (\<lambda>effs. Ret (u, effs))) (hsEmpty st) () = Ret (u, e2)"
      using ups by (auto simp: pushUnsubs_def bind_out_Ret)
    then show ?thesis
      by (rule rangeLoop_inv [where I = "\<lambda>_. True", THEN conjunct2])
         (auto simp: bind_out_Ret dest: pushUp_writes split: if_splits)
  qed
  moreover have "\<forall>x \<in> set (runLate e st). is_write x"
    by (auto simp: runLate_def billingCheck_def Let_def dest: down_writes split: option.splits if_splits prod.splits)
  ultimately show ?thesis
    using heartbeat_result [OF assms(2-5), of now] assms(1) effs by auto
qed

section \<open>The invariant\<close>

text \<open>A message in front of bucket \<open>i\<close>, for tables of \<open>2^lg\<close> buckets; \<open>mg\<close> says that there is a
  maglev table.\<close>

fun message_ok :: "nat \<Rightarrow> bool \<Rightarrow> nat \<Rightarrow> message \<Rightarrow> bool" where
  "message_ok lg mg i (SubscriptionMessage c h a opts) \<longleftrightarrow> GetFractionalBits h lg = i"
| "message_ok lg mg i (UnsubscribeMessage c h a opts) \<longleftrightarrow> GetFractionalBits h lg = i"
| "message_ok lg mg i (PublishMessage c h a src payload opts) \<longleftrightarrow> GetFractionalBits h lg = i"
| "message_ok lg mg i (LookupMessage req) \<longleftrightarrow> GetFractionalBits (lookHash req) lg = i"
| "message_ok lg mg i (SubscriptionMessageDown h a opts) \<longleftrightarrow> GetFractionalBits h lg = i"
| "message_ok lg mg i (PublishMessageDown h a src payload opts) \<longleftrightarrow> GetFractionalBits h lg = i"
| "message_ok lg mg i (CallBackMessage cb) \<longleftrightarrow>
     (case cb of
        GuruDeleteRemapped _ \<Rightarrow> mg
      | ReSubscribeRemapped \<Rightarrow> mg
      | LookBack req w fin \<Rightarrow> GetFractionalBits (lookHash req) lg = i \<and> known_ok (lookHash req) w
      | LookBackSame req wt \<Rightarrow> GetFractionalBits (lookHash req) lg = i \<and> topic_ok (lookHash req) wt
      | _ \<Rightarrow> True)"

definition bucket_ok :: "nat \<Rightarrow> bool \<Rightarrow> nat \<Rightarrow> subscribeBucket \<Rightarrow> bool" where
  "bucket_ok lg mg i b \<longleftrightarrow>
     table_ok (\<lambda>h. GetFractionalBits h lg = i) (mySubscriptions b)
     \<and> (\<forall>m \<in> set (incoming b). message_ok lg mg i m) \<and> length (incoming b) \<le> queueCapacity"

definition hasMaglev :: "looker \<Rightarrow> bool" where
  "hasMaglev me \<longleftrightarrow> maglevTable (router me) \<noteq> None"

definition looker_ok :: "looker \<Rightarrow> bool" where
  "looker_ok me \<longleftrightarrow>
     theBucketsSizeLog2 me < 64
     \<and> length (allTheSubscriptions me) = 2 ^ theBucketsSizeLog2 me
     \<and> (\<forall>i < length (allTheSubscriptions me).
          bucket_ok (theBucketsSizeLog2 me) (hasMaglev me) i (allTheSubscriptions me ! i))
     \<and> router_ok (router me) \<and> name2channel (router me) = []"

definition node_ok :: "node \<Rightarrow> bool" where
  "node_ok n \<longleftrightarrow> looker_ok (nodeTable n)
     \<and> (\<forall>(i, m) \<in> set (nodePending n). i < length (allTheSubscriptions (nodeTable n))
          \<and> message_ok (theBucketsSizeLog2 (nodeTable n)) (hasMaglev (nodeTable n)) i m)"

text \<open>Tables that differ only in their buckets.\<close>

definition same_shape :: "looker \<Rightarrow> looker \<Rightarrow> bool" where
  "same_shape me t \<longleftrightarrow> theBucketsSizeLog2 t = theBucketsSizeLog2 me
     \<and> length (allTheSubscriptions t) = length (allTheSubscriptions me) \<and> router t = router me
     \<and> isGuru t = isGuru me \<and> lookDebug t = lookDebug me"

lemma same_shape_refl [simp]: "same_shape me me"
  by (simp add: same_shape_def)

lemma same_shape_trans: "same_shape a b \<Longrightarrow> same_shape b c \<Longrightarrow> same_shape a c"
  by (simp add: same_shape_def)

lemma hasMaglev_shape: "same_shape me t \<Longrightarrow> hasMaglev t = hasMaglev me"
  by (simp add: same_shape_def hasMaglev_def)

lemma modifyBucket_shape: "same_shape me (modifyBucket me i f)"
  by (simp add: same_shape_def modifyBucket_def)

lemma modifyBucket_ok:
  assumes "looker_ok me" "i < length (allTheSubscriptions me)"
    "bucket_ok (theBucketsSizeLog2 me) (hasMaglev me) i (f (allTheSubscriptions me ! i))"
  shows "looker_ok (modifyBucket me i f)"
  using assms by (auto simp: looker_ok_def modifyBucket_def hasMaglev_def nth_list_update)

lemma looker_bucket:
  "looker_ok me \<Longrightarrow> i < length (allTheSubscriptions me) \<Longrightarrow>
    bucket_ok (theBucketsSizeLog2 me) (hasMaglev me) i (allTheSubscriptions me ! i)"
  by (simp add: looker_ok_def)

lemma enqueue_ok:
  assumes "looker_ok me" "message_ok (theBucketsSizeLog2 me) (hasMaglev me) i m" "enqueue me i m = (t, r)"
  shows "looker_ok t \<and> same_shape me t"
  using assms(3) looker_bucket [OF assms(1), of i] assms(1,2)
  by (auto simp: enqueue_def modifyBucket_shape bucket_ok_def intro!: modifyBucket_ok split: if_splits)

lemma broadcastFrom_ok:
  assumes "looker_ok me" "\<And>i. message_ok (theBucketsSizeLog2 me) (hasMaglev me) i (CallBackMessage cb)"
    "broadcastFrom i n me cb = (t, r)"
  shows "looker_ok t \<and> same_shape me t"
  using assms
proof (induction n arbitrary: i me)
  case (Suc n)
  obtain t1 r1 where e: "enqueue me i (CallBackMessage cb) = (t1, r1)" by fastforce
  have t1: "looker_ok t1" "same_shape me t1" using enqueue_ok [OF Suc.prems(1,2) e] by simp_all
  show ?case
  proof (cases r1)
    case (Ret u)
    then have b: "broadcastFrom (Suc i) n t1 cb = (t, r)" using Suc.prems(3) e by simp
    have "message_ok (theBucketsSizeLog2 t1) (hasMaglev t1) j (CallBackMessage cb)" for j
      using Suc.prems(2) [of j] t1(2) by (simp only: hasMaglev_shape) (simp add: same_shape_def)
    then show ?thesis using Suc.IH [OF t1(1) _ b] same_shape_trans [OF t1(2)] by blast
  qed (use Suc.prems(3) e t1 in auto)
qed simp

lemma enqueue_shape: "same_shape me (fst (enqueue me i m))"
  by (simp add: enqueue_def modifyBucket_shape)

lemma broadcastFrom_shape: "broadcastFrom i n me cb = (t, r) \<Longrightarrow> same_shape me t"
proof (induction n arbitrary: i me)
  case (Suc n)
  obtain t1 r1 where e: "enqueue me i (CallBackMessage cb) = (t1, r1)" by fastforce
  have t1: "same_shape me t1" using enqueue_shape [of me i "CallBackMessage cb"] e by simp
  show ?case
  proof (cases r1)
    case (Ret u)
    then show ?thesis using Suc e same_shape_trans [OF t1] by simp
  qed (use Suc.prems e t1 in auto)
qed simp

lemma broadcast_shape: "broadcast me cb = (t, r) \<Longrightarrow> same_shape me t"
  unfolding broadcast_def by (rule broadcastFrom_shape)

lemma broadcast_ok:
  "looker_ok me \<Longrightarrow> (\<And>i. message_ok (theBucketsSizeLog2 me) (hasMaglev me) i (CallBackMessage cb)) \<Longrightarrow>
    broadcast me cb = (t, r) \<Longrightarrow> looker_ok t \<and> same_shape me t"
  unfolding broadcast_def by (rule broadcastFrom_ok)

lemma topicOf_bucket:
  "looker_ok me \<Longrightarrow> topicOf me a = Ret (a', h, i) \<Longrightarrow>
    GetFractionalBits h (theBucketsSizeLog2 me) = i \<and> i < length (allTheSubscriptions me)"
  using fractional_bits_less [of "theBucketsSizeLog2 me" h]
  by (auto simp: topicOf_def Let_def looker_ok_def split: option.splits)

lemma sendTo_ok:
  assumes "looker_ok me" "sendTo me a mk = (t, r)"
    and "\<And>a' h. message_ok (theBucketsSizeLog2 me) (hasMaglev me) (GetFractionalBits h (theBucketsSizeLog2 me)) (mk a' h)"
  shows "looker_ok t \<and> same_shape me t"
proof (cases "topicOf me a")
  case (Ret x)
  then obtain a' h i where x: "topicOf me a = Ret (a', h, i)" by (cases x) auto
  then have "enqueue me i (mk a' h) = (t, r)" using assms(2) by (simp add: sendTo_def)
  then show ?thesis
    using enqueue_ok [OF assms(1)] assms(3) [of h a'] topicOf_bucket [OF assms(1) x] by metis
qed (use assms in \<open>auto simp: sendTo_def\<close>)

lemma sendSubscription_ok:
  assumes "looker_ok me" "sendSubscriptionMessage me c a opts = (t, r)"
  shows "looker_ok t \<and> same_shape me t"
proof (cases "topicOf me a")
  case (Ret x)
  then obtain a' h i where x: "topicOf me a = Ret (a', h, i)" by (cases x) auto
  note b = topicOf_bucket [OF assms(1) x]
  show ?thesis
  proof (cases "queueCapacity \<le> length (incoming (allTheSubscriptions me ! i))")
    case True
    then have "t = modifyBucket me i (\<lambda>b. b\<lparr>incoming := []\<rparr>)"
      using assms(2) x b by (simp add: sendSubscriptionMessage_def)
    then show ?thesis
      using looker_bucket [OF assms(1)] b assms(1)
      by (auto simp: modifyBucket_shape bucket_ok_def intro!: modifyBucket_ok)
  next
    case False
    then have "enqueue me i (SubscriptionMessage c h a' opts) = (t, r)"
      using assms(2) x b by (simp add: sendSubscriptionMessage_def)
    moreover have "message_ok (theBucketsSizeLog2 me) (hasMaglev me) i (SubscriptionMessage c h a' opts)"
      using b by simp
    ultimately show ?thesis using enqueue_ok [OF assms(1)] by blast
  qed
qed (use assms in \<open>auto simp: sendSubscriptionMessage_def\<close>)

section \<open>One message keeps the invariant\<close>

definition effect_ok :: "nat \<Rightarrow> bool \<Rightarrow> nat \<Rightarrow> effect \<Rightarrow> bool" where
  "effect_ok lg mg i x \<longleftrightarrow> (case x of Requeue m \<Rightarrow> message_ok lg mg i m | RequeueNow m \<Rightarrow> message_ok lg mg i m | _ \<Rightarrow> True)"

lemma write_effect_ok: "is_write x \<Longrightarrow> effect_ok lg mg i x"
  by (cases x) (simp_all add: is_write_def effect_ok_def)

lemma look_effect_ok:
  assumes "look_effect req x" "GetFractionalBits (lookHash req) lg = i"
  shows "effect_ok lg mg i x"
proof -
  have "message_ok lg mg i m" if "x = Requeue m \<or> x = RequeueNow m" for m
  proof (cases m)
    case (CallBackMessage cb)
    show ?thesis
    proof (cases cb)
      case (LookBack r w fin)
      then show ?thesis
        using assms that CallBackMessage by (cases w) (auto simp: look_effect_def known_ok_def)
    qed (use assms that CallBackMessage in \<open>auto simp: look_effect_def\<close>)
  qed (use assms that in \<open>auto simp: look_effect_def\<close>)
  then show ?thesis by (auto simp: effect_ok_def split: effect.split)
qed

definition keeps :: "nat \<Rightarrow> bool \<Rightarrow> nat \<Rightarrow> (topics \<times> BillingAccumulator \<times> effect list) outcome \<Rightarrow> bool" where
  "keeps lg mg i r \<longleftrightarrow> (\<forall>s' bill effs. r = Ret (s', bill, effs) \<longrightarrow>
     table_ok (\<lambda>h. GetFractionalBits h lg = i) s' \<and> (\<forall>x \<in> set effs. effect_ok lg mg i x))"

lemma keeps_with:
  "(\<And>s' effs. r = Ret (s', effs) \<Longrightarrow>
      table_ok (\<lambda>h. GetFractionalBits h lg = i) s' \<and> (\<forall>x \<in> set effs. effect_ok lg mg i x)) \<Longrightarrow>
    keeps lg mg i (withBilling me r)"
  by (auto simp: keeps_def withBilling_def bind_out_Ret)

lemma keeps_handler:
  assumes "topic_handler run h" "table_ok (\<lambda>h. GetFractionalBits h lg = i) s" "GetFractionalBits h lg = i"
    and "\<And>s' effs x. run s = Ret (s', effs) \<Longrightarrow> x \<in> set effs \<Longrightarrow> is_write x"
  shows "keeps lg mg i (withBilling me (run s))"
  using topic_handler.keeps_table [OF assms(1) _ assms(2,3)] assms(4) write_effect_ok
  by (intro keeps_with) blast

lemma look_keeps:
  assumes "topic_handler run (lookHash req)" "table_ok (\<lambda>h. GetFractionalBits h lg = i) s"
    "GetFractionalBits (lookHash req) lg = i"
    and "run_post (lookHash req) (known_ok (lookHash req)) (\<lambda>s s' effs. \<forall>x \<in> set effs. look_effect req x) run"
  shows "keeps lg mg i (withBilling me (run s))"
proof (rule keeps_with)
  fix s' effs
  assume r: "run s = Ret (s', effs)"
  have "om_ok s" "known_ok (lookHash req) (getWatcher s (lookHash req))"
    using assms(2) by (auto simp: table_ok_def known_ok_def)
  then have "\<forall>x \<in> set effs. look_effect req x" using run_postD [OF assms(4)] r by blast
  then show "table_ok (\<lambda>h. GetFractionalBits h lg = i) s' \<and> (\<forall>x \<in> set effs. effect_ok lg mg i x)"
    using topic_handler.keeps_table [OF assms(1) r assms(2,3)] look_effect_ok assms(3) by blast
qed

lemma lookBack_effects:
  "run_post (lookHash req) Q (\<lambda>s s' effs. \<forall>x \<in> set effs. look_effect req x) (lookBackRun sv req w fin)"
proof -
  have "\<forall>x \<in> set effs. look_effect req x"
    if "om_ok s" "finishCommand sv req fin (setWatcher s (lookHash req) (Some wt)) wt = Ret (s', effs)" for s s' effs wt
    using run_postD [OF finishCommand_effects [where Q = "\<lambda>_. True"], OF setWatcher_ok [OF that(1)] TrueI that(2)] .
  then show ?thesis
    by (auto simp: run_post_def lookBackRun_def Let_def reply_effects split: option.splits)
qed

lemma callback_keeps:
  assumes "table_ok (\<lambda>h. GetFractionalBits h lg = i) s" "message_ok lg mg i (CallBackMessage cb)"
    "order_ok e" "maglev_sound e" "router_ok (router me)"
  shows "keeps lg mg i (runCallback me e sv cb s)"
proof (cases cb)
  case (HeartBeatCallBack now)
  then show ?thesis
    using heartBeat_keeps [OF _ assms(1,3,5,4)] write_effect_ok by (auto simp: keeps_def)
next
  case (GuruDeleteRemapped x)
  then show ?thesis using guruDelete_keeps [OF _ assms(1)] write_effect_ok by (auto intro!: keeps_with)
next
  case ReSubscribeRemapped
  then show ?thesis using assms(1) write_effect_ok by (auto intro!: keeps_with dest!: reRemapped_keeps)
next
  case (ReSubscribeMine x)
  then show ?thesis using assms(1) write_effect_ok by (auto intro!: keeps_with dest!: reMine_keeps)
next
  case (LookBack req w fin)
  then have "GetFractionalBits (lookHash req) lg = i" "\<And>wt. w = Some wt \<Longrightarrow> topic_ok (lookHash req) wt"
    using assms(2) by (auto simp: known_ok_def)
  then show ?thesis
    using look_keeps [OF handler_of_runs [OF lookBack_local lookBack_safe] assms(1) _ lookBack_effects] LookBack by auto
next
  case (LookBackSame req wt)
  then have "GetFractionalBits (lookHash req) lg = i" "topic_ok (lookHash req) wt" using assms(2) by auto
  moreover have "run_post (lookHash req) (known_ok (lookHash req)) (\<lambda>s s' effs. \<forall>x \<in> set effs. look_effect req x)
      (lookBackSameRun req wt)"
    by (auto simp: run_post_def lookBackSameRun_def reply_effects)
  ultimately show ?thesis
    using look_keeps [OF handler_of_runs [OF lookBackSame_local lookBackSame_safe] assms(1)] LookBackSame by auto
qed (use assms(1) in \<open>auto intro!: keeps_with\<close>)

lemma message_keeps:
  assumes "table_ok (\<lambda>h. GetFractionalBits h lg = i) s" "message_ok lg mg i m"
    "order_ok e" "maglev_sound e" "db_ok sv" "router_ok (router me)"
  shows "keeps lg mg i (handleMessage me e sv m s)"
proof (cases m)
  case (SubscriptionMessage c h a opts)
  then show ?thesis using assms(1,2) keeps_handler [OF sub.topic_handler_axioms] sub_writes by auto
next
  case (UnsubscribeMessage c h a opts)
  then show ?thesis using assms(1,2) keeps_handler [OF unsub.topic_handler_axioms] unsub_writes by auto
next
  case (PublishMessage c h a src payload opts)
  then show ?thesis using assms(1,2) keeps_handler [OF pub.topic_handler_axioms] pub_writes by auto
next
  case (LookupMessage req)
  then show ?thesis
    using assms(1,2) look_keeps [OF look.topic_handler_axioms _ _ lookup_effects [OF assms(5)]] by auto
next
  case (SubscriptionMessageDown h a opts)
  then show ?thesis using assms(1,2) keeps_handler [OF subdown.topic_handler_axioms] subdown_writes by auto
next
  case (PublishMessageDown h a src payload opts)
  then show ?thesis using assms(1,2) keeps_handler [OF pubdown.topic_handler_axioms] pubdown_writes by auto
next
  case (CallBackMessage cb)
  then show ?thesis using callback_keeps assms by simp
qed

section \<open>Every step keeps the invariant\<close>

lemma perform_ok:
  assumes "perform i effs n = Ret n'" "node_ok n" "i < length (allTheSubscriptions (nodeTable n))"
    and "\<forall>x \<in> set effs. effect_ok (theBucketsSizeLog2 (nodeTable n)) (hasMaglev (nodeTable n)) i x"
  shows "node_ok n'"
  using assms
proof (induction i effs n rule: perform.induct)
  case (2 i m effs n)
  obtain t r where e: "enqueue (nodeTable n) i m = (t, r)" by fastforce
  have m: "looker_ok (nodeTable n)" "message_ok (theBucketsSizeLog2 (nodeTable n)) (hasMaglev (nodeTable n)) i m"
    using "2.prems"(2,4) by (simp_all add: node_ok_def effect_ok_def)
  have t: "looker_ok t" "same_shape (nodeTable n) t" using enqueue_ok [OF m e] by simp_all
  have sh: "theBucketsSizeLog2 t = theBucketsSizeLog2 (nodeTable n)" "hasMaglev t = hasMaglev (nodeTable n)"
    "length (allTheSubscriptions t) = length (allTheSubscriptions (nodeTable n))"
    using t(2) hasMaglev_shape [OF t(2)] by (simp_all add: same_shape_def)
  obtain u where r: "r = Ret u" "perform i effs (n\<lparr>nodeTable := t\<rparr>) = Ret n'"
    using "2.prems"(1) e by (cases r) auto
  show ?case
    using "2.IH" [OF e [symmetric] r(1) r(2)] "2.prems"(2-4) t(1) by (simp add: node_ok_def sh)
next
  case (3 i m effs n)
  then show ?case by (auto simp: node_ok_def effect_ok_def)
qed (auto simp: node_ok_def)

lemma processHead_ok:
  assumes "processHead e sv i n = Ret n'" "node_ok n" "i < length (allTheSubscriptions (nodeTable n))"
    "order_ok e" "maglev_sound e" "db_ok sv"
  shows "node_ok n'"
proof -
  let ?me0 = "nodeTable n"
  obtain msg rest where q: "incoming (allTheSubscriptions ?me0 ! i) = msg # rest"
    using assms(1) by (auto simp: processHead_def split: list.splits)
  define me where "me = modifyBucket ?me0 i (\<lambda>b. b\<lparr>incoming := rest\<rparr>)"
  define s where "s = mySubscriptions (allTheSubscriptions me ! i)"
  obtain s' bill effs where h: "handleMessage me e sv msg s = Ret (s', bill, effs)"
    and p: "perform i effs (n\<lparr>nodeTable := storeBucket i s' bill me\<rparr>) = Ret n'"
    using assms(1) q by (auto simp: processHead_def me_def s_def Let_def bind_out_Ret)
  have b: "bucket_ok (theBucketsSizeLog2 ?me0) (hasMaglev ?me0) i (allTheSubscriptions ?me0 ! i)"
    using assms(2,3) looker_bucket by (simp add: node_ok_def)
  have sh: "same_shape ?me0 me" by (simp add: me_def modifyBucket_shape)
  have bi: "allTheSubscriptions me ! i = (allTheSubscriptions ?me0 ! i)\<lparr>incoming := rest\<rparr>"
    using assms(3) by (simp add: me_def modifyBucket_def)
  have lo: "looker_ok me"
    unfolding me_def using assms(2,3) b q by (intro modifyBucket_ok) (auto simp: node_ok_def bucket_ok_def)
  have k: "keeps (theBucketsSizeLog2 me) (hasMaglev me) i (handleMessage me e sv msg s)"
  proof (rule message_keeps)
    show "table_ok (\<lambda>h. GetFractionalBits h (theBucketsSizeLog2 me) = i) s"
      using b sh by (simp add: s_def bi bucket_ok_def same_shape_def)
    show "message_ok (theBucketsSizeLog2 me) (hasMaglev me) i msg"
      using b q sh hasMaglev_shape [OF sh] by (simp add: bucket_ok_def same_shape_def)
    show "router_ok (router me)" using lo by (simp add: looker_ok_def)
  qed (use assms in auto)
  have im: "i < length (allTheSubscriptions me)" using assms(3) sh by (simp add: same_shape_def)
  have s': "looker_ok (storeBucket i s' bill me)"
    using modifyBucket_ok [OF lo im, of "\<lambda>b. b\<lparr>mySubscriptions := s'\<rparr>"] looker_bucket [OF lo im] k h
    by (auto simp: storeBucket_def bucket_ok_def keeps_def looker_ok_def hasMaglev_def)
  have sh2: "theBucketsSizeLog2 (storeBucket i s' bill me) = theBucketsSizeLog2 ?me0"
    "length (allTheSubscriptions (storeBucket i s' bill me)) = length (allTheSubscriptions ?me0)"
    "hasMaglev (storeBucket i s' bill me) = hasMaglev ?me0"
    using sh by (simp_all add: storeBucket_def same_shape_def modifyBucket_def hasMaglev_def)
  show ?thesis
  proof (rule perform_ok [OF p])
    show "node_ok (n\<lparr>nodeTable := storeBucket i s' bill me\<rparr>)"
      using assms(2) s' by (simp add: node_ok_def sh2)
    show "\<forall>x \<in> set effs. effect_ok (theBucketsSizeLog2 (nodeTable (n\<lparr>nodeTable := storeBucket i s' bill me\<rparr>)))
        (hasMaglev (nodeTable (n\<lparr>nodeTable := storeBucket i s' bill me\<rparr>))) i x"
      using k h sh hasMaglev_shape [OF sh] by (simp add: sh2 keeps_def same_shape_def)
  qed (use assms(3) sh2 in simp)
qed

lemma message_ok_mono: "message_ok lg mg i m \<Longrightarrow> message_ok lg True i m"
  by (cases "(lg, mg, i, m)" rule: message_ok.cases) (auto split: callback.splits)

lemma bucket_ok_mono: "bucket_ok lg mg i b \<Longrightarrow> bucket_ok lg True i b"
  by (simp add: bucket_ok_def message_ok_mono [of lg mg])

lemma looker_ok_router:
  assumes "looker_ok me" "router_ok r" "name2channel r = []" "maglevTable r \<noteq> None"
  shows "looker_ok (me\<lparr>router := r\<rparr>)"
proof -
  have "bucket_ok (theBucketsSizeLog2 me) True i (allTheSubscriptions me ! i)"
    if "i < length (allTheSubscriptions me)" for i
    using looker_bucket [OF assms(1) that] by (rule bucket_ok_mono)
  moreover have "hasMaglev (me\<lparr>router := r\<rparr>)" using assms(4) by (simp add: hasMaglev_def)
  ultimately show ?thesis using assms by (simp add: looker_ok_def)
qed

lemma changedRouter_ok:
  assumes "length names = length addresses" "router_ok (router me)" "isGuru me \<Longrightarrow> channels (router me) = []"
  shows "router_ok (changedRouter me names addresses)"
  using assms fresh_open by (auto simp: router_ok_def changedRouter_def)

text \<open>A guru has no upper channels.\<close>

definition guru_top :: "node \<Rightarrow> bool" where
  "guru_top n \<longleftrightarrow> (isGuru (nodeTable n) \<longrightarrow> channels (router (nodeTable n)) = [])"

lemma node_ok_table:
  assumes "node_ok n" "looker_ok t" "theBucketsSizeLog2 t = theBucketsSizeLog2 (nodeTable n)"
    "length (allTheSubscriptions t) = length (allTheSubscriptions (nodeTable n))"
    "hasMaglev t \<or> \<not> hasMaglev (nodeTable n)"
  shows "node_ok (n\<lparr>nodeTable := t\<rparr>)"
proof -
  have old: "i < length (allTheSubscriptions t) \<and> message_ok (theBucketsSizeLog2 t) (hasMaglev (nodeTable n)) i m"
    if "(i, m) \<in> set (nodePending n)" for i m
    using that assms(1) unfolding node_ok_def assms(3,4) by blast
  have "i < length (allTheSubscriptions t) \<and> message_ok (theBucketsSizeLog2 t) (hasMaglev t) i m"
    if "(i, m) \<in> set (nodePending n)" for i m
    using old [OF that] assms(5) message_ok_mono by (cases "hasMaglev t") auto
  then show ?thesis using assms(2) unfolding node_ok_def by auto
qed

lemma node_ok_shape:
  "node_ok n \<Longrightarrow> looker_ok t \<and> same_shape (nodeTable n) t \<Longrightarrow> node_ok (n\<lparr>nodeTable := t\<rparr>)"
  by (rule node_ok_table) (auto simp: same_shape_def hasMaglev_def)

lemma renamed_ok:
  assumes "node_ok n" "guru_top n" "SetUpstreamNames (nodeTable n) names addresses = (t, r)" "r \<noteq> Panic"
  shows "node_ok (n\<lparr>nodeTable := t\<rparr>) \<and> guru_top (n\<lparr>nodeTable := t\<rparr>)"
proof -
  let ?me = "nodeTable n"
  have ok: "looker_ok ?me" "router_ok (router ?me)" "name2channel (router ?me) = []"
    using assms(1) by (auto simp: node_ok_def looker_ok_def)
  note c = SetUpstreamNames_cases [OF assms(3,4) ok(2,3)]
  show ?thesis
  proof (cases "names = map (\<lambda>c. upName (the c)) (channels (router ?me))")
    case True
    then show ?thesis using c assms(1,2) by simp
  next
    case False
    define me' where "me' = ?me\<lparr>router := changedRouter ?me names addresses\<rparr>"
    define cb where "cb = (if isGuru ?me then GuruDeleteRemapped (lastIndex names (myname ?me)) else ReSubscribeRemapped)"
    have b: "broadcast me' cb = (t, r)" using c False by (simp add: me'_def cb_def)
    have l: "looker_ok me'"
      unfolding me'_def
      using ok changedRouter_ok [of names addresses ?me] c assms(2)
      by (intro looker_ok_router) (auto simp: guru_top_def, simp_all add: changedRouter_def)
    have mg: "hasMaglev me'" by (simp add: me'_def hasMaglev_def changedRouter_def)
    then have "message_ok (theBucketsSizeLog2 me') (hasMaglev me') i (CallBackMessage cb)" for i
      by (simp add: cb_def)
    then have t: "looker_ok t" "same_shape me' t" using broadcast_ok [OF l _ b] by auto
    have "hasMaglev t" using hasMaglev_shape [OF t(2)] mg by simp
    moreover have "guru_top (n\<lparr>nodeTable := t\<rparr>)"
      using t(2) assms(2) by (simp add: guru_top_def same_shape_def me'_def changedRouter_def)
    ultimately show ?thesis
      using t assms(1) by (auto simp: same_shape_def me'_def intro!: node_ok_table)
  qed
qed

lemma perform_shape:
  "perform i effs n = Ret n' \<Longrightarrow> same_shape (nodeTable n) (nodeTable n')"
proof (induction i effs n rule: perform.induct)
  case (2 i m effs n)
  obtain t r where e: "enqueue (nodeTable n) i m = (t, r)" by fastforce
  obtain u where r: "r = Ret u" "perform i effs (n\<lparr>nodeTable := t\<rparr>) = Ret n'"
    using "2.prems"(1) e by (cases r) auto
  have "same_shape (nodeTable n) t"
    using e by (auto simp: enqueue_def modifyBucket_shape split: if_splits)
  then show ?case using "2.IH" [OF e [symmetric] r(1) r(2)] same_shape_trans by auto
qed auto

lemma processHead_shape:
  "processHead e sv i n = Ret n' \<Longrightarrow> same_shape (nodeTable n) (nodeTable n')"
  by (auto simp: processHead_def Let_def bind_out_Ret storeBucket_def same_shape_def modifyBucket_def
      dest!: perform_shape split: list.splits)

lemma guru_top_shape: "guru_top n \<Longrightarrow> same_shape (nodeTable n) t \<Longrightarrow> guru_top (n\<lparr>nodeTable := t\<rparr>)"
  by (simp add: guru_top_def same_shape_def)

lemma updateChannel_ok:
  assumes "looker_ok me" "i < length (channels (router me))" "\<And>c. upUp (f c) = upUp c"
  shows "looker_ok (updateChannel i f me)"
proof -
  define r where "r = router (updateChannel i f me)"
  have b: "bucket_ok (theBucketsSizeLog2 me) (hasMaglev (updateChannel i f me)) j (allTheSubscriptions me ! j)"
    if "j < length (allTheSubscriptions me)" for j
    using looker_bucket [OF assms(1) that] by (simp add: hasMaglev_def updateChannel_def)
  have "\<exists>upc. c = Some upc \<and> upUp upc = OpenChan" if "c \<in> set (channels r)" for c
  proof -
    have ch: "channels r = (channels (router me))[i := map_option f (channels (router me) ! i)]"
      by (simp add: r_def updateChannel_def)
    have old: "\<exists>upc. d = Some upc \<and> upUp upc = OpenChan" if "d \<in> set (channels (router me))" for d
      using that assms(1) by (auto simp: looker_ok_def router_ok_def)
    from that obtain j where j: "j < length (channels (router me))" "c = channels r ! j"
      using ch by (auto simp: in_set_conv_nth)
    show ?thesis
      using old [OF nth_mem [OF j(1)]] assms(3) j ch by (cases "j = i") auto
  qed
  then have "router_ok r"
    using assms(1) by (auto simp: r_def looker_ok_def router_ok_def updateChannel_def)
  then show ?thesis
    using assms(1) b by (simp add: looker_ok_def r_def updateChannel_def)
qed

definition sound :: "node \<Rightarrow> bool" where
  "sound n \<longleftrightarrow> node_ok n \<and> guru_top n"

lemma sound_shape: "sound n \<Longrightarrow> looker_ok t \<and> same_shape (nodeTable n) t \<Longrightarrow> sound (n\<lparr>nodeTable := t\<rparr>)"
  using node_ok_shape guru_top_shape by (simp add: sound_def)

lemma sound_looker: "sound n \<Longrightarrow> looker_ok (nodeTable n)"
  by (simp add: sound_def node_ok_def)

lemma sound_channel:
  assumes "sound n" "i < length (channels (router (nodeTable n)))" "\<And>c. upUp (f c) = upUp c"
  shows "sound (n\<lparr>nodeTable := updateChannel i f (nodeTable n)\<rparr>)"
proof -
  have "node_ok (n\<lparr>nodeTable := updateChannel i f (nodeTable n)\<rparr>)"
    using assms updateChannel_ok [OF sound_looker [OF assms(1)] assms(2,3)]
    by (intro node_ok_table) (auto simp: sound_def updateChannel_def hasMaglev_def)
  then show ?thesis using assms(1) by (auto simp: sound_def guru_top_def updateChannel_def)
qed

lemma new_sound: "sound (newNode topicCount aname guru bill)"
  by (auto simp: sound_def node_ok_def guru_top_def newNode_def NewLookupTable_def looker_ok_def bucket_ok_def
      emptyBucket_def router_ok_def)

lemma late_sound:
  assumes "sound n" "j < length (nodePending n)" "nodePending n ! j = (i, m)" "enqueue (nodeTable n) i m = (t, Ret ())"
  shows "sound (n\<lparr>nodeTable := t, nodePending := take j (nodePending n) @ drop (Suc j) (nodePending n)\<rparr>)"
proof -
  have "(i, m) \<in> set (nodePending n)" using assms(2,3) nth_mem by metis
  then have "message_ok (theBucketsSizeLog2 (nodeTable n)) (hasMaglev (nodeTable n)) i m"
    using assms(1) by (auto simp: sound_def node_ok_def)
  then have t: "sound (n\<lparr>nodeTable := t\<rparr>)"
    using enqueue_ok [OF sound_looker [OF assms(1)] _ assms(4)] sound_shape [OF assms(1)] by blast
  have "set (take j xs @ drop (Suc j) xs) \<subseteq> set xs" for xs :: "(nat \<times> message) list"
    using set_take_subset [of j xs] set_drop_subset [of "Suc j" xs] by auto
  then show ?thesis using t unfolding sound_def node_ok_def guru_top_def by simp blast
qed

lemma step_sound:
  assumes "node_step n n'" "sound n"
  shows "sound n'"
  using assms
proof (induction rule: node_step.induct)
  case (Process i n e sv n')
  then have "node_ok n'" using processHead_ok by (auto simp: sound_def)
  then show ?case
    using Process.prems processHead_shape [OF Process.hyps(5)] by (simp add: sound_def guru_top_def same_shape_def)
next
  case (Late j n i m t)
  then show ?case using late_sound by blast
next
  case (Subscribed n c a opts t r)
  then show ?case using sendSubscription_ok sound_looker sound_shape by blast
next
  case (Unsubscribed n c a opts t r)
  then have "looker_ok t \<and> same_shape (nodeTable n) t"
    by (intro sendTo_ok [OF sound_looker]) (auto simp: sendUnsubscribeMessage_def)
  then show ?case using Unsubscribed.prems sound_shape by blast
next
  case (Published n c a src payload opts t r)
  then have "looker_ok t \<and> same_shape (nodeTable n) t"
    by (intro sendTo_ok [OF sound_looker]) (auto simp: sendPublishMessage_def)
  then show ?case using Published.prems sound_shape by blast
next
  case (LookedUp n c a src opts t r)
  then have "looker_ok t \<and> same_shape (nodeTable n) t"
    by (intro sendTo_ok [OF sound_looker]) (auto simp: sendLookupMessage_def)
  then show ?case using LookedUp.prems sound_shape by blast
next
  case (SubscribedDown n a opts t r)
  then have "looker_ok t \<and> same_shape (nodeTable n) t"
    by (intro sendTo_ok [OF sound_looker]) (auto simp: sendSubscriptionMessageDown_def)
  then show ?case using SubscribedDown.prems sound_shape by blast
next
  case (PublishedDown n a src payload opts t r)
  then have "looker_ok t \<and> same_shape (nodeTable n) t"
    by (intro sendTo_ok [OF sound_looker]) (auto simp: sendPublishMessageDown_def)
  then show ?case using PublishedDown.prems sound_shape by blast
next
  case (Beat n now t r)
  then have "looker_ok t \<and> same_shape (nodeTable n) t"
    by (intro broadcast_ok [OF sound_looker]) (auto simp: Heartbeat_def)
  then show ?case using Beat.prems sound_shape by blast
next
  case (Flushed n t r)
  then have "looker_ok t \<and> same_shape (nodeTable n) t"
    by (intro broadcast_ok [OF sound_looker]) (auto simp: FlushMarkerAndWait_def)
  then show ?case using Flushed.prems sound_shape by blast
next
  case (Renamed n names addresses t r)
  then show ?case using renamed_ok unfolding sound_def by blast
next
  case (Dialing i n)
  then show ?case by (intro sound_channel) (simp_all add: dialGuruStart_def)
next
  case (DialFailed i n)
  then show ?case by (intro sound_channel) (simp_all add: dialGuruServe_def)
next
  case (Dialed i n t r)
  let ?t = "updateChannel i (\<lambda>c. dialGuruServe c True) (nodeTable n)"
  have "sound (n\<lparr>nodeTable := ?t\<rparr>)"
    using Dialed by (intro sound_channel) (simp_all add: dialGuruServe_def)
  moreover have "looker_ok t \<and> same_shape ?t t"
    using sound_looker [OF calculation] Dialed.hyps(2) by (intro broadcast_ok) auto
  ultimately show ?case using sound_shape by fastforce
qed

theorem reached_sound: "reached n \<Longrightarrow> sound n"
  by (induction rule: reached.induct) (auto intro: new_sound step_sound)

section \<open>What can stop a bucket\<close>

text \<open>On a sound node only a lookup command and the billing arithmetic can panic or wait for
  itself; all else is handled.\<close>

lemma up_returns: "router_ok (router me) \<Longrightarrow> maglev_sound e \<Longrightarrow> \<exists>effs. pushUp me e p h = Ret effs"
  using pushUp_total by blast

lemma rangeLoop_returns:
  assumes "\<And>h s. \<exists>s' effs. f h s = Ret (s', effs)"
  shows "\<exists>s' effs. rangeLoop f hs s = Ret (s', effs)"
proof (induction hs arbitrary: s)
  case (Cons h hs)
  obtain s1 e1 where "f h s = Ret (s1, e1)" using assms by blast
  moreover obtain s2 e2 where "rangeLoop f hs s1 = Ret (s2, e2)" using Cons by blast
  ultimately show ?case by simp
qed simp

definition plain_message :: "message \<Rightarrow> bool" where
  "plain_message m \<longleftrightarrow> (case m of LookupMessage req \<Rightarrow> False
     | CallBackMessage (LookBack req w fin) \<Rightarrow> False | PublishMessage c h a src payload opts \<Rightarrow>
         \<not> snd (GetOption opts ''add-stats'')
     | _ \<Rightarrow> True)"

lemma callback_returns:
  assumes "table_ok P s" "message_ok lg (hasMaglev me) i (CallBackMessage cb)" "plain_message (CallBackMessage cb)"
    "order_ok e" "maglev_sound e" "router_ok (router me)"
  shows "\<exists>r. runCallback me e sv cb s = Ret r"
proof -
  note up = up_returns [OF assms(6,5)]
  have mg: "\<exists>i. lookupIn e (maglevTable (router me)) h = Ret i" if "hasMaglev me" for h
    using that by (auto simp: hasMaglev_def lookupIn_def)
  show ?thesis
  proof (cases cb)
    case (HeartBeatCallBack now)
    then show ?thesis using heartbeat_result [OF assms(1,4,6,5), of now] by auto
  next
    case (GuruDeleteRemapped x)
    have "\<exists>s' effs. guruDeleteRemappedAndGoneTopics me e x s = Ret (s', effs)"
      unfolding guruDeleteRemappedAndGoneTopics_def
    proof (rule rangeLoop_returns)
      fix h s
      obtain j effs where "lookupIn e (maglevTable (router me)) h = Ret j"
        "pushUp me e (Unsubscribe (keyAddress h) []) h = Ret effs"
        using up mg GuruDeleteRemapped assms(2) by fastforce
      then show "\<exists>s' effs. bind_out (lookupIn e (maglevTable (router me)) h) (\<lambda>index. if int index \<noteq> x
          then bind_out (pushUp me e (Unsubscribe (keyAddress h) []) h) (\<lambda>effs. Ret (om_remove h s, effs))
          else Ret (s, [])) = Ret (s', effs)" by simp
    qed
    then show ?thesis using GuruDeleteRemapped by (auto simp: withBilling_def)
  next
    case ReSubscribeRemapped
    have "\<exists>s' effs. reSubscribeRemappedTopics me e s = Ret (s', effs)"
      unfolding reSubscribeRemappedTopics_def Let_def
    proof (rule rangeLoop_returns)
      fix h s
      obtain j effs where "lookupIn e (maglevTable (router me)) h = Ret j"
        "pushUp me e (Subscribe (keyAddress h) []) h = Ret effs"
        using up mg ReSubscribeRemapped assms(2) by fastforce
      then show "\<exists>s' effs. bind_out (lookupIn e (maglevTable (router me)) h) (\<lambda>indexNew.
          if int indexNew \<noteq> (case previousMaglev (router me) of None \<Rightarrow> - 1 | Some t \<Rightarrow> int (maglevLookup e t (GetUint64 h)))
          then bind_out (pushUp me e (Subscribe (keyAddress h) []) h) (\<lambda>effs. Ret (s, effs))
          else Ret (s, [])) = Ret (s', effs)" by simp
    qed
    then show ?thesis using ReSubscribeRemapped by (auto simp: withBilling_def)
  next
    case (ReSubscribeMine x)
    have "\<exists>s' effs. reSubscribeMyTopics me e x s = Ret (s', effs)"
    proof (cases "maglevTable (router me)")
      case (Some m)
      show ?thesis
        unfolding reSubscribeMyTopics_def Some option.case
      proof (rule rangeLoop_returns)
        fix h s
        obtain effs where "pushUp me e (Subscribe (keyAddress h) (SetOption ''noack'' ''y'' [])) h = Ret effs"
          using up by blast
        then show "\<exists>s' effs. (if int (maglevLookup e m (GetUint64 h)) \<noteq> x then Ret (s, [])
            else bind_out (pushUp me e (Subscribe (keyAddress h) (SetOption ''noack'' ''y'' [])) h)
                   (\<lambda>effs. Ret (s, effs))) = Ret (s', effs)" by simp
      qed
    qed (simp add: reSubscribeMyTopics_def)
    then show ?thesis using ReSubscribeMine by (auto simp: withBilling_def)
  qed (use assms(3) in \<open>auto simp: withBilling_def lookBackSameRun_def plain_message_def\<close>)
qed

definition returns :: "'a outcome \<Rightarrow> bool" where
  "returns r \<longleftrightarrow> (\<exists>x. r = Ret x)"

lemma returns_simps [simp]:
  "returns (Ret x)" "\<not> returns Panic" "\<not> returns Hang"
  "returns (withBilling me h) \<longleftrightarrow> returns h"
  by (cases h; simp add: returns_def withBilling_def split: prod.split)+

lemma returns_bind: "returns c \<Longrightarrow> (\<And>x. c = Ret x \<Longrightarrow> returns (f x)) \<Longrightarrow> returns (bind_out c f)"
  by (auto simp: returns_def)

lemma publish_returns:
  assumes "\<not> snd (GetOption opts ''add-stats'')" "router_ok (router me)" "maglev_sound e"
  shows "returns (processPublish me e c h a src payload opts s)"
proof -
  have up: "returns (pushUp me e p h)" for p
    using up_returns [OF assms(2,3), of p h] by (simp add: returns_def)
  have b: "returns (publishBilling me e a src payload opts ba)" for ba
    using assms(1) by (cases "GetOption opts ''add-stats''") (simp add: publishBilling_def)
  show ?thesis
    unfolding processPublish_def Let_def
    by (auto intro!: returns_bind up b split: option.split prod.split)
qed

lemma message_returns:
  assumes "table_ok P s" "message_ok lg (hasMaglev me) i m" "plain_message m"
    "order_ok e" "maglev_sound e" "router_ok (router me)"
  shows "returns (handleMessage me e sv m s)"
proof -
  have up: "returns (pushUp me e p h)" for p h
    using up_returns [OF assms(6,5), of p h] by (simp add: returns_def)
  show ?thesis
  proof (cases m)
    case (SubscriptionMessage c h a opts)
    then show ?thesis by (auto intro!: returns_bind up simp: processSubscribe_def Let_def)
  next
    case (UnsubscribeMessage c h a opts)
    then show ?thesis by (auto intro!: returns_bind up simp: processUnsubscribe_def Let_def split: option.split)
  next
    case (PublishMessage c h a src payload opts)
    then show ?thesis using publish_returns [OF _ assms(6,5)] assms(3) by (simp add: plain_message_def)
  next
    case (SubscriptionMessageDown h a opts)
    then show ?thesis by (auto simp: processSubscribeDown_def split: option.split)
  next
    case (PublishMessageDown h a src payload opts)
    then show ?thesis by (auto intro!: returns_bind up simp: processPublishDown_def Let_def split: option.split)
  next
    case (CallBackMessage cb)
    then show ?thesis
      using callback_returns [OF assms(1) _ _ assms(4-6), of lg i cb sv] assms(2,3) by (simp add: returns_def)
  qed (use assms(3) in \<open>simp add: plain_message_def\<close>)
qed

end
