(* ===== verification/Samples.thy ===== *)
theory Samples
  imports Node
begin

text \<open>
  Concrete values on which the properties are evaluated: an environment whose contacts are open, a
  database and token verifier without entries, a guru and an aide, a topic with a binary address.
\<close>

definition sampleEnv :: env where
  "sampleEnv = \<lparr>isClosed = (\<lambda>c. False), timeNow = 1000, maglevLookup = (\<lambda>(names, n) k. unat k mod length names),
     parseStats = (\<lambda>b. None), showStats = (\<lambda>s. []), showFloat = (\<lambda>f. []), mapOrder = (\<lambda>ks. ks), goLate = False\<rparr>"

definition sampleVerifier :: verifier where
  "sampleVerifier = \<lparr>parseClaims = (\<lambda>b. None), jwtVerify = (\<lambda>t pk. None), builtinKeys = []\<rparr>"

definition sampleServices :: services where
  "sampleServices = \<lparr>wallSeconds = 1000, randomWord = 7, clusterPubk = [], boxOpen = (\<lambda>a b c. None),
     dbGet = (\<lambda>k. None), dbCount = (\<lambda>k. Some 0), showTopic = (\<lambda>w. Inr []), parseMap = (\<lambda>b. Inr []),
     base64Error = (\<lambda>s. []), quoteJSON = (\<lambda>s. s), uniUpper = (\<lambda>s. s), uniLower = (\<lambda>s. s), mapKeys = (\<lambda>ks. ks),
     verification = sampleVerifier, publicKeys = []\<rparr>"

definition sampleGuru :: looker where
  "sampleGuru = NewLookupTable 10 ''guru0'' True (newAccumulator zero_stats [])"

definition sampleHash :: HashType where
  "sampleHash = Hash 0 0 5"

definition sampleAddress :: AddressUnion where
  "sampleAddress = keyAddress sampleHash"

lemma sample_order: "order_ok sampleEnv"
  by (simp add: order_ok_def sampleEnv_def)

lemma sample_maglev: "maglev_sound sampleEnv"
  by (simp add: maglev_sound_def sampleEnv_def)

lemma sample_db: "db_ok sampleServices"
  by (simp add: db_ok_def sampleServices_def)

end
