(* ===== verification/Broker.thy ===== *)
theory Broker
  imports Samples
begin

text \<open>
  What the broker promises to its clients: who receives a publication, what subscribing,
  unsubscribing and the heartbeat do to a topic, that messages about different topics do not
  interfere, that a node stays sound in every reachable state and does not get stuck.
\<close>

section \<open>Messages about one topic\<close>

fun topicRun :: "looker \<Rightarrow> env \<Rightarrow> services \<Rightarrow> message \<Rightarrow> topics \<Rightarrow> handled" where
  "topicRun me e sv (SubscriptionMessage c h a opts) = processSubscribe me e c h a opts"
| "topicRun me e sv (UnsubscribeMessage c h a opts) = processUnsubscribe me e c h a opts"
| "topicRun me e sv (PublishMessage c h a src payload opts) = processPublish me e c h a src payload opts"
| "topicRun me e sv (LookupMessage req) = processLookup me e sv req"
| "topicRun me e sv (SubscriptionMessageDown h a opts) = processSubscribeDown me e h a opts"
| "topicRun me e sv (PublishMessageDown h a src payload opts) = processPublishDown me e h a src payload opts"
| "topicRun me e sv (CallBackMessage cb) = (\<lambda>s. Ret (s, []))"

fun messageHash :: "message \<Rightarrow> HashType option" where
  "messageHash (SubscriptionMessage c h a opts) = Some h"
| "messageHash (UnsubscribeMessage c h a opts) = Some h"
| "messageHash (PublishMessage c h a src payload opts) = Some h"
| "messageHash (LookupMessage req) = Some (lookHash req)"
| "messageHash (SubscriptionMessageDown h a opts) = Some h"
| "messageHash (PublishMessageDown h a src payload opts) = Some h"
| "messageHash (CallBackMessage cb) = None"

definition topicHash :: "message \<Rightarrow> HashType" where
  "topicHash m = (case messageHash m of None \<Rightarrow> Hash 0 0 0 | Some h \<Rightarrow> h)"

lemma handle_topicRun: "messageHash m = Some h \<Longrightarrow> handleMessage me e sv m s = withBilling me (topicRun me e sv m s)"
  by (cases m) simp_all

lemma topicRun_handler: "topic_handler (topicRun me e sv m) (topicHash m)"
proof (cases m)
  case (CallBackMessage cb)
  then show ?thesis
    using handler_of_runs [OF local_ret safe_ret] by simp
qed (simp_all add: topicHash_def sub.topic_handler_axioms unsub.topic_handler_axioms pub.topic_handler_axioms
    look.topic_handler_axioms subdown.topic_handler_axioms pubdown.topic_handler_axioms)

interpretation msgs: two_handlers "topicRun me e sv m1" "topicHash m1" "topicRun me' e' sv' m2" "topicHash m2"
  for me e sv m1 me' e' sv' m2
  by (intro two_handlers.intro topicRun_handler)

lemma withBilling_Ret:
  "withBilling me r = Ret (s, bill, effs) \<longleftrightarrow> r = Ret (s, effs) \<and> bill = exBilling me"
  by (auto simp: withBilling_def bind_out_Ret)

text \<open>C5: Two messages about different topics of a bucket can be handled in either order, each with
  the clock and the contacts it meets: the topics at the end and what each of the two writes are the
  same.\<close>

theorem messages_commute:
  assumes "messageHash m1 = Some h1" "messageHash m2 = Some h2" "h1 \<noteq> h2" "om_ok s"
    and "handleMessage me e sv m1 s = Ret (s1, bill1, effs1)"
    and "handleMessage me e' sv' m2 s1 = Ret (s12, bill2, effs2)"
  shows "\<exists>s2. handleMessage me e' sv' m2 s = Ret (s2, bill2, effs2)
    \<and> handleMessage me e sv m1 s2 = Ret (s12, bill1, effs1)"
proof -
  have "topicRun me e sv m1 s = Ret (s1, effs1)" "topicRun me e' sv' m2 s1 = Ret (s12, effs2)"
    "bill1 = exBilling me" "bill2 = exBilling me"
    using assms(1,2,5,6) by (simp_all add: handle_topicRun withBilling_Ret)
  moreover have "topicHash m1 \<noteq> topicHash m2" using assms(1-3) by (simp add: topicHash_def)
  ultimately show ?thesis
    using msgs.commute [OF assms(4)] assms(1,2) by (fastforce simp: handle_topicRun withBilling_Ret)
qed

definition otherHash :: HashType where
  "otherHash = Hash 0 0 6"

theorem messages_commute_witness:
  "\<exists>s2 s12 effs1 effs2. handleMessage sampleGuru sampleEnv sampleServices
      (SubscriptionMessage 1 otherHash (keyAddress otherHash) []) []
      = Ret (s2, exBilling sampleGuru, effs2)
    \<and> handleMessage sampleGuru sampleEnv sampleServices (SubscriptionMessage 2 sampleHash sampleAddress []) s2
      = Ret (s12, exBilling sampleGuru, effs1)"
proof -
  let ?m1 = "SubscriptionMessage 2 sampleHash sampleAddress []"
  let ?m2 = "SubscriptionMessage 1 otherHash (keyAddress otherHash) []"
  have run: "\<exists>s' effs. handleMessage sampleGuru sampleEnv sampleServices (SubscriptionMessage c h a []) s
      = Ret (s', exBilling sampleGuru, effs)" for c h a s
    by (simp add: withBilling_Ret processSubscribe_def Let_def sampleGuru_def NewLookupTable_def)
  obtain s1 effs1 where r1: "handleMessage sampleGuru sampleEnv sampleServices ?m1 [] = Ret (s1, exBilling sampleGuru, effs1)"
    using run by blast
  obtain s12 effs2 where r2: "handleMessage sampleGuru sampleEnv sampleServices ?m2 s1 = Ret (s12, exBilling sampleGuru, effs2)"
    using run by blast
  have "sampleHash \<noteq> otherHash" by (simp add: sampleHash_def otherHash_def)
  from messages_commute [OF _ _ this om_ok_Nil r1 r2] show ?thesis by auto
qed

section \<open>Delivery\<close>

lemma publish_topic:
  assumes "om_ok s" "getWatcher s h = Some wt" "topic_ok h wt" "IsBilling wt = None"
    "processPublish me e c h a src payload opts s = Ret (s', effs)"
  shows "\<exists>ups. effs = map (\<lambda>k. Down k (Send a src payload opts)) (receivers e c wt) @ ups
    \<and> (isGuru me \<longrightarrow> ups = []) \<and> (\<forall>x \<in> set ups. \<exists>i. x = Up i (Send a src payload opts))
    \<and> (\<exists>wt'. getWatcher s' h = Some wt'
          \<and> thetree wt' = filter (\<lambda>(k, item). \<not> isClosed e k \<or> pub2self item \<or> k = c) (thetree wt))"
proof -
  define w0 where "w0 = wt\<lparr>Expires := 25 * 60 + timeNow e\<rparr>"
  have t: "topic_ok h w0" "thetree w0 = thetree wt" using assms(3) by (simp_all add: w0_def)
  have r: "receivers e c w0 = receivers e c wt" using t(2) by (simp add: receivers_def)
  obtain ups where ups: "(if isGuru me then Ret [] else pushUp me e (Send a src payload opts) h) = Ret ups"
    and s': "s' = setWatcher s h (Some (fst (publishWatchers e (Send a src payload opts) c w0)))"
    and effs: "effs = snd (publishWatchers e (Send a src payload opts) c w0) @ ups"
    using assms(2,4,5) by (auto simp: processPublish_def Let_def w0_def bind_out_Ret split: prod.splits)
  have "isGuru me \<longrightarrow> ups = []" "\<forall>x \<in> set ups. \<exists>i. x = Up i (Send a src payload opts)"
    using ups by (auto split: if_splits dest: pushUp_effects)
  moreover have "getWatcher s' h = Some (fst (publishWatchers e (Send a src payload opts) c w0))"
    using assms(1) s' by (simp add: getWatcher_set)
  moreover have "effs = map (\<lambda>k. Down k (Send a src payload opts)) (receivers e c wt) @ ups"
    using effs publish_writes [OF t(1), of e "Send a src payload opts" c] r by simp
  moreover have "thetree (fst (publishWatchers e (Send a src payload opts) c w0))
      = filter (\<lambda>(k, item). \<not> isClosed e k \<or> pub2self item \<or> k = c) (thetree wt)"
    using publish_keeps [OF t(1), of e "Send a src payload opts" c] t(2) by simp
  ultimately show ?thesis by blast
qed

lemma receivers_mem: "k \<in> set (receivers e c wt) \<longleftrightarrow>
  (\<exists>item. (k, item) \<in> set (thetree wt) \<and> \<not> isClosed e k \<and> (pub2self item \<or> k \<noteq> c))"
  by (force simp: receivers_def)

lemma wtGet_mem: "om_ok (thetree wt) \<Longrightarrow> wtGet wt k = Some item \<longleftrightarrow> (k, item) \<in> set (thetree wt)"
  unfolding wtGet_def using om_get_mem [of "thetree wt" k item] om_mem_get [of "thetree wt" k item] by blast


definition sampleTopic :: WatchedTopic where
  "sampleTopic = emptyTopic\<lparr>Name := sampleHash, Expires := 5000, Owner := ''me'',
     thetree := [(1, \<lparr>contactInterface = 1, pub2self = False\<rparr>), (2, \<lparr>contactInterface = 2, pub2self = False\<rparr>)]\<rparr>"

definition sampleTopics :: topics where
  "sampleTopics = [(sampleHash, sampleTopic)]"

lemma sampleTopic_ok: "topic_ok sampleHash sampleTopic"
  by (simp add: sampleTopic_def topic_ok_def emptyTopic_def om_ok_def)

lemma sampleTopics_ok: "table_ok (\<lambda>h. True) sampleTopics"
  using sampleTopic_ok by (auto simp: sampleTopics_def table_ok_def om_ok_def getWatcher_def om_get_Cons split: if_splits)

lemma sampleTopics_get: "getWatcher sampleTopics sampleHash = Some sampleTopic"
  by (simp add: sampleTopics_def getWatcher_def om_get_Cons)

lemma guru_publish:
  "isGuru me \<Longrightarrow> IsBilling wt = None \<Longrightarrow> getWatcher s h = Some wt \<Longrightarrow>
    \<exists>s' effs. processPublish me e c h a src payload opts s = Ret (s', effs)"
  by (simp add: processPublish_def Let_def split: prod.split)

lemma sampleGuru_guru [simp]: "isGuru sampleGuru"
  by (simp add: sampleGuru_def NewLookupTable_def)

lemma sampleTopic_bill [simp]: "IsBilling sampleTopic = None"
  by (simp add: sampleTopic_def emptyTopic_def IsBilling_def)


section \<open>A subscription lasts\<close>

text \<open>What a bucket may do to a topic between two moments without ending the subscription of \<open>c\<close>:
  anything about other topics, subscriptions of anybody, the leaving of others, publications while
  the contact of \<open>c\<close> is open, heartbeats while it is open and the topic has not expired.\<close>

inductive served :: "looker \<Rightarrow> contact \<Rightarrow> HashType \<Rightarrow> topics \<Rightarrow> topics \<Rightarrow> bool" for me c h where
  Now: "served me c h s s"
| OtherTopic: "served me c h s s1 \<Longrightarrow> messageHash m = Some k \<Longrightarrow> k \<noteq> h \<Longrightarrow>
    handleMessage me e sv m s1 = Ret (s2, bill, effs) \<Longrightarrow> served me c h s s2"
| Subscribes: "served me c h s s1 \<Longrightarrow> processSubscribe me e d h a opts s1 = Ret (s2, effs) \<Longrightarrow> served me c h s s2"
| OtherLeaves: "served me c h s s1 \<Longrightarrow> d \<noteq> c \<Longrightarrow> processUnsubscribe me e d h a opts s1 = Ret (s2, effs) \<Longrightarrow>
    served me c h s s2"
| Publishes: "served me c h s s1 \<Longrightarrow> \<not> isClosed e c \<Longrightarrow>
    processPublish me e d h a src payload opts s1 = Ret (s2, effs) \<Longrightarrow> served me c h s s2"
| Beats: "served me c h s s1 \<Longrightarrow> \<not> isClosed e c \<Longrightarrow> order_ok e \<Longrightarrow> maglev_sound e \<Longrightarrow>
    (\<And>wt. getWatcher s1 h = Some wt \<Longrightarrow> now \<le> Expires wt) \<Longrightarrow>
    heartBeatCallBack me e now s1 = Ret (s2, bill, effs) \<Longrightarrow> served me c h s s2"

definition watched :: "HashType \<Rightarrow> contact \<Rightarrow> watcherItem \<Rightarrow> topics \<Rightarrow> bool" where
  "watched h c item s \<longleftrightarrow> (\<exists>wt. getWatcher s h = Some wt \<and> wtGet wt c = Some item)"

lemma watched_subscribe:
  assumes "om_ok s" "watched h c item s" "processSubscribe me e d h a opts s = Ret (s', effs)"
  shows "watched h c item s'"
proof -
  obtain wt where wt: "getWatcher s h = Some wt" "wtGet wt c = Some item" using assms(2) by (auto simp: watched_def)
  have a: "wtGet (addWatcher d wi w) c = Some item" if "wtGet w c = Some item" for wi w
    using that by (auto simp: addWatcher_def wtGet_put split: option.split)
  have "wtGet (subscribeTopic e d h opts wt) c = Some item"
    using wt(2) by (auto simp: subscribeTopic_def Let_def wtGet_def split: prod.splits intro!: a [unfolded wtGet_def])
  moreover have "getWatcher s' h = Some (subscribeTopic e d h opts wt)"
    using assms(1,3) wt(1) by (auto simp: processSubscribe_def Let_def bind_out_Ret getWatcher_set split: if_splits)
  ultimately show ?thesis by (simp add: watched_def)
qed

lemma watched_unsubscribe:
  assumes "table_ok P s" "watched h c item s" "d \<noteq> c" "processUnsubscribe me e d h a opts s = Ret (s', effs)"
  shows "watched h c item s'"
proof -
  obtain wt where wt: "getWatcher s h = Some wt" "wtGet wt c = Some item" using assms(2) by (auto simp: watched_def)
  have o: "om_ok (thetree wt)" using assms(1) wt(1) by (auto simp: table_ok_def topic_ok_def)
  have g: "wtGet (wtRemove wt d) c = Some item" using wt(2) assms(3) by (simp add: wtGet_remove o)
  then have "thetree (wtRemove wt d) \<noteq> []" by (auto simp: wtGet_def)
  then show ?thesis
    using unsubscribed [OF assms(1,4) wt(1)] g by (cases "getWatcher s' h") (auto simp: watched_def)
qed

lemma watched_publish:
  assumes "table_ok P s" "watched h c item s" "\<not> isClosed e c"
    "processPublish me e d h a src payload opts s = Ret (s', effs)"
  shows "watched h c item s'"
proof -
  obtain wt where wt: "getWatcher s h = Some wt" "wtGet wt c = Some item" using assms(2) by (auto simp: watched_def)
  have t: "topic_ok h wt" "om_ok s" using assms(1) wt(1) by (auto simp: table_ok_def)
  have o: "om_ok (thetree wt)" using t(1) by (simp add: topic_ok_def)
  show ?thesis
  proof (cases "IsBilling wt")
    case None
    obtain wt' where wt': "getWatcher s' h = Some wt'"
      "thetree wt' = filter (\<lambda>(k, item). \<not> isClosed e k \<or> pub2self item \<or> k = d) (thetree wt)"
      using publish_topic [OF t(2) wt(1) t(1) None assms(4)] by auto
    then have "om_ok (thetree wt')" using om_ok_filter [OF o] by simp
    then have "wtGet wt' c = Some item"
      using wt(2) wt'(2) assms(3) by (simp add: wtGet_mem [OF o] wtGet_mem)
    then show ?thesis using wt'(1) by (simp add: watched_def)
  next
    case (Some ba)
    then show ?thesis
      using assms(4) wt t(2) by (auto simp: processPublish_def Let_def bind_out_Ret watched_def getWatcher_set wtGet_def)
  qed
qed

lemma watched_beat:
  assumes "table_ok P s" "watched h c item s" "\<not> isClosed e c" "order_ok e" "maglev_sound e" "router_ok (router me)"
    "\<And>wt. getWatcher s h = Some wt \<Longrightarrow> now \<le> Expires wt" "heartBeatCallBack me e now s = Ret (s', bill, effs)"
  shows "watched h c item s'"
proof -
  obtain wt where wt: "getWatcher s h = Some wt" "wtGet wt c = Some item" using assms(2) by (auto simp: watched_def)
  have t: "topic_ok h wt" using assms(1) wt(1) by (auto simp: table_ok_def)
  have o: "om_ok (thetree wt)" and ci: "contactInterface item = c"
    using t wt(2) om_get_mem [of "thetree wt" c item] by (auto simp: topic_ok_def wtGet_def)
  have m: "(c, item) \<in> set (survivors e now wt)"
    using wt(2) assms(3,7) [of] wt(1) ci by (auto simp: survivors_def wtGet_mem [OF o] not_less)
  have "om_ok (survivors e now wt)" using om_ok_filter [OF o] by (simp add: survivors_def)
  then have g: "om_get (survivors e now wt) c = Some item" by (rule om_mem_get [OF _ m])
  have "\<not> dying e now s h" using m wt(1) by (auto simp: dying_def)
  then have "map_option thetree (getWatcher s' h) = Some (survivors e now wt)"
    using heartbeat_result [OF assms(1,4,6,5), of now] assms(8) wt(1) by auto
  then obtain wt' where "getWatcher s' h = Some wt'" "thetree wt' = survivors e now wt" by auto
  then show ?thesis using g by (simp add: watched_def wtGet_def)
qed

lemma served_watched:
  assumes "served me c h s s'" "table_ok (\<lambda>h. True) s" "watched h c item s" "router_ok (router me)"
  shows "table_ok (\<lambda>h. True) s' \<and> watched h c item s'"
  using assms
proof (induction rule: served.induct)
  case (OtherTopic s s1 m k e sv s2 bill effs)
  then have r: "topicRun me e sv m s1 = Ret (s2, effs)" "topicHash m = k" and t: "table_ok (\<lambda>h. True) s1"
    by (simp_all add: handle_topicRun withBilling_Ret topicHash_def)
  have "om_ok s1" using t by (simp add: table_ok_def)
  then have "getWatcher s2 h = getWatcher s1 h"
    using topic_handler.frame [OF topicRun_handler r(1)] r(2) OtherTopic.hyps(3) by metis
  then show ?case
    using topic_handler.keeps_table [OF topicRun_handler r(1) t TrueI] OtherTopic.IH OtherTopic.prems
    by (simp add: watched_def)
next
  case (Subscribes s s1 e d a opts s2 effs)
  then show ?case
    using watched_subscribe [OF _ _ Subscribes.hyps(2)] sub.keeps_table [OF Subscribes.hyps(2) _ TrueI]
    by (simp add: table_ok_def)
next
  case (OtherLeaves s s1 d e a opts s2 effs)
  then show ?case
    using watched_unsubscribe [OF _ _ OtherLeaves.hyps(2,3)] unsub.keeps_table [OF OtherLeaves.hyps(3) _ TrueI]
    by blast
next
  case (Publishes s s1 e d a src payload opts s2 effs)
  then show ?case
    using watched_publish [OF _ _ Publishes.hyps(2,3)] pub.keeps_table [OF Publishes.hyps(3) _ TrueI] by blast
next
  case (Beats s s1 e now s2 bill effs)
  then show ?case
    using watched_beat [OF _ _ Beats.hyps(2-4) _ Beats.hyps(5,6)] heartBeat_keeps [OF Beats.hyps(6) _ Beats.hyps(3) _ Beats.hyps(4)]
    by blast
qed simp


lemma sampleGuru_router [simp]: "router_ok (router sampleGuru)"
  by (simp add: router_ok_def sampleGuru_def NewLookupTable_def)

lemma guru_subscribe: "isGuru me \<Longrightarrow> \<exists>s' effs. processSubscribe me e c h a opts s = Ret (s', effs)"
  by (simp add: processSubscribe_def Let_def)

lemma subscribed_topic:
  assumes "om_ok s" "getWatcher s h = Some wt" "processSubscribe me e c h a [] s = Ret (s', effs)"
  shows "\<exists>wt'. getWatcher s' h = Some wt' \<and> IsBilling wt' = IsBilling wt"
  using assms
  by (auto simp: processSubscribe_def Let_def bind_out_Ret getWatcher_set subscribeTopic_def addWatcher_def
      IsBilling_def wtPut_def GetOption_def split: option.splits if_splits)


section \<open>Leaving\<close>



section \<open>The heartbeat\<close>

text \<open>C12: A heartbeat returns and leaves exactly the watchers whose contact is open, all of them if the
  topic has not expired and none if it has; exactly the topics without a watcher leave the table, and
  an aide pushes one Unsubscribe for each of them.\<close>

theorem heartbeat_expires:
  assumes "table_ok P s" "order_ok e" "router_ok (router me)" "maglev_sound e"
  shows "\<exists>s' bill effs. heartBeatCallBack me e now s
      = Ret (s', bill, effs @ concat (map (upUnsub me e) (filter (dying e now s) (rangeTopics e s))))
    \<and> table_ok P s'
    \<and> (\<forall>h. getWatcher s' h = None \<longleftrightarrow> getWatcher s h = None \<or> dying e now s h)
    \<and> (\<forall>h wt c item. getWatcher s h = Some wt \<longrightarrow>
         (watched h c item s' \<longleftrightarrow> wtGet wt c = Some item \<and> now \<le> Expires wt \<and> \<not> isClosed e c))"
proof -
  obtain s' bill effs where b: "heartBeatCallBack me e now s
      = Ret (s', bill, effs @ concat (map (upUnsub me e) (filter (dying e now s) (rangeTopics e s))))"
    and t: "table_ok P s'"
    and g: "\<And>h. map_option thetree (getWatcher s' h)
        = (if dying e now s h then None else map_option (survivors e now) (getWatcher s h))"
    using heartbeat_result [OF assms, of now] by auto
  have n: "getWatcher s' h = None \<longleftrightarrow> getWatcher s h = None \<or> dying e now s h" for h
    using g [of h] by (cases "getWatcher s' h"; cases "getWatcher s h") (auto split: if_splits)
  have w: "watched h c item s' \<longleftrightarrow> wtGet wt c = Some item \<and> now \<le> Expires wt \<and> \<not> isClosed e c"
    if wt: "getWatcher s h = Some wt" for h wt c item
  proof -
    have ok: "topic_ok h wt" using assms(1) wt by (simp add: table_ok_def)
    then have o: "om_ok (thetree wt)" and ci: "\<And>k i. (k, i) \<in> set (thetree wt) \<Longrightarrow> contactInterface i = k"
      by (auto simp: topic_ok_def)
    have os: "om_ok (survivors e now wt)" using om_ok_filter [OF o] by (simp add: survivors_def)
    have sv: "(c, item) \<in> set (survivors e now wt)
        \<longleftrightarrow> wtGet wt c = Some item \<and> now \<le> Expires wt \<and> \<not> isClosed e c"
      using ci by (auto simp: survivors_def wtGet_mem [OF o] not_less)
    show ?thesis
    proof (cases "dying e now s h")
      case True
      then have "survivors e now wt = []" "getWatcher s' h = None" using wt n by (auto simp: dying_def)
      then show ?thesis using sv by (simp add: watched_def)
    next
      case False
      then obtain wt' where "getWatcher s' h = Some wt'" "thetree wt' = survivors e now wt"
        using g [of h] wt by auto
      then show ?thesis using sv os wtGet_mem [of wt' c item] by (simp add: watched_def)
    qed
  qed
  show ?thesis using b t n w by blast
qed

theorem heartbeat_expires_witness:
  "\<exists>s' bill effs. heartBeatCallBack sampleGuru sampleEnv 6000 sampleTopics = Ret (s', bill, effs)
    \<and> getWatcher s' sampleHash = None"
proof -
  have "dying sampleEnv 6000 sampleTopics sampleHash"
    by (simp add: dying_def sampleTopics_get survivors_def sampleTopic_def)
  then show ?thesis
    using heartbeat_expires [OF sampleTopics_ok sample_order sampleGuru_router sample_maglev, of 6000] by blast
qed

end
