(* ===== verification/Cluster.thy ===== *)
theory Cluster
  imports Broker
begin

text \<open>
  A node of a cluster: in every reachable state each topic and message is in its bucket, no
  ordinary message stops a bucket, and a change of the gurus leaves a router to exactly the new
  ones, re-subscribes the topics that moved and drops those a guru no longer serves.
\<close>

section \<open>Reachable nodes\<close>

lemma reached_looker: "reached n \<Longrightarrow> looker_ok (nodeTable n)"
  by (rule sound_looker [OF reached_sound])

lemma message_routed: "message_ok lg mg i m \<Longrightarrow> messageHash m = Some h \<Longrightarrow> GetFractionalBits h lg = i"
  by (cases m) auto

text \<open>C1: In every state a node can reach, under any interleaving of clients, heartbeats, changes of the
  cluster and the loops of its buckets, there are \<open>2^log2\<close> buckets; every topic is in the bucket its
  hash selects, under its own name, with each watcher filed under its own contact; every queued
  message stands in front of the bucket of its topic, and no queue is over its capacity of 256.\<close>

theorem reachable_nodes_are_sound:
  assumes "reached n" "i < length (allTheSubscriptions (nodeTable n))"
  defines "b \<equiv> allTheSubscriptions (nodeTable n) ! i"
  shows "length (allTheSubscriptions (nodeTable n)) = 2 ^ theBucketsSizeLog2 (nodeTable n)
    \<and> (\<forall>h wt. getWatcher (mySubscriptions b) h = Some wt \<longrightarrow>
         GetFractionalBits h (theBucketsSizeLog2 (nodeTable n)) = i \<and> Name wt = h
         \<and> (\<forall>c item. wtGet wt c = Some item \<longrightarrow> contactInterface item = c))
    \<and> (\<forall>m h. m \<in> set (incoming b) \<longrightarrow> messageHash m = Some h \<longrightarrow>
         GetFractionalBits h (theBucketsSizeLog2 (nodeTable n)) = i)
    \<and> length (incoming b) \<le> 256"
proof -
  have k: "bucket_ok (theBucketsSizeLog2 (nodeTable n)) (hasMaglev (nodeTable n)) i b"
    unfolding b_def by (rule looker_bucket [OF reached_looker [OF assms(1)] assms(2)])
  have "contactInterface item = c" if "topic_ok h wt" "wtGet wt c = Some item" for h wt c item
    using that om_get_mem [of "thetree wt" c item] by (auto simp: topic_ok_def wtGet_def)
  moreover have "GetFractionalBits h (theBucketsSizeLog2 (nodeTable n)) = i \<and> topic_ok h wt"
    if "getWatcher (mySubscriptions b) h = Some wt" for h wt
    using that k by (simp add: bucket_ok_def table_ok_def)
  moreover have "length (allTheSubscriptions (nodeTable n)) = 2 ^ theBucketsSizeLog2 (nodeTable n)"
    using reached_looker [OF assms(1)] by (simp add: looker_ok_def)
  moreover have "GetFractionalBits h (theBucketsSizeLog2 (nodeTable n)) = i"
    if "m \<in> set (incoming b)" "messageHash m = Some h" for m h
    using that k message_routed unfolding bucket_ok_def by blast
  ultimately show ?thesis using k unfolding bucket_ok_def queueCapacity_def topic_ok_def by blast
qed

definition firstNode :: node where
  "firstNode = newNode 10 ''guru0'' True (newAccumulator zero_stats [])"

definition subscribedNode :: node where
  "subscribedNode = firstNode\<lparr>nodeTable := fst (sendSubscriptionMessage (nodeTable firstNode) 7 sampleAddress [])\<rparr>"

lemma firstNode_table [simp]: "nodeTable firstNode = sampleGuru"
  by (simp add: firstNode_def newNode_def sampleGuru_def)

lemma sample_topicOf: "topicOf sampleGuru sampleAddress = Ret (sampleAddress, sampleHash, 0)"
  by code_simp

lemma subscribedNode_reached: "reached subscribedNode"
proof -
  have "reached firstNode" unfolding firstNode_def by (rule reached.Start)
  moreover have "node_step firstNode subscribedNode"
    unfolding subscribedNode_def by (rule node_step.Subscribed) (rule prod.collapse [symmetric])
  ultimately show ?thesis by (rule reached.Step)
qed

lemma sampleGuru_buckets: "allTheSubscriptions sampleGuru = replicate 4 emptyBucket" "theBucketsSizeLog2 sampleGuru = 2"
  by (simp_all add: sampleGuru_def NewLookupTable_def)

lemma subscribedNode_table:
  "nodeTable subscribedNode = modifyBucket sampleGuru 0
     (\<lambda>b. b\<lparr>incoming := [SubscriptionMessage 7 sampleHash sampleAddress []]\<rparr>)"
  by (simp add: subscribedNode_def sendSubscriptionMessage_def sample_topicOf sampleGuru_buckets emptyBucket_def
      queueCapacity_def enqueue_def modifyBucket_def)

theorem reachable_nodes_are_sound_witness:
  "SubscriptionMessage 7 sampleHash sampleAddress [] \<in> set (incoming (allTheSubscriptions (nodeTable subscribedNode) ! 0))
    \<and> GetFractionalBits sampleHash (theBucketsSizeLog2 (nodeTable subscribedNode)) = 0"
proof -
  have l: "0 < length (allTheSubscriptions (nodeTable subscribedNode))"
    by (simp add: subscribedNode_table modifyBucket_def sampleGuru_buckets)
  have m: "SubscriptionMessage 7 sampleHash sampleAddress [] \<in> set (incoming (allTheSubscriptions (nodeTable subscribedNode) ! 0))"
    by (simp add: subscribedNode_table modifyBucket_def sampleGuru_buckets)
  show ?thesis
    using reachable_nodes_are_sound [OF subscribedNode_reached l] m messageHash.simps(1) by blast
qed

section \<open>No ordinary message stops a bucket\<close>

lemma perform_writes:
  "(\<forall>x \<in> set effs. is_write x) \<Longrightarrow> perform i effs n = Ret (n\<lparr>nodeLog := nodeLog n @ effs\<rparr>)"
  by (induction i effs n rule: perform.induct) (auto simp: is_write_def)

lemma plain_callback_writes:
  assumes "table_ok P s" "plain_message (CallBackMessage cb)" "order_ok e" "maglev_sound e" "router_ok (router me)"
    "runCallback me e sv cb s = Ret (s', bill, effs)"
  shows "\<forall>x \<in> set effs. is_write x"
proof (cases cb)
  case (HeartBeatCallBack now)
  then show ?thesis using heartBeat_keeps [OF _ assms(1,3,5,4)] assms(6) by auto
next
  case (GuruDeleteRemapped i)
  then show ?thesis using guruDelete_keeps [OF _ assms(1)] assms(6) by (auto simp: withBilling_Ret)
next
  case ReSubscribeRemapped
  then show ?thesis using assms(6) by (auto simp: withBilling_Ret dest!: reRemapped_keeps)
next
  case (ReSubscribeMine i)
  then show ?thesis using assms(6) by (auto simp: withBilling_Ret dest!: reMine_keeps)
qed (use assms(2,6) in \<open>auto simp: withBilling_Ret lookBackSameRun_def sendReply_def plain_message_def\<close>)

lemma plain_writes:
  assumes "table_ok P s" "plain_message m" "order_ok e" "maglev_sound e" "router_ok (router me)"
    "handleMessage me e sv m s = Ret (s', bill, effs)"
  shows "\<forall>x \<in> set effs. is_write x"
proof (cases m)
  case (CallBackMessage cb)
  then show ?thesis using plain_callback_writes [OF assms(1) _ assms(3-5), of cb sv s'] assms(2,6) by simp
qed (use assms(2,6) in \<open>auto simp: withBilling_Ret plain_message_def
    dest: sub_writes unsub_writes pub_writes subdown_writes pubdown_writes\<close>)



section \<open>A change of the gurus\<close>

lemma rangeLoop_pure:
  "(\<And>h. f h s = Ret (s, g h)) \<Longrightarrow> rangeLoop f hs s = Ret (s, concat (map g hs))"
  by (induction hs) simp_all

definition upSubscribe :: "looker \<Rightarrow> env \<Rightarrow> HashType \<Rightarrow> effect list" where
  "upSubscribe me e h = (case pushUp me e (Subscribe (keyAddress h) []) h of Ret effs \<Rightarrow> effs | _ \<Rightarrow> [])"

definition moved :: "looker \<Rightarrow> env \<Rightarrow> HashType \<Rightarrow> bool" where
  "moved me e h \<longleftrightarrow> (case maglevTable (router me) of None \<Rightarrow> False | Some t \<Rightarrow>
     (case previousMaglev (router me) of None \<Rightarrow> True
      | Some p \<Rightarrow> maglevLookup e t (GetUint64 h) \<noteq> maglevLookup e p (GetUint64 h)))"

text \<open>After a change of the gurus an aide re-subscribes, upstream, exactly the topics of the bucket
  whose guru index changed (all of them after the first change), one Subscribe to one channel for
  each, and its own table stays as it is.\<close>

theorem moved_topics_are_resubscribed:
  assumes "router_ok (router me)" "maglev_sound e" "maglevTable (router me) = Some (names, msize)"
    "channels (router me) \<noteq> []"
  shows "reSubscribeRemappedTopics me e s
      = Ret (s, concat (map (\<lambda>h. if moved me e h then upSubscribe me e h else []) (rangeTopics e s)))
    \<and> (\<forall>h. upSubscribe me e h = [Up (maglevLookup e (names, msize) (GetUint64 h)) (Subscribe (keyAddress h) [])])"
proof -
  have l: "length names = length (channels (router me))" using assms(1,3,4) by (simp add: router_ok_def)
  have up: "pushUp me e (Subscribe (keyAddress h) []) h
      = Ret [Up (maglevLookup e (names, msize) (GetUint64 h)) (Subscribe (keyAddress h) [])]" for h
  proof -
    have i: "maglevLookup e (names, msize) (GetUint64 h) < length (channels (router me))"
      using assms(2,4) l unfolding maglev_sound_def by (metis length_0_conv)
    obtain upc where "channels (router me) ! maglevLookup e (names, msize) (GetUint64 h) = Some upc" "upUp upc = OpenChan"
      using assms(1) nth_mem [OF i] by (auto simp: router_ok_def)
    then show ?thesis using assms(3,4) i by (simp add: pushUp_def PushUp_def getUpperChannel_def Let_def)
  qed
  have "reSubscribeRemappedTopics me e s
      = Ret (s, concat (map (\<lambda>h. if moved me e h then upSubscribe me e h else []) (rangeTopics e s)))"
    unfolding reSubscribeRemappedTopics_def
    by (rule rangeLoop_pure)
       (auto simp: lookupIn_def assms(3) up moved_def upSubscribe_def Let_def split: option.split)
  then show ?thesis using up by (simp add: upSubscribe_def)
qed

definition sampleChannel :: "string \<Rightarrow> nat \<Rightarrow> upperChannel" where
  "sampleChannel name i = newUpperChannel name ''10.0.0.1:8384'' i"

definition sampleRouter :: upstreamRouter where
  "sampleRouter = \<lparr>channels = [Some (sampleChannel ''guru0'' 0), Some (sampleChannel ''guru1'' 1)],
     maglevTable = Some ([''guru0'', ''guru1''], 97), previousMaglev = Some ([''guru0''], 97), name2channel = []\<rparr>"

definition sampleAide :: looker where
  "sampleAide = (NewLookupTable 10 ''aide0'' False (newAccumulator zero_stats []))\<lparr>router := sampleRouter\<rparr>"

lemma sampleAide_router: "router sampleAide = sampleRouter" "\<not> isGuru sampleAide" "lookDebug sampleAide"
  "allTheSubscriptions sampleAide = replicate 4 emptyBucket"
  by (simp_all add: sampleAide_def NewLookupTable_def)

lemma sampleRouter_ok: "router_ok sampleRouter"
  by (simp add: router_ok_def sampleRouter_def sampleChannel_def newUpperChannel_def)

theorem moved_topics_are_resubscribed_witness:
  "upSubscribe sampleAide sampleEnv otherHash
    = [Up (maglevLookup sampleEnv ([''guru0'', ''guru1''], 97) (GetUint64 otherHash)) (Subscribe (keyAddress otherHash) [])]"
  using moved_topics_are_resubscribed [of sampleAide sampleEnv "[''guru0'', ''guru1'']" 97]
  by (simp add: sampleAide_router sampleRouter_ok sample_maglev) (simp add: sampleRouter_def)

lemma rangeLoop_removes:
  "\<exists>effs. rangeLoop (\<lambda>h s. if Q h then Ret (om_remove h s, g h) else Ret (s, [])) hs s
    = Ret (fold om_remove (filter Q hs) s, effs)"
proof (induction hs arbitrary: s)
  case (Cons h hs)
  obtain effs where "rangeLoop (\<lambda>h s. if Q h then Ret (om_remove h s, g h) else Ret (s, [])) hs (if Q h then om_remove h s else s)
      = Ret (fold om_remove (filter Q hs) (if Q h then om_remove h s else s), effs)"
    using Cons by blast
  then show ?case by (cases "Q h") simp_all
qed simp

text \<open>When the gurus change, a guru keeps exactly those topics that the new maglev table maps to its
  own index; if its name is not among the gurus any more (index \<open>-1\<close>) it drops them all.\<close>

theorem guru_drops_remapped_topics:
  assumes "table_ok P s" "order_ok e" "router_ok (router me)" "maglev_sound e" "maglevTable (router me) = Some m"
  shows "\<exists>s' effs. guruDeleteRemappedAndGoneTopics me e myindex s = Ret (s', effs) \<and> table_ok P s'
    \<and> (\<forall>h. getWatcher s' h
        = (if int (maglevLookup e m (GetUint64 h)) = myindex then getWatcher s h else None))"
proof -
  have o: "om_ok s" using assms(1) by (simp add: table_ok_def)
  have up: "\<exists>effs. pushUp me e (Unsubscribe (keyAddress h) []) h = Ret effs" for h
    using up_returns [OF assms(3,4)] by blast
  define g where "g h = (case pushUp me e (Unsubscribe (keyAddress h) []) h of Ret effs \<Rightarrow> effs | _ \<Rightarrow> [])" for h
  have g: "pushUp me e (Unsubscribe (keyAddress h) []) h = Ret (g h)" for h
    using up [of h] by (auto simp: g_def)
  define Q where "Q h \<longleftrightarrow> int (maglevLookup e m (GetUint64 h)) \<noteq> myindex" for h
  obtain effs where r: "guruDeleteRemappedAndGoneTopics me e myindex s
      = Ret (fold om_remove (filter Q (rangeTopics e s)) s, effs)"
    using rangeLoop_removes [of Q g "rangeTopics e s" s]
    by (auto simp: guruDeleteRemappedAndGoneTopics_def lookupIn_def assms(5) g Q_def cong: if_cong)
  have "getWatcher (fold om_remove (filter Q (rangeTopics e s)) s) h = (if Q h then None else getWatcher s h)" for h
  proof (cases "h \<in> set (rangeTopics e s)")
    case True
    then show ?thesis using fold_remove_get [OF o, of "filter Q (rangeTopics e s)" h] by simp
  next
    case False
    then have "getWatcher s h = None"
      using rangeTopics_ok [OF o assms(2)] om_get_None_iff [of s h] by (simp add: getWatcher_def)
    then show ?thesis using False fold_remove_get [OF o, of "filter Q (rangeTopics e s)" h] by simp
  qed
  moreover have "table_ok P (fold om_remove (filter Q (rangeTopics e s)) s)"
    using guruDelete_keeps [OF r assms(1)] by simp
  ultimately show ?thesis using r by (auto simp: Q_def)
qed

theorem guru_drops_remapped_topics_witness:
  "\<exists>s' effs. guruDeleteRemappedAndGoneTopics (sampleGuru\<lparr>router := sampleRouter\<lparr>channels := []\<rparr>\<rparr>) sampleEnv (-1) sampleTopics = Ret (s', effs)
    \<and> getWatcher s' sampleHash = None"
proof -
  have "router_ok (sampleRouter\<lparr>channels := []\<rparr>)" by (simp add: router_ok_def sampleRouter_def)
  then show ?thesis
    using guru_drops_remapped_topics [OF sampleTopics_ok sample_order _ sample_maglev,
        of "sampleGuru\<lparr>router := sampleRouter\<lparr>channels := []\<rparr>\<rparr>" "([''guru0'', ''guru1''], 97)" "-1"]
    by (fastforce simp: sampleRouter_def)
qed

lemma enqueue_Ret:
  "enqueue me i m = (t, Ret u) \<Longrightarrow> t = modifyBucket me i (\<lambda>b. b\<lparr>incoming := incoming b @ [m]\<rparr>) \<and> i < length (allTheSubscriptions me)"
  by (auto simp: enqueue_def split: if_splits)

lemma broadcastFrom_all:
  "broadcastFrom i n me cb = (t, Ret u) \<Longrightarrow>
    router t = router me \<and> length (allTheSubscriptions t) = length (allTheSubscriptions me)
    \<and> (\<forall>j < length (allTheSubscriptions me). allTheSubscriptions t ! j
        = (if i \<le> j \<and> j < i + n
           then (allTheSubscriptions me ! j)\<lparr>incoming := incoming (allTheSubscriptions me ! j) @ [CallBackMessage cb]\<rparr>
           else allTheSubscriptions me ! j))"
proof (induction n arbitrary: i me)
  case (Suc n)
  obtain t1 r1 where e: "enqueue me i (CallBackMessage cb) = (t1, r1)" by fastforce
  with Suc.prems obtain u1 where r1: "r1 = Ret u1" "broadcastFrom (Suc i) n t1 cb = (t, Ret u)"
    by (cases r1) auto
  note t1 = enqueue_Ret [OF e [unfolded r1(1)]]
  show ?case
    using Suc.IH [OF r1(2)] t1 by (auto simp: modifyBucket_def nth_list_update)
qed auto

lemma broadcast_all:
  assumes "broadcast me cb = (t, Ret u)"
  shows "router t = router me \<and> length (allTheSubscriptions t) = length (allTheSubscriptions me)
    \<and> (\<forall>j < length (allTheSubscriptions me).
        incoming (allTheSubscriptions t ! j) = incoming (allTheSubscriptions me ! j) @ [CallBackMessage cb]
        \<and> mySubscriptions (allTheSubscriptions t ! j) = mySubscriptions (allTheSubscriptions me ! j))"
  using broadcastFrom_all [OF assms [unfolded broadcast_def]] by simp

lemma fresh_nth:
  assumes "length names = length addresses" "i < length names"
  shows "freshChannels names addresses ! i = Some (newUpperChannel (names ! i) (addresses ! i) i)"
  using assms by (simp add: freshChannels_def nth_enumerate_eq)

text \<open>When \<open>SetUpstreamNames\<close> returns on an aide whose gurus changed, the router has one open, new
  channel per name, in the order of the names and with its address, a maglev table of the new names,
  the old table as the previous one, and every bucket has the re-subscription of its moved topics at
  the end of its queue; the topics are untouched. No channel of the old router is reused.\<close>

theorem change_of_gurus:
  assumes "reached n" "\<not> isGuru (nodeTable n)" "SetUpstreamNames (nodeTable n) names addresses = (t, Ret ())"
    and "names \<noteq> map (\<lambda>c. upName (the c)) (channels (router (nodeTable n)))"
  shows "length (channels (router t)) = length names
    \<and> (\<forall>i < length names. channels (router t) ! i = Some (newUpperChannel (names ! i) (addresses ! i) i))
    \<and> maglevTable (router t) = Some (names, if lookDebug (nodeTable n) then 97 else 65537)
    \<and> previousMaglev (router t) = maglevTable (router (nodeTable n))
    \<and> (\<forall>j < length (allTheSubscriptions (nodeTable n)).
         incoming (allTheSubscriptions t ! j)
           = incoming (allTheSubscriptions (nodeTable n) ! j) @ [CallBackMessage ReSubscribeRemapped]
         \<and> mySubscriptions (allTheSubscriptions t ! j) = mySubscriptions (allTheSubscriptions (nodeTable n) ! j))"
proof -
  let ?me = "nodeTable n"
  have ok: "router_ok (router ?me)" "name2channel (router ?me) = []"
    using reached_looker [OF assms(1)] by (auto simp: looker_ok_def)
  have c: "length names = length addresses"
    "broadcast (?me\<lparr>router := changedRouter ?me names addresses\<rparr>) ReSubscribeRemapped = (t, Ret ())"
    using SetUpstreamNames_cases [OF assms(3) _ ok] assms(2,4) by auto
  have r: "router t = changedRouter ?me names addresses"
    "\<forall>j < length (allTheSubscriptions ?me).
      incoming (allTheSubscriptions t ! j) = incoming (allTheSubscriptions ?me ! j) @ [CallBackMessage ReSubscribeRemapped]
      \<and> mySubscriptions (allTheSubscriptions t ! j) = mySubscriptions (allTheSubscriptions ?me ! j)"
    using broadcast_all [OF c(2)] by simp_all
  show ?thesis
    using r fresh_nth [OF c(1)] fresh_length [OF c(1)] assms(2) by (simp add: changedRouter_def maglevSize_def)
qed

lemma aide_start_names:
  "reached (newNode 10 ''aide0'' False (newAccumulator zero_stats []))"
  "\<exists>t. SetUpstreamNames (nodeTable (newNode 10 ''aide0'' False (newAccumulator zero_stats [])))
     [''guru0''] [''10.0.0.1:8384''] = (t, Ret ())"
  by (rule reached.Start, rule exI, code_simp)

theorem change_of_gurus_witness:
  "\<exists>t. SetUpstreamNames (nodeTable (newNode 10 ''aide0'' False (newAccumulator zero_stats [])))
     [''guru0''] [''10.0.0.1:8384''] = (t, Ret ())
    \<and> channels (router t) = [Some (newUpperChannel ''guru0'' ''10.0.0.1:8384'' 0)]"
proof -
  let ?n = "newNode 10 ''aide0'' False (newAccumulator zero_stats [])"
  obtain t where t: "SetUpstreamNames (nodeTable ?n) [''guru0''] [''10.0.0.1:8384''] = (t, Ret ())"
    using aide_start_names(2) by blast
  have "\<not> isGuru (nodeTable ?n)" "channels (router (nodeTable ?n)) = []"
    by (simp_all add: newNode_def NewLookupTable_def)
  then have "length (channels (router t)) = 1" "channels (router t) ! 0 = Some (newUpperChannel ''guru0'' ''10.0.0.1:8384'' 0)"
    using change_of_gurus [OF aide_start_names(1) _ t] by simp_all
  then have "channels (router t) = [Some (newUpperChannel ''guru0'' ''10.0.0.1:8384'' 0)]"
    by (cases "channels (router t)") auto
  then show ?thesis using t by blast
qed

text \<open>A guru that goes away takes the aide with it: once a channel has been served over TCP its
  \<open>down\<close> is nil, and a change to names without it panics on closing that.\<close>

theorem forgetting_a_served_guru_panics:
  assumes "reached n" "\<not> isGuru (nodeTable n)" "length names = length addresses"
    and "Some upc \<in> set (channels (router (nodeTable n)))" "upName upc \<notin> set names"
    and "upc = dialGuruServe upc0 True"
  shows "snd (SetUpstreamNames (nodeTable n) names addresses) = Panic"
proof -
  have "router_ok (router (nodeTable n))" using reached_looker [OF assms(1)] by (simp add: looker_ok_def)
  then show ?thesis
    using forget_served_panics [OF assms(4,5) _ _ assms(2,3)] assms(6) by (simp add: dialGuruServe_def)
qed

definition aideNode :: node where
  "aideNode = newNode 10 ''aide0'' False (newAccumulator zero_stats [])"

definition namedAide :: node where
  "namedAide = aideNode\<lparr>nodeTable := fst (SetUpstreamNames (nodeTable aideNode) [''guru0''] [''10.0.0.1:8384''])\<rparr>"

definition servedAide :: node where
  "servedAide = namedAide\<lparr>nodeTable :=
     fst (broadcast (updateChannel 0 (\<lambda>c. dialGuruServe c True) (nodeTable namedAide)) (ReSubscribeMine (int 0)))\<rparr>"

lemma namedAide_facts:
  "snd (SetUpstreamNames (nodeTable aideNode) [''guru0''] [''10.0.0.1:8384'']) \<noteq> Panic"
  "0 < length (channels (router (nodeTable namedAide)))"
  by code_simp+

lemma servedAide_facts:
  "channels (router (nodeTable servedAide))
    = [Some (dialGuruServe (newUpperChannel ''guru0'' ''10.0.0.1:8384'' 0) True)]"
  "\<not> isGuru (nodeTable servedAide)"
  by code_simp+

lemma servedAide_reached: "reached servedAide"
proof -
  have "reached aideNode" unfolding aideNode_def by (rule reached.Start)
  moreover have "node_step aideNode namedAide"
    unfolding namedAide_def
    by (rule node_step.Renamed [OF prod.collapse [symmetric] namedAide_facts(1)])
  moreover have "node_step namedAide servedAide"
    unfolding servedAide_def
    by (rule node_step.Dialed [OF namedAide_facts(2) prod.collapse [symmetric]])
  ultimately show ?thesis using reached.Step by blast
qed

theorem forgetting_a_served_guru_panics_witness:
  "snd (SetUpstreamNames (nodeTable servedAide) [''guru1''] [''10.0.0.2:8384'']) = Panic"
  by (rule forgetting_a_served_guru_panics [OF servedAide_reached servedAide_facts(2), of _ _ _
        "newUpperChannel ''guru0'' ''10.0.0.1:8384'' 0"])
     (simp_all add: servedAide_facts(1) dialGuruServe_def newUpperChannel_def)

end
