(* ===== verification/Names.thy ===== *)
theory Names
  imports Broker
begin

text \<open>
  What the name service promises: who may change or read a name, that each command is answered
  once, that an owner's options can be read back; and the commands that stop a guru.
\<close>

section \<open>Protection\<close>

definition lookupCommand :: "services \<Rightarrow> lookupReq \<Rightarrow> string \<times> string list" where
  "lookupCommand sv req = findCommand sv (TrimSpace (fst (GetOption (lookOptions req) ''cmd'')))"

definition authentic :: "services \<Rightarrow> lookupReq \<Rightarrow> bool" where
  "authentic sv req \<longleftrightarrow> decryptCommand sv (lookOptions req) (TrimSpace (fst (GetOption (lookOptions req) ''cmd'')))"

lemma processLookup_guru:
  assumes "isGuru me"
  shows "processLookup me e sv req s =
    (case lookupCommand sv req of (name, args) \<Rightarrow>
       if requiresEncryption name \<longrightarrow> authentic sv req then executeCommand sv name args req s
       else Ret (s, sendReply req ''error: decryption failed''))"
  using assms by (auto simp: processLookup_def lookupCommand_def authentic_def Let_def split: prod.split)

lemma guru_post:
  assumes "isGuru me" "\<And>name args. lookupCommand sv req = (name, args) \<Longrightarrow>
      requiresEncryption name \<longrightarrow> authentic sv req \<Longrightarrow> run_post h Q R (executeCommand sv name args req)"
    and "\<And>s. R s s (sendReply req ''error: decryption failed'')"
  shows "run_post h Q R (processLookup me e sv req)"
proof -
  obtain name args where c: "lookupCommand sv req = (name, args)" by fastforce
  then show ?thesis
    using assms by (cases "requiresEncryption name \<longrightarrow> authentic sv req")
      (auto simp: run_post_def processLookup_guru)
qed

text \<open>C6: A command about a name in the table that somebody else owns changes nothing: no topic, no
  entry of the database, no message queued; the guru only writes replies to the requester.\<close>

theorem only_the_owner_changes_a_name:
  assumes "isGuru me" "om_ok s" "getWatcher s (lookHash req) = Some wt" "Owner wt \<noteq> reqPubk req"
    and "processLookup me e sv req s = Ret (s', effs)"
  shows "s' = s \<and> (\<forall>x \<in> set effs. \<exists>reply. x = ToAide (replyPacket req reply))"
proof -
  have p: "run_post (lookHash req) (refused req) (\<lambda>s s' effs. s' = s \<and> (\<forall>x \<in> set effs. is_reply req x))
      (processLookup me e sv req)"
    using execute_refused by (intro guru_post [OF assms(1)]) (auto dest: reply_is)
  show ?thesis
    using run_postD [OF p assms(2) _ assms(5)] assms(3,4) unfolding refused_def is_reply_def by blast
qed

definition sampleRequest :: "string \<Rightarrow> lookupReq" where
  "sampleRequest cmd = \<lparr>lookContact = 9, lookHash = sampleHash, lookAddress = sampleAddress,
     lookSource = keyAddress otherHash, lookOptions = [(''cmd'', cmd)]\<rparr>"

lemma sample_time:
  "processLookup sampleGuru sampleEnv sampleServices (sampleRequest ''get time'') sampleTopics
    = Ret (sampleTopics, sendReply (sampleRequest ''get time'') ''1000'')"
  by code_simp

theorem only_the_owner_changes_a_name_witness:
  "\<exists>s' effs. processLookup sampleGuru sampleEnv sampleServices (sampleRequest ''get time'') sampleTopics = Ret (s', effs)
    \<and> s' = sampleTopics"
proof -
  have "Owner sampleTopic \<noteq> reqPubk (sampleRequest ''get time'')"
    by (simp add: sampleTopic_def reqPubk_def sampleRequest_def GetOption_def om_get_Cons)
  moreover have "om_ok sampleTopics" using sampleTopics_ok by (simp add: table_ok_def)
  moreover have "getWatcher sampleTopics (lookHash (sampleRequest ''get time'')) = Some sampleTopic"
    by (simp add: sampleRequest_def sampleTopics_get)
  ultimately show ?thesis
    using only_the_owner_changes_a_name [OF sampleGuru_guru _ _ _ sample_time] sample_time by blast
qed




lemma sample_command: "lookupCommand sampleServices (sampleRequest ''get time'') = (''get time'', [])"
  by code_simp


section \<open>Options of a name\<close>

text \<open>C20: What the owner sets, everybody gets: after \<open>set option KEY SUB VALUE\<close> on a name in the table,
  \<open>get option KEY SUB\<close> answers the value and every other entry of the key is as before, for words of
  printable ASCII characters and whatever order the map of the words is iterated in.\<close>

theorem set_option_then_get:
  assumes "getWatcher s (lookHash req) = Some wt" "reqPubk req = Owner wt" "ascii key" "om_ok s"
    and "optionMapOf wt (to_upper (uniUpper sv) key) = Ret m" "plain_map m"
    and "plain_word sub" "plain_word v" "permutes_keys (mapKeys sv)"
    and "executeCommand sv ''set option'' [key, sub, v] req s = Ret (s', effs)" "lookHash req' = lookHash req"
  shows "executeCommand sv ''get option'' [key, sub] req' s' = Ret (s', sendReply req' v)
    \<and> (\<forall>other w. other \<noteq> sub \<longrightarrow> om_get m other = Some w \<longrightarrow>
         executeCommand sv ''get option'' [key, other] req' s' = Ret (s', sendReply req' w))
    \<and> (\<exists>wt'. SaveTopic wt' \<in> set effs \<and> getWatcher s' (lookHash req) = Some wt' \<and> thetree wt' = thetree wt)"
proof -
  obtain wt' where wt': "SaveTopic wt' \<in> set effs" "getWatcher s' (lookHash req) = Some wt'" "thetree wt' = thetree wt"
    "optionMapOf wt' (to_upper (uniUpper sv) key) = Ret (om_put sub v m)"
    using set_then_map [OF assms(1-3,5-9,4)] assms(10) by auto
  have g: "executeCommand sv ''get option'' [key, other] req' s' = Ret (s', sendReply req' w)"
    if "om_get (om_put sub v m) other = Some w" for other w
    using get_option_map [OF _ wt'(4) that, of s' req'] wt'(2) assms(11) by simp
  show ?thesis
    using g [of sub v] g wt'(1-3) by (auto simp: om_put_get)
qed

definition ownerRequest :: "string \<Rightarrow> lookupReq" where
  "ownerRequest cmd = (sampleRequest cmd)\<lparr>lookOptions := [(''cmd'', cmd), (''pubk'', ''me'')]\<rparr>"

lemma sample_permutes: "permutes_keys (mapKeys sampleServices)"
  by (simp add: permutes_keys_def sampleServices_def)

definition afterSet :: topics where
  "afterSet = (case executeCommand sampleServices ''set option'' [''a'', ''@'', ''1.2.3.4''] (ownerRequest []) sampleTopics of
     Ret (s, effs) \<Rightarrow> s | _ \<Rightarrow> [])"

theorem set_option_then_get_witness:
  "executeCommand sampleServices ''get option'' [''a'', ''@''] (sampleRequest []) afterSet
    = Ret (afterSet, sendReply (sampleRequest []) ''1.2.3.4'')"
proof -
  have m: "optionMapOf sampleTopic (to_upper (uniUpper sampleServices) ''a'') = Ret []" by code_simp
  have w: "plain_word ''@''" "plain_word ''1.2.3.4''" "plain_map []" by code_simp+
  have o: "om_ok sampleTopics" using sampleTopics_ok by (simp add: table_ok_def)
  have "getWatcher sampleTopics (lookHash (ownerRequest [])) = Some sampleTopic"
    by (simp add: ownerRequest_def sampleRequest_def sampleTopics_get)
  note q = this
  have p: "reqPubk (ownerRequest []) = Owner sampleTopic" "ascii ''a''"
    by (simp_all add: reqPubk_def ownerRequest_def sampleRequest_def GetOption_def om_get_Cons sampleTopic_def)
  obtain s' effs where r: "executeCommand sampleServices ''set option'' [''a'', ''@'', ''1.2.3.4''] (ownerRequest []) sampleTopics = Ret (s', effs)"
    using set_then_map [OF q p m w(3,1,2) sample_permutes o] by blast
  show ?thesis
    using set_option_then_get [OF q p o m w(3,1,2) sample_permutes r, of "sampleRequest []"] r
    by (simp add: ownerRequest_def sampleRequest_def afterSet_def)
qed

section \<open>Commands that stop a guru\<close>

definition okServices :: services where
  "okServices = sampleServices\<lparr>boxOpen := (\<lambda>sealed nonce pubk. Some sealed)\<rparr>"

definition sealedRequest :: "string \<Rightarrow> lookupReq" where
  "sealedRequest cmd = (sampleRequest cmd)\<lparr>lookOptions :=
     [(''cmd'', cmd), (''nonc'', ''1''), (''pubk'', ''me''), (''sealed'', cmd @ ''#1000'')]\<rparr>"

text \<open>\<open>set option\<close> with fewer than two arguments panics, and with it the guru: the error reply is
  written, but the code goes on to read the missing arguments. Any client that can seal a command for
  the cluster can send it, for any address.\<close>

theorem short_set_option_panics:
  assumes "isGuru me" "authentic sv req" "lookupCommand sv req = (''set option'', args)" "length args < 2"
  shows "processLookup me e sv req s = Panic"
  using assms by (cases args) (auto simp: processLookup_guru executeCommand_def setOptionCommand_def)

theorem short_set_option_panics_witness:
  "processLookup sampleGuru sampleEnv okServices (sealedRequest ''set option a'') [] = Panic"
proof -
  have "authentic okServices (sealedRequest ''set option a'')"
    "lookupCommand okServices (sealedRequest ''set option a'') = (''set option'', [''a''])"
    by code_simp+
  then show ?thesis by (rule short_set_option_panics [OF sampleGuru_guru]) simp
qed

lemma pairLoop_odd: "odd (length ws) \<Longrightarrow> pairLoop ws m = Panic"
  by (induction ws m rule: pairLoop.induct) auto

text \<open>An option value that splits into an odd number of words, more than one, cannot be read back:
  \<open>get option\<close>, which needs no seal, panics for everybody who asks for that key of the name.\<close>

theorem odd_option_value_panics:
  assumes "getWatcher s (lookHash req) = Some wt" "wtGetOption wt (to_upper (uniUpper sv) key) = (val, True)"
    and "odd (length (split_on (CHR '' '') (TrimSpace val)))" "length (split_on (CHR '' '') (TrimSpace val)) \<noteq> 1"
  shows "executeCommand sv ''get option'' [key, sub] req s = Panic"
proof -
  have "TrimSpace val \<noteq> []" using assms(4) by auto
  then have "StringToMap val = Panic"
    using assms(3,4) pairLoop_odd by (simp add: StringToMap_def Let_def)
  then show ?thesis
    using assms(1,2) by (simp add: executeCommand_def getAndSetWatcher_def optionMapOf_def)
qed

text \<open>The owner stores such a value with two commands whose sub key is the empty word.\<close>

lemma set_stores:
  assumes "getWatcher s (lookHash req) = Some wt" "reqPubk req = Owner wt" "ascii key"
    "optionMapOf wt (to_upper (uniUpper sv) key) = Ret m" "MapToString (mapKeys sv) (om_put sub v m) = Ret str"
  shows "executeCommand sv ''set option'' [key, sub, v] req s
    = Ret (setWatcher s (lookHash req) (Some (wtSetOption wt (to_upper (uniUpper sv) key) str)),
        SaveTopic (wtSetOption wt (to_upper (uniUpper sv) key) str) # sendReply req ''ok'')"
  using assms by (simp add: executeCommand_def setOptionCommand_def getAndSetWatcher_def to_upper_idem storeOption_def Let_def)

definition emptyKeyTopic :: "string \<Rightarrow> WatchedTopic" where
  "emptyKeyTopic val = wtSetOption sampleTopic ''A'' val"

definition emptyKeyTopics :: "string \<Rightarrow> topics" where
  "emptyKeyTopics val = setWatcher sampleTopics sampleHash (Some (emptyKeyTopic val))"

lemma emptyKey_stored:
  "\<exists>effs. executeCommand sampleServices ''set option'' [''a'', [], ''b''] (ownerRequest []) sampleTopics
      = Ret (emptyKeyTopics '' b'', effs)"
  "\<exists>effs. executeCommand sampleServices ''set option'' [''a'', [], ''c''] (ownerRequest []) (emptyKeyTopics '' b'')
      = Ret (emptyKeyTopics '' c @ b'', effs)"
proof -
  have up: "to_upper (uniUpper sampleServices) ''a'' = ''A''" by code_simp
  have o: "om_ok sampleTopics" using sampleTopics_ok by (simp add: table_ok_def)
  have req: "lookHash (ownerRequest []) = sampleHash" "reqPubk (ownerRequest []) = ''me''"
    by (simp_all add: ownerRequest_def sampleRequest_def reqPubk_def GetOption_def om_get_Cons)
  have own: "Owner sampleTopic = ''me''" "Owner (emptyKeyTopic v) = ''me''" for v
    by (simp_all add: sampleTopic_def emptyKeyTopic_def wtSetOption_def)
  have "optionMapOf sampleTopic ''A'' = Ret []" by code_simp
  moreover have "MapToString (mapKeys sampleServices) (om_put [] ''b'' []) = Ret '' b''" by code_simp
  ultimately show "\<exists>effs. executeCommand sampleServices ''set option'' [''a'', [], ''b''] (ownerRequest []) sampleTopics
      = Ret (emptyKeyTopics '' b'', effs)"
    using set_stores [of sampleTopics "ownerRequest []" sampleTopic "''a''" sampleServices "[]" "[]" "''b''"]
    by (simp add: up req own sampleTopics_get emptyKeyTopics_def emptyKeyTopic_def)
  have g: "getWatcher (emptyKeyTopics v) sampleHash = Some (emptyKeyTopic v)" for v
    using o by (simp add: emptyKeyTopics_def getWatcher_set)
  have st: "setWatcher (emptyKeyTopics v) sampleHash (Some (wtSetOption (emptyKeyTopic v) ''A'' v')) = emptyKeyTopics v'" for v v'
    using o by (intro table_eqI)
      (auto simp: emptyKeyTopics_def emptyKeyTopic_def getWatcher_set setWatcher_ok wtSetOption_def sampleTopic_def emptyTopic_def)
  have "optionMapOf (emptyKeyTopic '' b'') ''A'' = Ret [(''@'', ''b'')]" by code_simp
  moreover have "MapToString (mapKeys sampleServices) (om_put [] ''c'' [(''@'', ''b'')]) = Ret '' c @ b''" by code_simp
  ultimately show "\<exists>effs. executeCommand sampleServices ''set option'' [''a'', [], ''c''] (ownerRequest []) (emptyKeyTopics '' b'')
      = Ret (emptyKeyTopics '' c @ b'', effs)"
    using set_stores [of "emptyKeyTopics '' b''" "ownerRequest []" "emptyKeyTopic '' b''" "''a''" sampleServices
        "[(''@'', ''b'')]" "[]" "''c''"]
    by (simp add: up req own g st)
qed

theorem odd_option_value_panics_witness:
  "executeCommand sampleServices ''get option'' [''a'', ''@''] (sampleRequest []) (emptyKeyTopics '' c @ b'') = Panic"
proof (rule odd_option_value_panics)
  have "om_ok sampleTopics" using sampleTopics_ok by (simp add: table_ok_def)
  then show "getWatcher (emptyKeyTopics '' c @ b'') (lookHash (sampleRequest [])) = Some (emptyKeyTopic '' c @ b'')"
    by (simp add: emptyKeyTopics_def getWatcher_set sampleRequest_def)
  show "wtGetOption (emptyKeyTopic '' c @ b'') (to_upper (uniUpper sampleServices) ''a'') = ('' c @ b'', True)"
    by code_simp
  show "odd (length (split_on (CHR '' '') (TrimSpace '' c @ b'')))"
    "length (split_on (CHR '' '') (TrimSpace '' c @ b'')) \<noteq> 1"
    by code_simp+
qed

section \<open>A name fetched late\<close>

text \<open>A topic that is fetched from the database for a lookup replaces whatever the bucket has made of
  it meanwhile: the subscriptions that arrived while the fetch was under way are forgotten without
  notice.\<close>

theorem late_fetch_forgets_subscribers:
  assumes "om_ok s" "read_finish fin" "thetree wt = []"
    and "lookBackRun sv req (Some wt) fin s = Ret (s', effs)"
  shows "\<not> watched (lookHash req) c item s'"
proof -
  let ?s1 = "setWatcher s (lookHash req) (Some wt)"
  have o: "om_ok ?s1" using assms(1) by (simp add: setWatcher_ok)
  have "finishCommand sv req fin ?s1 wt = Ret (s', effs)" using assms(4) by (simp add: lookBackRun_def)
  then have "s' = ?s1"
    using run_postD [OF finish_read [OF assms(2), of "lookHash req" "\<lambda>w. True" req sv wt] o] by blast
  then show ?thesis using assms(1,3) by (simp add: watched_def getWatcher_set wtGet_def)
qed

lemma sample_fetch:
  "\<exists>s' effs. lookBackRun sampleServices (sampleRequest []) (Some (sampleTopic\<lparr>thetree := []\<rparr>)) FinExists sampleTopics
    = Ret (s', effs)"
  by (simp add: lookBackRun_def Let_def)

theorem late_fetch_forgets_subscribers_witness:
  "watched sampleHash 2 \<lparr>contactInterface = 2, pub2self = False\<rparr> sampleTopics
    \<and> (\<exists>s' effs. lookBackRun sampleServices (sampleRequest []) (Some (sampleTopic\<lparr>thetree := []\<rparr>)) FinExists sampleTopics
          = Ret (s', effs)
        \<and> \<not> watched sampleHash 2 \<lparr>contactInterface = 2, pub2self = False\<rparr> s')"
proof -
  obtain s' effs where r: "lookBackRun sampleServices (sampleRequest []) (Some (sampleTopic\<lparr>thetree := []\<rparr>)) FinExists sampleTopics
      = Ret (s', effs)"
    using sample_fetch by blast
  have "om_ok sampleTopics" using sampleTopics_ok by (simp add: table_ok_def)
  then have "\<not> watched sampleHash 2 \<lparr>contactInterface = 2, pub2self = False\<rparr> s'"
    using late_fetch_forgets_subscribers [OF _ _ _ r] by (simp add: read_finish_def sampleRequest_def)
  moreover have "watched sampleHash 2 \<lparr>contactInterface = 2, pub2self = False\<rparr> sampleTopics"
    by (simp add: watched_def sampleTopics_get wtGet_def sampleTopic_def om_get_Cons)
  ultimately show ?thesis using r by blast
qed

end
