(* ===== verification/PacketText.thy ===== *)
theory PacketText
  imports Packets BadJson
begin

text \<open>
  The text form of packets (\<open>UniversalToJSON\<close>, \<open>ToJSON\<close>, \<open>String\<close> and \<open>Sig\<close> of
  \<open>packets/packets.go\<close>) and the text protocol built on it (\<open>Text2Packet\<close> and \<open>WriteDownstream\<close>
  of \<open>iot/text-protocol.go\<close>, \<open>HasError\<close> of \<open>iot/contacts.go\<close>). Lemmas: what is printed and read
  back, argument by argument and packet by packet.
\<close>

section \<open>Printing\<close>

text \<open>One argument, with the comma before it.\<close>

definition argToJSON :: "bytes \<Rightarrow> string" where
  "argToJSON bstr =
     (if bstr = [] then '',''
      else if hd bstr = CHR 0x00 then '',='' @ b64_encode (tl bstr)
      else let (isascii, hasdelimeters) = IsASCII bstr in
        if isascii then
          (if hasdelimeters then '','' @ quoted (MakeEscaped bstr) else '','' @ bstr)
        else if utf8_valid bstr then '','' @ quoted (MakeEscaped bstr)
        else '',='' @ b64_encode bstr)"

definition UniversalToJSON :: "Universal \<Rightarrow> string" where
  "UniversalToJSON str =
     ''['' @ encode_rune (byte_val (uCmd str)) @ concat (map argToJSON (uArgs str)) @ '']''"

text \<open>\<open>ToJSON\<close> drops the cached wire form, rebuilds it and prints it.\<close>

definition ToJSON :: "pkt \<Rightarrow> pkt \<times> string" where
  "ToJSON p =
     (let p' = fst (packetWrite (p\<lparr>backingUniversal := None\<rparr>)) in
      (p', UniversalToJSON (the (backingUniversal p'))))"

definition packetString :: "pkt \<Rightarrow> string" where
  "packetString p = snd (ToJSON p)"

text \<open>\<open>Sig\<close> prints the addresses' signatures; \<open>None\<close> is the panic of \<open>addrSig\<close>.\<close>

fun packetSig :: "packet \<Rightarrow> string option" where
  "packetSig (Send a s payload opts) =
     (case (addrSig a, addrSig s) of
        (Some (a', x), Some (s', y)) \<Rightarrow>
          Some (''send to:'' @ x @ '' frm:'' @ y @ '' with:'' @ hd (split_on (CHR 0x0A) payload))
      | _ \<Rightarrow> None)"
| "packetSig (Subscribe a opts) = map_option (\<lambda>(a', x). ''sub to:'' @ x) (addrSig a)"
| "packetSig (Unsubscribe a opts) = map_option (\<lambda>(a', x). ''unsub to:'' @ x) (addrSig a)"
| "packetSig (Connect opts) = Some ''connect''"
| "packetSig (Disconnect opts) = Some ''Disconnect''"
| "packetSig (Ping opts) = Some ''ping''"
| "packetSig (Lookup a s opts) =
     (case (addrSig a, addrSig s) of
        (Some (a', x), Some (s', y)) \<Rightarrow> Some (''Lookup :'' @ x @ '' frm:'' @ y)
      | _ \<Rightarrow> None)"

section \<open>Text2Packet\<close>

datatype text_error = BadText bad_error | TooLittleData | BadPacket wire_error

definition textArgs :: "segment list \<Rightarrow> bytes list" where
  "textArgs segs =
     (let got = take 11 (map Raw segs) in got @ replicate (64 - length got) [])"

definition Text2Packet :: "string \<Rightarrow> (text_error + pkt) outcome" where
  "Text2Packet text =
     bind_out (Chop text) (\<lambda>(segs, err).
       case err of
         Some e \<Rightarrow> Ret (Inl (BadText e))
       | None \<Rightarrow>
           let rawFirst = Raw (hd segs) in
           if rawFirst = [] then Ret (Inl TooLittleData)
           else case FillPacket \<lparr>uCmd = hd rawFirst, uArgs = textArgs (tl segs)\<rparr> of
                  Inl e \<Rightarrow> Ret (Inl (BadPacket e))
                | Inr p \<Rightarrow> Ret (Inr p))"

section \<open>Writing to a text contact\<close>

definition HasError :: "packet \<Rightarrow> packet option" where
  "HasError p =
     (let (errmsg, ok) = GetOption (packetOptions p) ''error'' in
      if ok then Some (Disconnect (SetOption ''error'' errmsg [])) else None)"

definition textDownstream :: "pkt \<Rightarrow> string" where
  "textDownstream p =
     (case HasError (body p) of
        Some u \<Rightarrow> packetString \<lparr>body = u, backingUniversal = None\<rparr> @ [CHR 0x0A]
      | None \<Rightarrow> packetString p @ [CHR 0x0A])"

section \<open>Escaped text\<close>

definition escape_runes :: "nat list \<Rightarrow> nat list" where
  "escape_runes rs = concat (map (\<lambda>r. if r = slash \<or> r = qDouble then [slash, r] else [r]) rs)"

definition needs_escape :: "nat list \<Rightarrow> bool" where
  "needs_escape rs \<longleftrightarrow> slash \<in> set rs \<or> qDouble \<in> set rs"

lemma escape_runes_simps [simp]:
  "escape_runes [] = []"
  "escape_runes (r # rs) = (if r = slash \<or> r = qDouble then [slash, r] else [r]) @ escape_runes rs"
  by (simp_all add: escape_runes_def)

lemma escape_scalar: "list_all scalar rs \<Longrightarrow> list_all scalar (escape_runes rs)"
  by (induction rs) (auto simp: scalar_def)

lemma escaped_encode: "list_all scalar rs \<Longrightarrow> MakeEscaped (encode_runes rs) = encode_runes (escape_runes rs)"
  by (induction rs) (simp_all add: MakeEscaped_def runes_encode_Cons)

lemma escape_none: "\<not> needs_escape rs \<Longrightarrow> escape_runes rs = rs"
  by (induction rs) (auto simp: needs_escape_def)

lemma unescape_runes:
  "list_all scalar rs \<Longrightarrow> unescapeLoop qDouble (escape_runes rs) False = encode_runes rs"
  by (induction rs) auto

lemma unescape_escape:
  assumes "utf8_valid s"
  shows "MakeUnescaped (MakeEscaped s) qDouble = s"
proof -
  define rs where "rs = runes s"
  have s: "s = encode_runes rs" "list_all scalar rs"
    using utf8_valid_runes [OF assms] by (simp_all add: rs_def)
  then show ?thesis
    by (simp add: MakeUnescaped_def escaped_encode runes_encode escape_scalar unescape_runes)
qed

lemma adv_encode [simp]: "scalar r \<Longrightarrow> adv (encode_rune r @ s) = s"
  using decode_encode_scalar [of r s] by (simp add: adv_def encode_rune_scalar)

lemma decode_encode [simp]: "scalar r \<Longrightarrow> fst (decode_rune (encode_rune r @ s)) = r"
  using decode_encode_scalar [of r s] by (simp add: encode_rune_scalar)

lemma adv_ascii [simp]: "byte_val c < 128 \<Longrightarrow> adv (c # s) = s"
  by (simp add: adv_def)

lemma byte_of_marks [simp]: "byte_of 92 = CHR 0x5C" "byte_of 34 = CHR 0x22"
proof -
  have "byte_of (byte_val (CHR 0x5C)) = CHR 0x5C" "byte_of (byte_val (CHR 0x22)) = CHR 0x22"
    by (rule char_of_char)+
  moreover have "byte_val (CHR 0x5C) = 92" "byte_val (CHR 0x22) = 34" by simp_all
  ultimately show "byte_of 92 = CHR 0x5C" "byte_of 34 = CHR 0x22" by (simp_all only:)
qed

lemma scanQuote_stop: "scanQuote qDouble (CHR 0x22 # t) had = (CHR 0x22 # t, had)"
  by (simp add: scanQuote.simps [of qDouble "CHR 0x22 # t"])

lemma scanQuote_other:
  "scalar r \<Longrightarrow> r \<noteq> slash \<Longrightarrow> r \<noteq> qDouble \<Longrightarrow>
    scanQuote qDouble (encode_rune r @ t) had = scanQuote qDouble t had"
  by (simp add: scanQuote.simps [of qDouble "encode_rune r @ t"])

lemma scanQuote_slash:
  "byte_val c < 128 \<Longrightarrow> scanQuote qDouble (CHR 0x5C # c # t) had = scanQuote qDouble t True"
  by (simp add: scanQuote.simps [of qDouble "CHR 0x5C # c # t"])

lemma scanQuote_escaped:
  "list_all scalar rs \<Longrightarrow>
    scanQuote qDouble (encode_runes (escape_runes rs) @ CHR 0x22 # t) had
      = (CHR 0x22 # t, had \<or> needs_escape rs)"
proof (induction rs arbitrary: had)
  case (Cons r rs)
  then show ?case
    by (auto simp: scanQuote_slash scanQuote_other needs_escape_def)
qed (simp add: scanQuote_stop needs_escape_def)

lemma upto_rest_append [simp]: "upto_rest (a @ b) b = a"
  by (simp add: upto_rest_def)

text \<open>A quoted argument read back.\<close>

lemma quoted_element:
  assumes "utf8_valid s"
  shows "\<exists>seg. chopElement child closer (quoted (MakeEscaped s) @ t) = Ret ([seg], t, None) \<and> Raw seg = s"
proof -
  define rs where "rs = runes s"
  have s: "s = encode_runes rs" "list_all scalar rs"
    using utf8_valid_runes [OF assms] by (simp_all add: rs_def)
  define E where "E = encode_runes (escape_runes rs)"
  have e: "MakeEscaped s = E" using s by (simp add: E_def escaped_encode)
  have q: "scanQuote qDouble (E @ CHR 0x22 # t) False = (CHR 0x22 # t, needs_escape rs)"
    using scanQuote_escaped [OF s(2), of t False] by (simp add: E_def)
  have "chopElement child closer (quoted (MakeEscaped s) @ t)
      = Ret ([RuneArray E qDouble (needs_escape rs)], t, None)"
    using q by (simp add: chopElement_def quoted_def e)
  moreover have "Raw (RuneArray E qDouble (needs_escape rs)) = s"
  proof (cases "needs_escape rs")
    case True
    then show ?thesis
      using unescape_escape [OF assms] e by (simp add: runeArrayRaw_def)
  next
    case False
    then show ?thesis
      using s by (simp add: runeArrayRaw_def E_def escape_none)
  qed
  ultimately show ?thesis by blast
qed

text \<open>An unquoted argument: printable ASCII without delimiters, brackets or leading quotes.\<close>

definition plain_byte :: "char \<Rightarrow> bool" where
  "plain_byte c \<longleftrightarrow> 32 < byte_val c \<and> byte_val c < 128 \<and> byte_val c \<notin> {58, 44, 93}"

definition plain_start :: "char \<Rightarrow> bool" where
  "plain_start c \<longleftrightarrow> plain_byte c \<and> byte_val c \<notin> {34, 36, 39, 61, 91, 123}"

lemma scanPlain_word:
  "list_all plain_byte s \<Longrightarrow> byte_val d \<in> {44, 93} \<Longrightarrow>
    \<exists>h. scanPlain 93 (s @ d # t) had = (d # t, h)"
proof (induction s arbitrary: had)
  case Nil
  then show ?case by (auto simp: scanPlain.simps [of 93 "d # t"] Let_def)
next
  case (Cons c s)
  then show ?case
    by (auto simp: scanPlain.simps [of 93 "c # s @ d # t"] plain_byte_def Let_def)
qed

lemma plain_element:
  assumes "s \<noteq> []" "plain_start (hd s)" "list_all plain_byte s" "byte_val d \<in> {44, 93}"
  shows "\<exists>seg. chopElement child 93 (s @ d # t) = Ret ([seg], d # t, None) \<and> Raw seg = s"
proof -
  obtain c r where s: "s = c # r" using assms(1) by (cases s) auto
  obtain h where h: "scanPlain 93 (s @ d # t) False = (d # t, h)"
    using scanPlain_word [OF assms(3,4)] by blast
  define r0 where "r0 = fst (decode_rune (s @ d # t))"
  have r0: "r0 \<noteq> 34" "r0 \<noteq> 36" "r0 \<noteq> 39" "r0 \<noteq> 61" "r0 \<noteq> 91" "r0 \<noteq> 123"
    using assms(2) by (simp_all add: r0_def s plain_start_def plain_byte_def)
  have "chopElement child 93 (s @ d # t) = Ret ([RuneArray s 0 h], d # t, None)"
    using r0 h by (simp add: chopElement_def Let_def r0_def [symmetric])
  then show ?thesis by (auto simp: runeArrayRaw_def)
qed

section \<open>A printed list read back\<close>

definition arg_ok :: "bytes \<Rightarrow> bool" where
  "arg_ok a \<longleftrightarrow> a \<noteq> [] \<and> hd a \<noteq> CHR 0x00 \<and>
     (let (isascii, hasdelimeters) = IsASCII a in
      if isascii then hasdelimeters \<or> plain_start (hd a) \<and> list_all plain_byte a
      else utf8_valid a)"

definition tail_ok :: "string \<Rightarrow> bool" where
  "tail_ok t \<longleftrightarrow> t \<noteq> [] \<and> byte_val (hd t) \<in> {44, 93}"

lemma IsASCII_ascii: "fst (IsASCII a) \<Longrightarrow> ascii a"
  by (auto simp: IsASCII_def ascii_def list_all_iff split: prod.splits)

lemma arg_read:
  assumes "arg_ok a" "tail_ok t"
  shows "\<exists>u seg. argToJSON a = CHR '','' # u \<and> byte_val (hd u) \<noteq> 32 \<and> byte_val (hd u) \<noteq> 93
     \<and> byte_val (hd u) < 128 \<and> u \<noteq> []
     \<and> chopElement child 93 (u @ t) = Ret ([seg], t, None) \<and> Raw seg = a"
proof -
  obtain isa hasd where i: "IsASCII a = (isa, hasd)" by fastforce
  obtain d t' where t: "t = d # t'" using assms(2) by (cases t) (simp_all add: tail_ok_def)
  show ?thesis
  proof (cases "isa \<and> \<not> hasd")
    case True
    then have p: "plain_start (hd a)" "list_all plain_byte a" "a \<noteq> []"
      using assms(1) i by (simp_all add: arg_ok_def)
    have "argToJSON a = CHR '','' # a"
      using True assms(1) i by (simp add: argToJSON_def arg_ok_def)
    moreover have "\<exists>seg. chopElement child 93 (a @ t) = Ret ([seg], t, None) \<and> Raw seg = a"
      using plain_element [OF p(3,1,2), of d child t'] assms(2) by (simp add: t tail_ok_def)
    ultimately show ?thesis
      using p by (auto simp: plain_start_def plain_byte_def)
  next
    case False
    have v: "utf8_valid a"
      using False assms(1) i IsASCII_ascii [of a] utf8_valid_ascii [of a]
      by (auto simp: arg_ok_def split: if_splits)
    have "argToJSON a = CHR '','' # quoted (MakeEscaped a)"
      using False assms(1) i v by (auto simp: argToJSON_def arg_ok_def)
    then show ?thesis
      using quoted_element [OF v, of child 93 t] by (auto simp: quoted_def)
  qed
qed

lemma passDelimiters_comma:
  assumes "u \<noteq> []" "byte_val (hd u) < 128" "byte_val (hd u) \<noteq> 32"
  shows "passDelimiters (CHR '','' # u @ t) = u @ t"
proof -
  obtain c r where u: "u = c # r" using assms(1) by (cases u) auto
  show ?thesis
    using assms by (simp add: passDelimiters_def Let_def skipWhile_here u)
qed

lemma passDelimiters_none:
  assumes "byte_val c < 128" "byte_val c \<notin> {32, 44, 58}"
  shows "passDelimiters (c # t) = c # t"
  using assms by (simp add: passDelimiters_def Let_def skipWhile_here)

lemma args_tail_ok: "tail_ok (concat (map argToJSON args) @ '']'')"
  by (cases args) (auto simp: tail_ok_def argToJSON_def Let_def quoted_def split: prod.splits)

lemma args_read:
  "list_all arg_ok args \<Longrightarrow>
    \<exists>segs. chopLoop child 93 (concat (map argToJSON args) @ '']'') front = Ret (front @ segs, '']'', None)
      \<and> map Raw segs = args"
proof (induction args arbitrary: front)
  case Nil
  show ?case
    by (simp add: chopLoop.simps [of child 93 "'']''"] passDelimiters_none)
next
  case (Cons a args)
  define t where "t = concat (map argToJSON args) @ '']''"
  obtain u seg where u: "argToJSON a = CHR '','' # u" "byte_val (hd u) \<noteq> 32" "byte_val (hd u) \<noteq> 93"
      "byte_val (hd u) < 128" "u \<noteq> []" "chopElement child 93 (u @ t) = Ret ([seg], t, None)" "Raw seg = a"
    using arg_read [of a t child] Cons.prems args_tail_ok [of args] by (auto simp: t_def)
  have "fst (decode_rune (u @ t)) = byte_val (hd u)"
    using u(4,5) by (cases u) simp_all
  then have "chopLoop child 93 (CHR '','' # u @ t) front = chopLoop child 93 t (front @ [seg])"
    using u by (simp add: chopLoop.simps [of child 93 "CHR '','' # u @ t"] passDelimiters_comma Let_def)
  moreover obtain segs where "chopLoop child 93 t (front @ [seg]) = Ret ((front @ [seg]) @ segs, '']'', None)"
      "map Raw segs = args"
    using Cons.IH [of "front @ [seg]"] Cons.prems by (auto simp: t_def)
  ultimately show ?case
    using u(1,7) by (intro exI [of _ "seg # segs"]) (simp add: t_def)
qed

text \<open>The whole text of a wire packet: a plain command letter and arguments that print losslessly.\<close>

definition text_ok :: "Universal \<Rightarrow> bool" where
  "text_ok u \<longleftrightarrow> plain_start (uCmd u) \<and> list_all arg_ok (uArgs u)
     \<and> length (UniversalToJSON u) \<le> 16 * 1024"

lemma chop_Suc:
  "length t \<le> 16 * 1024 \<Longrightarrow> left = Suc n \<Longrightarrow>
    chop left closer t = bind_out (chopLoop (\<lambda>c s. chop n c s) closer t []) (\<lambda>(segs, rest, err).
      Ret (segs, length t - length rest, err))"
  by (simp add: chop.simps [of "Suc n"])

lemma rune_error_91: "91 \<noteq> rune_error"
  by (simp add: rune_error_def)

lemma chop_bracketed:
  assumes "text_ok u"
  shows "\<exists>segs. Chop (UniversalToJSON u) = Ret (segs, None) \<and> map Raw segs = [uCmd u] # uArgs u"
proof -
  define c where "c = uCmd u"
  define t where "t = concat (map argToJSON (uArgs u)) @ '']''"
  have c: "plain_start c" "byte_val c < 128" using assms by (simp_all add: text_ok_def c_def plain_start_def plain_byte_def)
  have j: "UniversalToJSON u = CHR ''['' # c # t"
    using c by (simp add: UniversalToJSON_def c_def [symmetric] t_def)
  have len: "length t + 2 \<le> 16 * 1024" using assms by (simp add: text_ok_def j)
  obtain d t' where t': "t = d # t'" "byte_val d \<in> {44, 93}"
    using args_tail_ok [of "uArgs u"] by (cases t) (auto simp: t_def tail_ok_def)
  define child where "child = (\<lambda>c s. chop 15 c s)"
  obtain seg0 where s0: "chopElement child 93 ([c] @ t) = Ret ([seg0], t, None)" "Raw seg0 = [c]"
    using plain_element [of "[c]" d child t'] c t' by (auto simp: plain_start_def)
  obtain segs where s: "chopLoop child 93 t [seg0] = Ret ([seg0] @ segs, '']'', None)" "map Raw segs = uArgs u"
    using args_read [of "uArgs u" child "[seg0]"] assms by (auto simp: text_ok_def t_def)
  have "passDelimiters (c # t) = c # t"
    using c by (intro passDelimiters_none) (auto simp: plain_start_def plain_byte_def)
  then have "chopLoop child 93 (c # t) [] = Ret (seg0 # segs, '']'', None)"
    using s0 s c by (simp add: chopLoop.simps [of child 93 "c # t"] plain_start_def plain_byte_def)
  then have inner: "chop 16 93 (c # t) = Ret (seg0 # segs, length t, None)"
    using len by (subst chop_Suc [of _ _ 15]) (simp_all add: child_def)
  have "chopElement (\<lambda>c s. chop 16 c s) rune_error (CHR ''['' # c # t) = Ret ([Parent (seg0 # segs) True], [], None)"
    using inner c by (simp add: chopElement_def Let_def)
  moreover have "passDelimiters (CHR ''['' # c # t) = CHR ''['' # c # t"
    by (intro passDelimiters_none) simp_all
  moreover have "chopLoop ch cl [] f = Ret (f, [], None)" for ch cl f
    by (simp add: chopLoop.simps [of ch cl "[]"] passDelimiters_def skipWhile.simps)
  ultimately have "chopLoop (\<lambda>c s. chop 16 c s) rune_error (CHR ''['' # c # t) []
      = Ret ([Parent (seg0 # segs) True], [], None)"
    using rune_error_91 by (simp add: chopLoop.simps [of "\<lambda>c s. chop 16 c s" rune_error "CHR ''['' # c # t"])
  then have "chop 17 rune_error (UniversalToJSON u) = Ret ([Parent (seg0 # segs) True], length t + 2, None)"
    using len by (subst chop_Suc [of _ _ 16]) (simp_all add: j)
  then have "Chop (UniversalToJSON u) = Ret (seg0 # segs, None)"
    by (simp add: Chop_def AsParent_def)
  then show ?thesis using s0 s by (auto simp: c_def)
qed

section \<open>A printed packet read back\<close>

lemma unpackLoop_pad:
  "even (i + length args) \<Longrightarrow> unpackLoop i key (args @ replicate n []) opts = unpackLoop i key args opts"
proof (induction i key args opts rule: unpackLoop.induct)
  case (1 i key opts)
  then show ?case by (cases n) (simp_all add: unpack_empties)
qed auto

lemma unpack_pad: "even (length args) \<Longrightarrow> unpackOptions (args @ replicate n []) [] = unpackOptions args []"
  by (simp add: unpackOptions_def unpackLoop_pad)

lemma pack_even: "even (length (packOptions opts []))"
  by (induction opts) (auto simp: packOptions_eq)

lemma fill_pad:
  "fillBody (\<lparr>uCmd = uCmd (toUniversal p), uArgs = uArgs (toUniversal p) @ replicate n []\<rparr>)
    = fillBody (toUniversal p)"
  by (cases p)
     (simp_all add: fill_defs pack_tail [of _ "_ # _"] unpack_pad pack_even)

lemma textArgs_short:
  "length args \<le> 11 \<Longrightarrow> map Raw segs = args \<Longrightarrow> textArgs segs = args @ replicate (64 - length args) []"
  by (simp add: textArgs_def Let_def)

lemma text_packet:
  assumes "packet_wf (body p)" "text_ok (toUniversal (body p))" "length (uArgs (toUniversal (body p))) \<le> 11"
  shows "Text2Packet (packetString p) = Ret (Inr \<lparr>body = body p, backingUniversal = None\<rparr>)"
proof -
  define u where "u = toUniversal (body p)"
  have str: "packetString p = UniversalToJSON u"
    by (simp add: packetString_def ToJSON_def packetWrite_def Let_def u_def)
  obtain segs where c: "Chop (UniversalToJSON u) = Ret (segs, None)" "map Raw segs = [uCmd u] # uArgs u"
    using chop_bracketed [OF assms(2)] unfolding u_def by (elim exE conjE)
  obtain s0 segs' where s: "segs = s0 # segs'" "Raw s0 = [uCmd u]" "map Raw segs' = uArgs u"
    using c(2) by (cases segs) auto
  have "textArgs segs' = uArgs u @ replicate (64 - length (uArgs u)) []"
    using assms(3) s(3) by (intro textArgs_short) (simp_all add: u_def)
  then have "FillPacket \<lparr>uCmd = uCmd u, uArgs = textArgs segs'\<rparr>
      = Inr \<lparr>body = body p, backingUniversal = None\<rparr>"
    using fill_pad [of "body p"] fill_toUniversal [OF assms(1)] by (simp add: FillPacket_def u_def)
  then show ?thesis
    using c(1) s by (simp add: Text2Packet_def str)
qed

end
