(* ===== verification/Codec.thy ===== *)
theory Codec
  imports PacketText Hashes
begin

text \<open>
  What the encodings promise: packets, their variable-length integers and argument arrays survive
  the wire; reading is bounded; the text form reads back; the spellings of an address name one
  topic; and the texts that stop a server.
\<close>

section \<open>The binary protocol\<close>

definition sampleSend :: pkt where
  "sampleSend = \<lparr>body = Send (FromString ''topic'') (FromString ''me'') ''hello'' [(''nonc'', ''1'')], backingUniversal = None\<rparr>"

lemma sampleSend_wf: "packet_wf (body sampleSend)"
  by (simp add: sampleSend_def addr_wf_def FromString_def FromBytes_def opts_wf_def om_ok_def)

lemma sampleSend_args:
  "uArgs (toUniversal (body sampleSend)) = [''topic'', ''me'', ''hello'', ''nonc'', ''1'']"
  by (simp add: sampleSend_def packOptions_eq ToBytes_def FromString_def FromBytes_def)

text \<open>C25: A packet that is written is read back as it was, whatever follows it in the stream: for
  addresses in one of their wire forms and options with non-empty keys, fewer than 128 arguments and
  fewer than 8,000,000 bytes.\<close>

theorem packets_survive_the_wire:
  assumes "packet_wf (body p)" "backingUniversal p = None"
    and "length (uArgs (toUniversal (body p))) < 128"
    and "sum_list (map length (uArgs (toUniversal (body p)))) < 8000000"
  shows "\<exists>bs. snd (packetWrite p) = (bs, None) \<and> (\<forall>rest. ReadPacket (bs @ rest) = Inr (p, rest))"
proof -
  have fit: "args_fit (uArgs (toUniversal (body p)))" using assms(3,4) by (simp add: args_fit_def)
  then obtain w where "snd (packetWrite p) = (w, None)"
    using universal_write_fit [of "toUniversal (body p)"] assms(2) by (auto simp: packetWrite_def Let_def)
  then show ?thesis using read_packet_write [OF assms(1,2) fit] by simp
qed

theorem packets_survive_the_wire_witness:
  "\<exists>bs. ReadPacket (bs @ ''more'') = Inr (sampleSend, ''more'')"
proof -
  have "backingUniversal sampleSend = None" by (simp add: sampleSend_def)
  then show ?thesis
    using packets_survive_the_wire [OF sampleSend_wf] by (auto simp: sampleSend_args)
qed

text \<open>C26: Reading a packet is bounded and makes progress: whatever bytes arrive, what is accepted has
  fewer than 128 arguments of together fewer than 8,000,000 bytes, each length prefix is below
  \<open>2^28\<close>, and at least one byte is used up, so a loop of reads ends with the input.\<close>

theorem reading_is_bounded:
  "(ReadUniversal bs = Inr (u, r) \<longrightarrow>
      length (uArgs u) < 128 \<and> sum_list (map length (uArgs u)) < 8000000 \<and> length r < length bs)
   \<and> (ReadVarLenInt bs = Inr (v, r) \<longrightarrow> v < 2 ^ 28)
   \<and> (ReadPacket bs = Inr (p, r) \<longrightarrow> length r < length bs)"
  using read_universal_consumes [of bs u r] read_varlen_bound [of bs v r] read_packet_consumes [of bs p r]
  by (simp add: args_fit_def)

lemma varlen_unfolded: "ReadVarLenInt r = varLenLoop (Suc (Suc (Suc (Suc 0)))) 0 r"
  by (simp add: ReadVarLenInt_def eval_nat_numeral)

theorem reading_is_bounded_witness:
  "ReadUniversal [CHR ''H'', CHR 0x00, CHR ''c''] = Inr (\<lparr>uCmd = CHR ''H'', uArgs = []\<rparr>, ''c'')
    \<and> length ''c'' < length [CHR ''H'', CHR 0x00, CHR ''c'']
    \<and> ReadVarLenInt (map byte_of [129, 0]) = Inr (128, []) \<and> (128::nat) < 2 ^ 28
    \<and> ReadPacket [CHR ''H'', CHR 0x00, CHR ''c''] = Inr (\<lparr>body = Ping [], backingUniversal = None\<rparr>, ''c'')"
proof -
  have a: "ReadUniversal [CHR ''H'', CHR 0x00, CHR ''c''] = Inr (\<lparr>uCmd = CHR ''H'', uArgs = []\<rparr>, ''c'')"
    by (simp add: ReadUniversal_def ReadArrayOfByteArray_def readFull_def)
  then have c: "ReadPacket [CHR ''H'', CHR 0x00, CHR ''c''] = Inr (\<lparr>body = Ping [], backingUniversal = None\<rparr>, ''c'')"
    by (simp add: ReadPacket_def FillPacket_def fill_defs unpackOptions_def)
  have b: "ReadVarLenInt (map byte_of [129, 0]) = Inr (128, [])"
    by (simp add: varlen_unfolded)
  show ?thesis
    using a b c reading_is_bounded [of "[CHR ''H'', CHR 0x00, CHR ''c'']"] reading_is_bounded [of "map byte_of [129, 0]"]
    by metis
qed

text \<open>A length below \<open>2^28\<close> is read back from its variable-length form, whatever follows; \<open>2^28\<close>
  itself is not: it takes five bytes and is read as another number.\<close>

theorem lengths_survive_the_wire:
  "(unat v < 2 ^ 28 \<longrightarrow> ReadVarLenInt (WriteVarLenInt v 0 @ r) = Inr (unat v, r))
   \<and> ReadVarLenInt (WriteVarLenInt 0x10000000 0 @ r) \<noteq> Inr (2 ^ 28, r)"
  using read_write_varlen [of v r] read_varlen_bound [of "WriteVarLenInt 0x10000000 0 @ r" "2 ^ 28" r] by auto

theorem lengths_survive_the_wire_witness:
  "ReadVarLenInt (WriteVarLenInt 300 0 @ ''x'') = Inr (300, ''x'')"
  using lengths_survive_the_wire [of 300 "''x''"] by simp

section \<open>The text protocol\<close>

text \<open>C28: A packet printed for the text protocol is read back as it was: for packets whose arguments print
  losslessly (\<open>arg_ok\<close>), at most eleven of them and in at most 16 KiB of text.\<close>

theorem packets_survive_the_text:
  assumes "packet_wf (body p)" "plain_start (uCmd (toUniversal (body p)))"
    and "\<forall>a \<in> set (uArgs (toUniversal (body p))). arg_ok a"
    and "length (packetString p) \<le> 16 * 1024" "length (uArgs (toUniversal (body p))) \<le> 11"
  shows "Text2Packet (packetString p) = Ret (Inr \<lparr>body = body p, backingUniversal = None\<rparr>)"
proof -
  have "packetString p = UniversalToJSON (toUniversal (body p))"
    by (simp add: packetString_def ToJSON_def packetWrite_def Let_def)
  then have "text_ok (toUniversal (body p))"
    using assms(2-4) by (simp add: text_ok_def list_all_iff)
  then show ?thesis by (rule text_packet [OF assms(1) _ assms(5)])
qed

lemma sampleSend_arg:
  "list_all (\<lambda>a. argToJSON a = CHR '','' # a \<and> arg_ok a) [''topic'', ''me'', ''hello'', ''nonc'', ''1'']"
  by (simp add: argToJSON_def arg_ok_def IsASCII_def plain_start_def plain_byte_def)

lemma sampleSend_text: "packetString sampleSend = ''[P,topic,me,hello,nonc,1]''"
  using sampleSend_arg sampleSend_args char_of_char [of "CHR ''P''"]
  by (simp add: packetString_def ToJSON_def packetWrite_def Let_def UniversalToJSON_def)
     (simp add: sampleSend_def)

theorem packets_survive_the_text_witness:
  "Text2Packet ''[P,topic,me,hello,nonc,1]'' = Ret (Inr sampleSend)"
proof -
  have "plain_start (uCmd (toUniversal (body sampleSend)))"
    by (simp add: sampleSend_def plain_start_def plain_byte_def)
  then show ?thesis
    using packets_survive_the_text [OF sampleSend_wf] sampleSend_arg
    by (simp add: sampleSend_text sampleSend_args) (simp add: sampleSend_def)
qed

text \<open>C29: Text that is valid UTF-8 never stops the server: parsing it returns a packet or an error.\<close>

theorem valid_text_is_parsed:
  assumes "utf8_valid text"
  shows "\<exists>result. Text2Packet text = Ret result"
proof -
  obtain segs err where "Chop text = Ret (segs, err)" using chop_valid [OF assms] by fastforce
  then show ?thesis by (auto simp: Text2Packet_def Let_def split: option.split sum.split)
qed

theorem valid_text_is_parsed_witness:
  "utf8_valid ''[P,,'' \<and> (\<exists>result. Text2Packet ''[P,,'' = Ret result)"
proof -
  have u: "utf8_valid ''[P,,''" by (intro utf8_valid_ascii) code_simp
  then show ?thesis using valid_text_is_parsed by blast
qed

text \<open>One byte that is no UTF-8 after a dollar or equals sign at the start of an argument panics: the
  decoder yields U+FFFD, which indexes past the 256 entries of the table. Any client of the text
  protocol can send it.\<close>

theorem invalid_byte_panics:
  assumes "tag = CHR ''$'' \<or> tag = CHR ''=''" "decode_rune (bad # rest) = (rune_error, 1)" "length rest < 16000"
  shows "Text2Packet (tag # bad # rest) = Panic"
proof -
  have len: "length (tag # bad # rest) \<le> 16 * 1024" using assms(3) by simp
  have tag: "byte_val tag < 128" "byte_val tag \<in> {36, 61}" using assms(1) by auto
  have ne: "byte_val tag \<noteq> rune_error" using tag by (auto simp: rune_error_def)
  have tb: "\<not> rune_error < length B64DecodeMap" "\<not> rune_error < length HexMap"
    by (simp_all add: rune_error_def)
  have "scanTable tab (bad # rest) = Panic" if "\<not> rune_error < length tab" for tab
    using that assms(2) by (simp add: scanTable.simps [of tab "bad # rest"])
  then have el: "chopElement child rune_error (tag # bad # rest) = Panic" for child
    using tag tb by (auto simp: chopElement_def Let_def)
  have "passDelimiters (tag # bad # rest) = tag # bad # rest"
    using tag by (intro passDelimiters_none) auto
  then have "chopLoop child rune_error (tag # bad # rest) [] = Panic" for child
    using el tag ne by (auto simp: chopLoop.simps [of child rune_error "tag # bad # rest"])
  then have "chop 17 rune_error (tag # bad # rest) = Panic"
    using len by (subst chop_Suc [of _ _ 16]) simp_all
  then show ?thesis by (simp add: Text2Packet_def Chop_def)
qed

theorem invalid_byte_panics_witness: "Text2Packet (CHR ''$'' # byte_of 255 # []) = Panic"
proof (rule invalid_byte_panics)
  show "decode_rune (byte_of 255 # []) = (rune_error, 1)" by simp
qed simp_all

section \<open>Addresses and hashes\<close>

text \<open>The binary, the hexadecimal and the base64 spelling of a 24-byte key are the same topic, and
  making an address binary is idempotent and always leaves such a key, whatever the address was.\<close>

theorem spellings_of_a_key:
  "EnsureAddressIsBinary (EnsureAddressIsBinary a) = EnsureAddressIsBinary a
   \<and> addrType (EnsureAddressIsBinary a) = BinaryAddress \<and> length (addrBytes (EnsureAddressIsBinary a)) = 24
   \<and> (length key = 24 \<longrightarrow>
        EnsureAddressIsBinary (FromBytes (BinaryAddress # key)) = \<lparr>addrType = BinaryAddress, addrBytes = key\<rparr>
      \<and> EnsureAddressIsBinary (FromBytes (CHR ''$'' # hex_encode key)) = \<lparr>addrType = BinaryAddress, addrBytes = key\<rparr>
      \<and> EnsureAddressIsBinary (FromBytes (CHR ''='' # b64_encode key)) = \<lparr>addrType = BinaryAddress, addrBytes = key\<rparr>)"
  using ensure_key_id [OF ensure_is_key [of a]] ensure_is_key [of a] binary_spelled_key [of key]
    hexkey.spelled_key [of key] b64key.spelled_key [of key]
  by (simp add: is_key_def HashTypeLen_def)

theorem spellings_of_a_key_witness:
  "EnsureAddressIsBinary (FromBytes (CHR ''$'' # hex_encode (replicate 24 (CHR ''k''))))
    = EnsureAddressIsBinary (FromBytes (CHR ''='' # b64_encode (replicate 24 (CHR ''k''))))"
  using spellings_of_a_key [of undefined "replicate 24 (CHR ''k'')"] by simp

text \<open>A topic's hash survives its base64 form, the key of the database, so distinct topics have
  distinct keys; and for fewer than 64 bits a hash selects one of \<open>2^n\<close> buckets.\<close>

theorem hashes_survive_base64:
  "FromBase64 old (ToBase64 h) = Some h \<and> (ToBase64 h = ToBase64 h' \<longleftrightarrow> h = h')
   \<and> length (ToBase64 h) = 32 \<and> (n < 64 \<longrightarrow> GetFractionalBits h n < 2 ^ n)"
proof -
  have "ToBase64 h = ToBase64 h' \<longleftrightarrow> h = h'" using base64_hash by (metis option.inject)
  then show ?thesis
    using fractional_bits_less [of n h]
    by (simp add: base64_hash) (simp add: ToBase64_def getBytes_full b64_encode_length3 HashTypeLen_def)
qed

theorem hashes_survive_base64_witness: "GetFractionalBits (Hash 5 6 7) 6 < 2 ^ 6"
  using hashes_survive_base64 [of "Hash 0 0 0" "Hash 5 6 7" "Hash 0 0 0" 6] by simp

end
