(* ===== verification/History.thy ===== *)
theory History
  imports Billing
begin

text \<open>
  What the ring of an accumulator stands for: the list of its used buckets, the newest first, at most
  four of them. \<open>addSpec\<close> and \<open>meanSpec\<close> are \<open>AddUsage\<close> and \<open>GetStats\<close> on that list; the lemmas show
  that the ring with its cursor implements them.
\<close>

section \<open>The abstract history\<close>

definition history :: "BillingAccumulator \<Rightarrow> StatsWithTime list" where
  "history ba = takeWhile Used (map (ago ba) [0..<4])"

definition addSpec :: "StatsWithTime list \<Rightarrow> KnotFreeContactStats \<Rightarrow> u32 \<Rightarrow> int \<Rightarrow> StatsWithTime list" where
  "addSpec bs s now deltat =
     (let bs1 = (case bs of
                   [] \<Rightarrow> [\<lparr>stats = add_stats zero_stats s, Start = now - of_int deltat, Used = True\<rparr>]
                 | c # cs \<Rightarrow> c\<lparr>stats := add_stats (stats c) s\<rparr> # cs);
          t = Start (hd bs1) + 600
      in if t < now then take 4 (\<lparr>stats = zero_stats, Start = t, Used = True\<rparr> # bs1) else bs1)"

text \<open>The seconds between the starts of the buckets, and from the newest start to now.\<close>

fun spanOf :: "u32 \<Rightarrow> StatsWithTime list \<Rightarrow> int" where
  "spanOf now [] = 0"
| "spanOf now (c # cs) = uint (now - Start c) + spanOf (Start c) cs"

definition meanSpec :: "StatsWithTime list \<Rightarrow> u32 \<Rightarrow> KnotFreeContactStats" where
  "meanSpec bs now =
     (let d = foldl add_stats zero_stats (map stats bs); t = f_int (spanOf now bs) in
      if spanOf now bs = 0 then d
      else \<lparr>Input = per_second (Input d) t, Output = per_second (Output d) t,
            Subscriptions = per_second (Subscriptions d) t, Connections = per_second (Connections d) t\<rparr>)"

text \<open>A sequence of calls of \<open>AddUsage\<close>.\<close>

fun addUsages :: "BillingAccumulator \<Rightarrow> (KnotFreeContactStats \<times> u32 \<times> int) list \<Rightarrow>
    BillingAccumulator outcome" where
  "addUsages ba [] = Ret ba"
| "addUsages ba ((s, now, d) # us) = bind_out (AddUsage ba s now d) (\<lambda>b. addUsages b us)"

fun specUsages :: "StatsWithTime list \<Rightarrow> (KnotFreeContactStats \<times> u32 \<times> int) list \<Rightarrow> StatsWithTime list" where
  "specUsages bs [] = bs"
| "specUsages bs ((s, now, d) # us) = specUsages (addSpec bs s now d) us"

section \<open>The ring implements it\<close>

definition used_prefix :: "BillingAccumulator \<Rightarrow> nat \<Rightarrow> bool" where
  "used_prefix ba n \<longleftrightarrow> ring_ok ba \<and> n \<le> 4 \<and> (\<forall>j<4. Used (ago ba j) \<longleftrightarrow> j < n)
     \<and> (n = 0 \<longrightarrow> stats (ago ba 0) = zero_stats)"

lemma used_prefixD:
  assumes "used_prefix ba n"
  shows "ring_ok ba" "n \<le> 4" "j < 4 \<Longrightarrow> Used (ago ba j) \<longleftrightarrow> j < n"
    "n = 0 \<Longrightarrow> stats (ago ba 0) = zero_stats"
  using assms by (simp_all add: used_prefix_def)

lemma used_new: "used_prefix (newAccumulator mx nm) 0"
  by (simp add: used_prefix_def zero_bucket_def)

lemma history_map:
  assumes "used_prefix ba n"
  shows "history ba = map (ago ba) [0..<n]"
proof -
  note u = used_prefixD [OF assms]
  have "[0..<4] = [0..<n] @ [n..<4]"
    using u(2) upt_add_eq_append [of 0 n "4 - n"] by simp
  moreover have "takeWhile Used (map (ago ba) [n..<4]) = []"
    using u(3) [of n] by (cases "n < 4") (simp_all add: upt_rec [of n 4])
  moreover have "\<forall>c \<in> set (map (ago ba) [0..<n]). Used c"
    using u(2,3) by auto
  ultimately show ?thesis
    unfolding history_def by (metis append_Nil2 map_append takeWhile_append2)
qed

lemma map_upt_Suc: "map f [0..<Suc n] = f 0 # map (\<lambda>j. f (Suc j)) [0..<n]"
  by (simp add: upt_conv_Cons map_Suc_upt [symmetric] del: upt_Suc)

lemma used_roll:
  assumes "used_prefix ba n" "0 < n"
  shows "used_prefix (rollForward ba) (min 4 (Suc n))"
    and "history (rollForward ba)
      = take 4 (\<lparr>stats = zero_stats, Start = Start (ago ba 0) + 600, Used = True\<rparr> # history ba)"
proof -
  note u = used_prefixD [OF assms(1)]
  have used: "Used (ago (rollForward ba) j) \<longleftrightarrow> j < min 4 (Suc n)" if "j < 4" for j
  proof (cases j)
    case (Suc k)
    then show ?thesis using roll_back(2) [OF u(1), of k] u(3) [of k] that by simp
  qed (simp add: roll_back(1) [OF u(1)])
  then show p: "used_prefix (rollForward ba) (min 4 (Suc n))"
    using rollForward_ok [OF u(1)] by (simp add: used_prefix_def)
  obtain m where m: "min 4 (Suc n) = Suc m" "m \<le> 3" "m \<le> n" "m = min 3 n"
    by (cases "min 4 (Suc n)") auto
  have "history (rollForward ba) = ago (rollForward ba) 0 # map (\<lambda>j. ago (rollForward ba) (Suc j)) [0..<m]"
    by (simp only: history_map [OF p] m(1) map_upt_Suc)
  also have "map (\<lambda>j. ago (rollForward ba) (Suc j)) [0..<m] = map (ago ba) [0..<m]"
    using m(2) by (intro map_cong) (simp_all add: roll_back(2) [OF u(1)])
  also have "\<dots> = take 3 (map (ago ba) [0..<n])"
    using m(4) by (cases "3 \<le> n") (simp_all add: take_map take_upt min_def)
  finally show "history (rollForward ba)
      = take 4 (\<lparr>stats = zero_stats, Start = Start (ago ba 0) + 600, Used = True\<rparr> # history ba)"
    by (simp add: history_map [OF assms(1)] roll_back(1) [OF u(1)])
qed

lemma used_added:
  assumes "used_prefix ba n"
  shows "used_prefix (added ba s now d) (max 1 n)"
    and "history (added ba s now d) = (case history ba of
        [] \<Rightarrow> [\<lparr>stats = add_stats zero_stats s, Start = now - of_int d, Used = True\<rparr>]
      | c # cs \<Rightarrow> c\<lparr>stats := add_stats (stats c) s\<rparr> # cs)"
proof -
  note u = used_prefixD [OF assms]
  have p: "used_prefix (added ba s now d) (max 1 n)
    \<and> history (added ba s now d) = (case history ba of
        [] \<Rightarrow> [\<lparr>stats = add_stats zero_stats s, Start = now - of_int d, Used = True\<rparr>]
      | c # cs \<Rightarrow> c\<lparr>stats := add_stats (stats c) s\<rparr> # cs)"
  proof (cases n)
    case 0
    then have nu: "\<not> Used (ago ba 0)" using u(3) [of 0] by simp
    have us: "Used (ago (added ba s now d) j) \<longleftrightarrow> j < 1" if "j < 4" for j
      using that u(3) [of j] added_first(1) [OF u(1) nu, of s now d] added_first(2) [OF u(1) nu, of j s now d] 0
      by (cases "j = 0") simp_all
    then have q: "used_prefix (added ba s now d) (Suc 0)"
      using added_ok [OF u(1)] by (simp add: used_prefix_def)
    then show ?thesis
      using history_map [OF q] history_map [OF assms] added_first(1) [OF u(1) nu, of s now d] u(4) 0 by simp
  next
    case (Suc m)
    then have us: "Used (ago ba 0)" using u(3) [of 0] by simp
    note a0 = added_used_0 [OF u(1) us, of s now d]
    note aj = added_used_earlier [OF u(1) us, of _ s now d]
    have "Used (ago (added ba s now d) j) = Used (ago ba j)" if "j < 4" for j
      using that a0 aj [of j] by (cases "j = 0") simp_all
    then have q: "used_prefix (added ba s now d) (Suc m)"
      using added_ok [OF u(1)] u(2,3) Suc by (simp add: used_prefix_def)
    have "map (\<lambda>j. ago (added ba s now d) (Suc j)) [0..<m] = map (\<lambda>j. ago ba (Suc j)) [0..<m]"
      using u(2) Suc by (intro map_cong) (simp_all add: aj)
    then show ?thesis
      using q Suc by (simp only: history_map [OF q] history_map [OF assms] map_upt_Suc a0) simp
  qed
  from p show "used_prefix (added ba s now d) (max 1 n)" by simp
  from p show "history (added ba s now d) = (case history ba of
        [] \<Rightarrow> [\<lparr>stats = add_stats zero_stats s, Start = now - of_int d, Used = True\<rparr>]
      | c # cs \<Rightarrow> c\<lparr>stats := add_stats (stats c) s\<rparr> # cs)" by simp
qed

lemma addBody_history:
  assumes "used_prefix ba n"
  shows "\<exists>m. used_prefix (addBody ba s now d) m \<and> history (addBody ba s now d) = addSpec (history ba) s now d"
proof -
  note u = used_added [OF assms, of s now d]
  have pos: "0 < max 1 n" by simp
  have ne: "history (added ba s now d) = ago (added ba s now d) 0 # tl (history (added ba s now d))"
    using history_map [OF u(1)] by (simp add: upt_conv_Cons)
  have spec: "addSpec (history ba) s now d = (let h = history (added ba s now d); t = Start (hd h) + 600 in
      if t < now then take 4 (\<lparr>stats = zero_stats, Start = t, Used = True\<rparr> # h) else h)"
    by (simp add: addSpec_def u(2) Let_def)
  have hd0: "hd (history (added ba s now d)) = ago (added ba s now d) 0"
    using arg_cong [OF ne, of hd] by (simp only: list.sel)
  show ?thesis
    using used_roll [OF u(1) pos] u(1)
    by (auto simp: spec hd0 Let_def addBody_added [OF used_prefixD(1) [OF assms]])
qed

lemma addUsages_history:
  "used_prefix ba n \<Longrightarrow> addUsages ba us = Ret ba' \<Longrightarrow>
    (\<exists>m. used_prefix ba' m) \<and> history ba' = specUsages (history ba) us"
proof (induction us arbitrary: ba n)
  case (Cons u us)
  obtain s now d where u: "u = (s, now, d)" by (cases u) auto
  have a: "AddUsage ba s now d = Ret (addBody ba s now d)" "addUsages (addBody ba s now d) us = Ret ba'"
    using Cons.prems(2) by (auto simp: u bind_out_Ret AddUsage_def Let_def split: if_splits)
  obtain m where m: "used_prefix (addBody ba s now d) m"
      "history (addBody ba s now d) = addSpec (history ba) s now d"
    using addBody_history [OF Cons.prems(1)] by blast
  show ?case using Cons.IH [OF m(1) a(2)] m(2) by (simp add: u)
qed auto

section \<open>The averages\<close>

lemma spanOf_nonneg: "0 \<le> spanOf now bs"
  by (induction now bs rule: spanOf.induct) simp_all

lemma spanOf_bound: "spanOf now bs \<le> int (length bs) * 2 ^ 32"
proof (induction now bs rule: spanOf.induct)
  case (2 now c cs)
  then show ?case using uint_lt2p [of "now - Start c"] by (simp add: algebra_simps)
qed simp

lemma statsLoop_history:
  assumes u: "used_prefix ba n" and "k \<le> n" "0 \<le> tm" "tm + int (4 - k) * 2 ^ 32 < 2 ^ 53"
  shows "statsLoop ba k (4 - k) dest tn (f_int tm)
    = (foldl add_stats dest (map stats (map (ago ba) [k..<n])),
       f_int (tm + spanOf tn (map (ago ba) [k..<n])))"
  using assms(2-4)
proof (induction "n - k" arbitrary: k dest tn tm)
  case 0
  then show ?case
    using used_prefixD(1,2,3) [OF u] by (cases "k < 4") (simp_all add: statsLoop_step)
next
  case (Suc x)
  define b where "b = uint (tn - Start (ago ba k))"
  have k: "k < n" "k < 4" "Used (ago ba k)"
    using Suc used_prefixD(2) [OF u] used_prefixD(3) [OF u, of k] by simp_all
  have b: "0 \<le> b" "b < 2 ^ 32" using uint_lt2p [of "tn - Start (ago ba k)"] by (simp_all add: b_def)
  have e: "int (4 - k) = 1 + int (4 - Suc k)" using k by simp
  have fits: "tm + b + int (4 - Suc k) * 2 ^ 32 < 2 ^ 53"
    using Suc.prems(3) b by (simp add: e algebra_simps)
  have "0 \<le> int (4 - Suc k) * 2 ^ 32" by simp
  then have ex: "exact_int tm" "exact_int b"
    unfolding exact_int_def using fits b Suc.prems(2) by linarith+
  have "statsLoop ba k (4 - k) dest tn (f_int tm)
      = statsLoop ba (Suc k) (4 - Suc k) (add_stats dest (stats (ago ba k))) (Start (ago ba k)) (f_int (tm + b))"
    using k(3) by (simp add: statsLoop_step [OF used_prefixD(1) [OF u] k(2)] Let_def b_def [symmetric]
        fadd_int [OF ex])
  also have "\<dots> = (foldl add_stats (add_stats dest (stats (ago ba k))) (map stats (map (ago ba) [Suc k..<n])),
       f_int (tm + b + spanOf (Start (ago ba k)) (map (ago ba) [Suc k..<n])))"
    using Suc.hyps(2) Suc.prems k b fits by (intro Suc.hyps(1)) simp_all
  finally show ?case
    using k by (simp add: upt_conv_Cons b_def add.assoc)
qed

lemma GetStats_history:
  assumes "used_prefix ba n"
  shows "GetStats ba now zero_stats = meanSpec (history ba) now"
proof -
  have "spanOf now (map (ago ba) [0..<n]) \<le> int n * 2 ^ 32"
    using spanOf_bound [of now "map (ago ba) [0..<n]"] by simp
  also have "\<dots> \<le> 4 * 2 ^ 32" using used_prefixD(2) [OF assms] by simp
  finally have "exact_int (spanOf now (map (ago ba) [0..<n]))"
    using spanOf_nonneg [of now "map (ago ba) [0..<n]"] by (simp add: exact_int_def)
  then have z: "feq (f_int (spanOf now (map (ago ba) [0..<n]))) (f_int 0)
      \<longleftrightarrow> spanOf now (map (ago ba) [0..<n]) = 0"
    by (simp only: feq_int exact_int_0)
  have "statsLoop ba 0 (4 - 0) zero_stats now (f_int 0)
    = (foldl add_stats zero_stats (map stats (map (ago ba) [0..<n])),
       f_int (0 + spanOf now (map (ago ba) [0..<n])))"
    by (rule statsLoop_history [OF assms]) simp_all
  then show ?thesis
    using z by (simp add: GetStats_def meanSpec_def history_map [OF assms] lookback_def Let_def)
qed

end
