(* ===== verification/Accounts.thy ===== *)
theory Accounts
  imports History Cluster
begin

text \<open>
  Properties of the usage accounting: the ring of an accumulator implements a list of its last four
  buckets, the buckets follow each other in steps of ten minutes, and a usage report can block the
  loop of its bucket for good.
\<close>

section \<open>The accounting\<close>

definition sampleUsages :: "(KnotFreeContactStats \<times> u32 \<times> int) list" where
  "sampleUsages = [(zero_stats, 2000, 10), (zero_stats, 3000, 10)]"

lemma addUsages_sample:
  "\<exists>ba. addUsages (newAccumulator zero_stats []) sampleUsages = Ret ba"
proof -
  have m: "Max (newAccumulator zero_stats []) = zero_stats" by (simp add: newAccumulator_def)
  have "\<not> feq (Subscriptions zero_stats) (f_int 1)"
    using feq_int [of 0 1] by (simp add: zero_stats_def exact_int_def)
  then show ?thesis by (simp add: sampleUsages_def AddUsage_def Let_def m)
qed

text \<open>C30: The ring of four buckets with its cursor implements a list: after any sequence of calls of
  \<open>AddUsage\<close> that return, the used buckets are what the same calls make of the empty list with
  \<open>addSpec\<close> (add to the newest bucket, open one bucket at most, keep four), and \<open>GetStats\<close> is the
  average over that list.\<close>

theorem accounting_refines_history:
  assumes "addUsages (newAccumulator mx nm) us = Ret ba"
  shows "history ba = specUsages [] us \<and> GetStats ba now zero_stats = meanSpec (specUsages [] us) now"
proof -
  have "history (newAccumulator mx nm) = []"
    using history_map [OF used_new] by simp
  then obtain m where "used_prefix ba m" "history ba = specUsages [] us"
    using addUsages_history [OF used_new assms] by auto
  then show ?thesis using GetStats_history [of ba m now] by simp
qed

theorem accounting_refines_history_witness:
  "\<exists>ba. addUsages (newAccumulator zero_stats []) sampleUsages = Ret ba
    \<and> history ba = specUsages [] sampleUsages
    \<and> map Start (specUsages [] sampleUsages) = [2590, 1990]"
proof -
  obtain ba where r: "addUsages (newAccumulator zero_stats []) sampleUsages = Ret ba"
    using addUsages_sample by blast
  moreover have "map Start (specUsages [] sampleUsages) = [2590, 1990]"
    by (simp add: sampleUsages_def addSpec_def Let_def)
  ultimately show ?thesis using accounting_refines_history [OF r, of 0] by (intro exI [of _ ba]) simp
qed

section \<open>Time\<close>

text \<open>Calls whose clock does not run backwards and ends ten minutes before \<open>2^32\<close>.\<close>

fun timely :: "u32 \<Rightarrow> (KnotFreeContactStats \<times> u32 \<times> int) list \<Rightarrow> bool" where
  "timely t [] \<longleftrightarrow> True"
| "timely t ((s, now, d) # us) \<longleftrightarrow>
     t \<le> now \<and> 0 \<le> d \<and> d \<le> uint now \<and> unat now + 600 < 2 ^ 32 \<and> timely now us"

fun lastTime :: "u32 \<Rightarrow> (KnotFreeContactStats \<times> u32 \<times> int) list \<Rightarrow> u32" where
  "lastTime t [] = t"
| "lastTime t ((s, now, d) # us) = lastTime now us"

lemma addUsages_chain:
  "ring_chain ba n t \<Longrightarrow> timely t us \<Longrightarrow> addUsages ba us = Ret ba' \<Longrightarrow>
    \<exists>m. n \<le> m \<and> (us \<noteq> [] \<longrightarrow> 0 < m) \<and> ring_chain ba' m (lastTime t us)"
proof (induction us arbitrary: ba n t)
  case (Cons u us)
  obtain s now d where u: "u = (s, now, d)" by (cases u) auto
  have a: "addUsages (addBody ba s now d) us = Ret ba'"
    using Cons.prems(3) by (auto simp: u bind_out_Ret AddUsage_def Let_def split: if_splits)
  obtain m where m: "0 < m" "n \<le> m" "ring_chain (addBody ba s now d) m now"
    using chain_step [OF Cons.prems(1), of now d s] Cons.prems(2) by (auto simp: u)
  obtain k where "m \<le> k" "ring_chain ba' k (lastTime now us)"
    using Cons.IH [OF m(3) _ a] Cons.prems(2) by (auto simp: u)
  then show ?case using m(1,2) by (intro exI [of _ k]) (auto simp: u)
qed auto

lemma spanOf_telescope:
  "bs \<noteq> [] \<Longrightarrow> sorted_wrt (\<lambda>a b. Start b \<le> Start a) bs \<Longrightarrow> Start (hd bs) \<le> now \<Longrightarrow>
    spanOf now bs = uint now - uint (Start (last bs))"
proof (induction now bs rule: spanOf.induct)
  case (2 now c cs)
  have d: "uint (now - Start c) = uint now - uint (Start c)"
    using "2.prems"(3) by (simp add: uint_sub_lem [THEN iffD1] word_le_def)
  show ?case
    using 2 d by (cases cs) auto
qed simp

text \<open>While the clock runs forward, the used buckets start ten minutes apart, the newest not in the
  future, and \<open>GetStats\<close> divides by the time from the start of the oldest bucket to now. There are
  one to four of them after the first report.\<close>

theorem buckets_are_ten_minutes_apart:
  assumes "timely 0 us" "us \<noteq> []" "addUsages (newAccumulator mx nm) us = Ret ba" "lastTime 0 us \<le> now"
  defines "h \<equiv> history ba"
  shows "0 < length h \<and> length h \<le> 4
    \<and> (\<forall>j < length h. unat (Start (h ! j)) + 600 * j = unat (Start (h ! 0)))
    \<and> Start (h ! 0) \<le> now \<and> spanOf now h = uint now - uint (Start (last h))"
proof -
  obtain n where n: "0 < n" "ring_chain ba n (lastTime 0 us)"
    using addUsages_chain [OF chain_new assms(1,3)] assms(2) by auto
  note c = chainD [OF n(2)]
  have "used_prefix ba n" using c n(1) by (simp add: used_prefix_def)
  then have h: "h = map (ago ba) [0..<n]" by (simp add: h_def history_map)
  have starts: "unat (Start (ago ba j)) + 600 * j = unat (Start (ago ba 0))" if "j < n" for j
    using c(4) that .
  have newest: "Start (ago ba 0) \<le> now" using c(5) n(1) assms(4) by simp
  have "sorted_wrt (\<lambda>a b. Start b \<le> Start a) h"
  proof (rule sorted_wrt_iff_nth_less [THEN iffD2], intro allI impI)
    fix i j assume "i < j" "j < length h"
    then show "Start (h ! j) \<le> Start (h ! i)"
      using starts [of i] starts [of j] by (simp add: h word_le_nat_alt)
  qed
  moreover have "h \<noteq> []" using n(1) by (simp add: h)
  moreover have "hd h = ago ba 0" using n(1) by (simp add: h upt_conv_Cons)
  ultimately have "spanOf now h = uint now - uint (Start (last h))"
    using newest by (intro spanOf_telescope) simp_all
  then show ?thesis using n(1) c(2) starts newest by (simp add: h)
qed

theorem buckets_are_ten_minutes_apart_witness:
  "\<exists>ba. addUsages (newAccumulator zero_stats []) sampleUsages = Ret ba
    \<and> spanOf 3100 (history ba) = uint (3100 :: u32) - uint (Start (last (history ba)))"
proof -
  obtain ba where r: "addUsages (newAccumulator zero_stats []) sampleUsages = Ret ba"
    using addUsages_sample by blast
  have "timely 0 sampleUsages" "sampleUsages \<noteq> []" "lastTime 0 sampleUsages \<le> 3100"
    by (simp_all add: sampleUsages_def)
  then show ?thesis using r buckets_are_ten_minutes_apart [OF _ _ r, of 3100] by blast
qed

section \<open>Waiting for oneself\<close>

text \<open>C31: On an aide, a usage report that counts subscriptions blocks the loop of its bucket for good when
  the billing topic allows one subscription: \<open>AddUsage\<close> then reads the average back while it still
  holds the lock that \<open>GetSubscriptions\<close> takes.\<close>

theorem usage_report_blocks_bucket:
  assumes "i < length (allTheSubscriptions (nodeTable n))" "\<not> isGuru (nodeTable n)"
    "incoming (allTheSubscriptions (nodeTable n) ! i) = PublishMessage c h a src payload opts # rest"
    and "getWatcher (mySubscriptions (allTheSubscriptions (nodeTable n) ! i)) h = Some wt" "IsBilling wt = Some ba"
    and "GetOption opts ''add-stats'' = (val, True)" "parseStats e val = Some st"
    and "Subscriptions (Max ba) = f_int 1" "\<not> feq (Subscriptions st) f_zero"
  shows "processHead e sv i n = Hang"
proof -
  have "feq (f_int 1) (f_int 1)" by (simp add: feq_int exact_int_def)
  then have "AddUsage ba st (timeNow e) d = Hang" for d
    using assms(8,9) by (simp add: AddUsage_def Let_def)
  then have hang: "publishBilling me e a src payload opts ba = Hang" if "\<not> isGuru me" for me
    using assms(6,7) that by (auto simp: publishBilling_def Let_def split: prod.split)
  define me where "me = modifyBucket (nodeTable n) i (\<lambda>b. b\<lparr>incoming := rest\<rparr>)"
  have me: "\<not> isGuru me" "mySubscriptions (allTheSubscriptions me ! i)
      = mySubscriptions (allTheSubscriptions (nodeTable n) ! i)"
    using assms(1,2) by (simp_all add: me_def modifyBucket_def)
  have "processPublish me e c h a src payload opts (mySubscriptions (allTheSubscriptions me ! i)) = Hang"
    using assms(4,5) hang [OF me(1)] by (simp add: me(2) processPublish_def Let_def)
  then show ?thesis
    by (simp add: processHead_def assms(3) me_def [symmetric] Let_def withBilling_def)
qed

definition oneSubscription :: BillingAccumulator where
  "oneSubscription = newAccumulator (zero_stats\<lparr>Subscriptions := f_int 1\<rparr>) ''bill''"

definition reportedNode :: node where
  "reportedNode = newNode 10 ''aide0'' False (newAccumulator zero_stats [])
     \<lparr>nodeTable := modifyBucket (nodeTable (newNode 10 ''aide0'' False (newAccumulator zero_stats []))) 0
       (\<lambda>b. \<lparr>mySubscriptions = [(sampleHash, emptyTopic\<lparr>Name := sampleHash, Bill := Some oneSubscription\<rparr>)],
             incoming = [PublishMessage 7 sampleHash sampleAddress sampleAddress [] [(''add-stats'', [])]]\<rparr>)\<rparr>"

theorem usage_report_blocks_bucket_witness:
  "processHead (sampleEnv\<lparr>parseStats := \<lambda>b. Some (zero_stats\<lparr>Subscriptions := f_int 2\<rparr>)\<rparr>) sampleServices 0 reportedNode
    = Hang"
proof (rule usage_report_blocks_bucket)
  have nt: "nodeTable reportedNode = (NewLookupTable 10 ''aide0'' False (newAccumulator zero_stats []))
      \<lparr>allTheSubscriptions := [\<lparr>mySubscriptions = [(sampleHash, emptyTopic\<lparr>Name := sampleHash, Bill := Some oneSubscription\<rparr>)],
             incoming = [PublishMessage 7 sampleHash sampleAddress sampleAddress [] [(''add-stats'', [])]]\<rparr>,
          emptyBucket, emptyBucket, emptyBucket]\<rparr>"
    by (simp add: reportedNode_def newNode_def NewLookupTable_def modifyBucket_def Let_def numeral_eq_Suc)
  show "0 < length (allTheSubscriptions (nodeTable reportedNode))"
    "\<not> isGuru (nodeTable reportedNode)"
    by (simp_all add: nt NewLookupTable_def Let_def)
  show "incoming (allTheSubscriptions (nodeTable reportedNode) ! 0)
      = PublishMessage 7 sampleHash sampleAddress sampleAddress [] [(''add-stats'', [])] # []"
    by (simp add: nt)
  show "getWatcher (mySubscriptions (allTheSubscriptions (nodeTable reportedNode) ! 0)) sampleHash
      = Some (emptyTopic\<lparr>Name := sampleHash, Bill := Some oneSubscription\<rparr>)"
    by (simp add: nt getWatcher_def om_get_Cons)
  show "IsBilling (emptyTopic\<lparr>Name := sampleHash, Bill := Some oneSubscription\<rparr>) = Some oneSubscription"
    by (simp add: IsBilling_def)
  show "GetOption [(''add-stats'', [])] ''add-stats'' = ([], True)"
    by (simp add: GetOption_def om_get_Cons)
  show "parseStats (sampleEnv\<lparr>parseStats := \<lambda>b. Some (zero_stats\<lparr>Subscriptions := f_int 2\<rparr>)\<rparr>) []
      = Some (zero_stats\<lparr>Subscriptions := f_int 2\<rparr>)"
    by simp
  show "Subscriptions (Max oneSubscription) = f_int 1"
    by (simp add: oneSubscription_def newAccumulator_def)
  show "\<not> feq (Subscriptions (zero_stats\<lparr>Subscriptions := f_int 2\<rparr>)) f_zero"
    using feq_int [of 2 0] by (simp add: exact_int_def)
qed

end
