(* ===== verification/Keys.thy ===== *)
theory Keys
  imports Names
begin

text \<open>
  Properties of tokens and keys: what an accepted token proves, that the binary search of a key is the
  search of the first match, what loading keeps and loses, and the token that stops a guru.
\<close>

section \<open>Accepted tokens\<close>

lemma index_of_prefix: "index_of s p = Some i \<Longrightarrow> has_prefix (drop i s) p"
proof (induction s arbitrary: i)
  case Nil
  then show ?case by (auto simp: index_of.simps [of "[]"] split: if_splits)
next
  case (Cons c s)
  then show ?case by (auto simp: index_of.simps [of "c # s"] split: if_splits)
qed

lemma header_prefix:
  "findHeader token = Some (start, flen) \<Longrightarrow>
    (flen = length firstPart \<and> take flen (drop start token) = firstPart)
    \<or> (flen = length firstPart2 \<and> take flen (drop start token) = firstPart2)"
  by (auto simp: findHeader_def has_prefix_iff split: option.splits dest!: index_of_prefix)

lemma payload_shape:
  assumes "GetKnotFreePayload parse token = Inr (t, issuer)"
  shows "\<exists>before after. token = before @ t @ after
    \<and> (has_prefix t firstPart \<or> has_prefix t firstPart2)"
proof -
  obtain start flen where h: "findHeader token = Some (start, flen)"
    using assms by (auto simp: GetKnotFreePayload_def split: option.splits)
  then obtain index where i: "t = drop start (take (start + flen + index + 1) token)
      @ takeWhile b64_byte (drop (index + 1) (drop (start + flen) token))"
    using assms by (auto simp: GetKnotFreePayload_def Let_def simp del: drop_drop
        split: option.splits prod.splits if_splits)
  define e where "e = start + flen + index + 1"
  have e: "start + flen \<le> e" "t = drop start (take e token) @ takeWhile b64_byte (drop e token)"
    by (simp_all add: e_def i add_ac)
  have le: "start \<le> e" using e(1) by simp
  have "token = take e token @ drop e token" by simp
  also have "take e token = take start token @ drop start (take e token)"
    using le append_take_drop_id [of start "take e token"] by (simp add: min_absorb1)
  also have "drop e token = takeWhile b64_byte (drop e token) @ dropWhile b64_byte (drop e token)"
    by simp
  finally have split: "token = take start token @ t @ dropWhile b64_byte (drop e token)"
    by (simp only: e(2) append_assoc)
  have "take flen (drop start (take e token)) = take flen (drop start token)"
    using e(1) by (simp add: drop_take min_def)
  then have "has_prefix (drop start (take e token)) firstPart \<or> has_prefix (drop start (take e token)) firstPart2"
    using header_prefix [OF h] by (auto simp: has_prefix_iff)
  moreover have "has_prefix a p \<Longrightarrow> has_prefix (a @ b) p" for a b p
    by (induction a p rule: has_prefix.induct) auto
  ultimately show ?thesis using split e(2) by blast
qed

lemma findKey_result:
  assumes "findKey keys thekey = Ret pk" "pk \<noteq> []"
  shows "pk \<in> set keys \<and> (\<exists>prefix. b64_decode thekey = (prefix, True) \<and> prefix \<noteq> []
    \<and> length prefix < 32 \<and> has_prefix pk prefix)"
  using assms
  by (auto simp: findKey_def decodeKey_def bind_out_Ret Let_def Suc_le_eq split: if_splits prod.splits)

text \<open>C32: A token is accepted only if it is a part of the text, starts with one of the two headers and
  verifies under a key of 32 bytes that is in the list of loaded keys and starts with what the issuer
  of the token decodes to, at least one byte of it.\<close>

theorem accepted_tokens_are_signed:
  assumes "ValidateToken v keys text = Ret (ks, Inr payload)"
  shows "\<exists>before t after issuer pk prefix. text = before @ t @ after
    \<and> (has_prefix t firstPart \<or> has_prefix t firstPart2)
    \<and> GetKnotFreePayload (parseClaims v) text = Inr (t, issuer)
    \<and> b64_decode issuer = (prefix, True) \<and> prefix \<noteq> []
    \<and> pk \<in> set ks \<and> length pk = 32 \<and> has_prefix pk prefix \<and> jwtVerify v t pk = Some payload"
proof -
  obtain t issuer pk where a: "GetKnotFreePayload (parseClaims v) text = Inr (t, issuer)"
      "FindPublicKey (builtinKeys v) keys issuer = Ret (ks, pk)" "length pk = 32" "jwtVerify v t pk = Some payload"
    using validate_accepts [OF assms] by blast
  have "findKey ks issuer = Ret pk" using a(2) by (auto simp: FindPublicKey_def bind_out_Ret)
  moreover have "pk \<noteq> []" using a(3) by auto
  ultimately show ?thesis
    using findKey_result [of ks issuer pk] payload_shape [OF a(1)] a by blast
qed

definition sampleClaims :: "string \<Rightarrow> KnotFreeTokenPayload" where
  "sampleClaims issuer = \<lparr>ExpirationTime = 5000, Issuer = issuer, JWTID = ''id'', tokenStats = zero_stats,
     URL = [], Pubk = ''me''\<rparr>"

definition sampleToken :: string where
  "sampleToken = firstPart @ ''e30.''"

definition claimsVerifier :: "string \<Rightarrow> verifier" where
  "claimsVerifier issuer = \<lparr>parseClaims = (\<lambda>b. Some (sampleClaims issuer)),
     jwtVerify = (\<lambda>t pk. Some (sampleClaims issuer)), builtinKeys = []\<rparr>"

definition sampleKeys :: "string list" where
  "sampleKeys = [CHR ''A'' # replicate 31 (CHR ''A''), CHR ''B'' # replicate 31 (CHR ''B'')]"

lemma sample_payload:
  "GetKnotFreePayload (parseClaims (claimsVerifier issuer)) sampleToken = Inr (sampleToken, issuer)"
proof -
  have l: "length firstPart = 37" by (simp add: firstPart_def)
  then have h: "findHeader sampleToken = Some (0, 37)"
    by (simp add: findHeader_def sampleToken_def index_of.simps [of "firstPart @ _"])
  have i: "index_of ''e30.'' ''.'' = Some 3" by (simp add: index_of.simps)
  have c: "b64_decode ''e30'' = (''{}'', True)" by (simp add: b64_decode_def b64_value_def char_of_def bit_numeral_rec bit_0)
  have d: "drop 37 sampleToken = ''e30.''" "take 41 sampleToken = sampleToken"
    using l by (simp_all add: sampleToken_def)
  show ?thesis
    by (simp add: GetKnotFreePayload_def h l i c d Let_def claimsVerifier_def sampleClaims_def)
qed


lemma sample_b64: "b64_decode ''QkI'' = (''BB'', True)"
  by (simp add: b64_decode_def b64_value_def char_of_def bit_numeral_rec bit_0)

lemma replicate_31: "replicate 31 c = c # replicate 30 c"
  by (simp add: numeral_eq_Suc)


lemma sample_find: "findKey sampleKeys ''QkI'' = Ret (CHR ''B'' # replicate 31 (CHR ''B''))"
proof -
  have s: "sorted sampleKeys" by (simp add: sampleKeys_def)
  have "findKey sampleKeys ''QkI'' = Ret (firstWith sampleKeys ''BB'')"
    by (rule findKey_first [OF s _ sample_b64]) (auto simp: sampleKeys_def)
  then show ?thesis by (simp add: sampleKeys_def replicate_31 firstWith_def)
qed

theorem accepted_tokens_are_signed_witness:
  "ValidateToken (claimsVerifier ''QkI'') sampleKeys sampleToken = Ret (sampleKeys, Inr (sampleClaims ''QkI''))
    \<and> (\<exists>pk \<in> set sampleKeys. jwtVerify (claimsVerifier ''QkI'') sampleToken pk = Some (sampleClaims ''QkI''))"
proof -
  have r: "ValidateToken (claimsVerifier ''QkI'') sampleKeys sampleToken = Ret (sampleKeys, Inr (sampleClaims ''QkI''))"
    by (simp add: ValidateToken_def sample_payload FindPublicKey_def LoadPublicKeys_def sample_find)
      (simp add: sampleKeys_def claimsVerifier_def)
  show ?thesis
    using r accepted_tokens_are_signed [OF r] sample_payload [of "''QkI''"] by force
qed


section \<open>Loading keys\<close>

lemma load_loop_sizes:
  "loadLoop parts keys = Ret ks \<Longrightarrow> \<forall>k \<in> set keys. k = ''dummy'' \<or> 32 \<le> length k \<Longrightarrow>
    \<forall>k \<in> set ks. k = ''dummy'' \<or> 32 \<le> length k"
proof (induction parts arbitrary: keys)
  case (Cons s parts)
  show ?case
  proof (cases "length s < 4")
    case True
    then show ?thesis using Cons by simp
  next
    case False
    then obtain s' k1 where k1: "SavePublicKey keys (take 4 s') (fst (b64_decode s')) = Ret k1"
        "loadLoop parts k1 = Ret ks"
      using Cons.prems(1) by (auto simp: Let_def split: if_splits outcome.splits)
    have "\<forall>k \<in> set k1. k = ''dummy'' \<or> 32 \<le> length k"
      using save_cases [OF k1(1)] Cons.prems(2) by auto
    then show ?thesis by (rule Cons.IH [OF k1(2)])
  qed
qed simp

text \<open>Loading leaves the keys sorted, so that the bisection works, each of at least 32 bytes or the
  place holder \<open>''dummy''\<close>; but what it drops at the end is the least entry: as soon as one key sorts
  before the place holder that key is lost and the place holder stays.\<close>

theorem loading_drops_the_least_key:
  assumes "LoadPublicKeys text [] = Ret ks"
  shows "sorted ks \<and> (\<forall>k \<in> set ks. k = ''dummy'' \<or> 32 \<le> length k)
    \<and> (\<exists>least. (\<forall>k \<in> set ks. least \<le> k) \<and> (least = ''dummy'' \<or> ''dummy'' \<in> set ks))"
proof -
  obtain all where a: "loadLoop (split_on (CHR 0x0A) (trim_bytes (CHR '' '' # [CHR 0x0A]) text)) [''dummy''] = Ret all"
      "ks = tl all"
    using assms by (auto simp: LoadPublicKeys_def bind_out_Ret)
  have s: "sorted all" "mset [''dummy''] \<subseteq># mset all"
    using load_loop_keeps [OF a(1)] by simp_all
  have d: "''dummy'' \<in> set all"
    using s(2) by (metis mset_subset_eqD set_mset_mset list.set_intros(1))
  then obtain least rest where l: "all = least # rest" by (cases all) auto
  have "\<forall>k \<in> set all. k = ''dummy'' \<or> 32 \<le> length k"
    by (rule load_loop_sizes [OF a(1)]) simp
  then show ?thesis using s(1) d l a(2) by auto
qed

definition oneKey :: string where
  "oneKey = replicate 43 (CHR ''A'')"

lemma oneKey_list: "oneKey = ''AAAAAAAAAAAAAAAAAAAAAAAAAAAAAAAAAAAAAAAAAAA''"
  by (simp add: oneKey_def numeral_eq_Suc)

lemma replicate_32: "replicate 32 c =
    [c, c, c, c, c, c, c, c, c, c, c, c, c, c, c, c,
     c, c, c, c, c, c, c, c, c, c, c, c, c, c, c, c]"
  by (simp add: numeral_eq_Suc)

lemma oneKey_decoded: "b64_decode oneKey = (replicate 32 (CHR 0x00), True)"
proof -
  have "b64_value (CHR ''A'') = Some 0" "byte_of 0 = CHR 0x00"
    by (simp_all add: b64_value_def char_of_def)
  then show ?thesis by (simp add: oneKey_list replicate_32 b64_decode_def)
qed

lemma front_decoded: "b64_decode ''AAAA'' = ([CHR 0x00, CHR 0x00, CHR 0x00], True)"
  by (simp add: b64_decode_def b64_value_def char_of_def)

lemma sample_load: "LoadPublicKeys oneKey [] = Ret [''dummy'']"
proof -
  have t: "trim_bytes (CHR '' '' # [CHR 0x0A]) oneKey = oneKey" "split_on (CHR 0x0A) oneKey = [oneKey]"
    "std_to_url oneKey = oneKey" "take 4 oneKey = ''AAAA''" "length oneKey = 43"
    by (simp_all add: oneKey_list trim_bytes_def std_to_url_def replace_byte_def)
  have f: "findKey [''dummy''] ''AAAA'' = Ret []"
    by (simp add: findKey_def decodeKey_def front_decoded sortSearch.simps keyAtLeast_def)
  have n: "replicate 32 (CHR 0x00) \<noteq> []" "has_prefix (replicate 32 (CHR 0x00)) [CHR 0x00, CHR 0x00, CHR 0x00]"
    "replicate 32 (CHR 0x00) < ''dummy''"
    by (simp_all add: replicate_32)
  have u: "std_to_url ''AAAA'' = ''AAAA''" by (simp add: std_to_url_def replace_byte_def)
  have "SavePublicKey [''dummy''] ''AAAA'' (replicate 32 (CHR 0x00)) = Ret [replicate 32 (CHR 0x00), ''dummy'']"
    using n(1,2) n(3) [unfolded not_le [symmetric]] by (simp add: SavePublicKey_def u f decodeKey_def front_decoded)
  then show ?thesis
    by (simp add: LoadPublicKeys_def t oneKey_decoded)
qed

theorem loading_drops_the_least_key_witness:
  "LoadPublicKeys oneKey [] = Ret [''dummy''] \<and> b64_decode oneKey = (replicate 32 (CHR 0x00), True)
    \<and> sorted [''dummy'']"
  using loading_drops_the_least_key [OF sample_load] sample_load oneKey_decoded by blast

section \<open>The token that stops a guru\<close>

text \<open>A command \<open>reserve\<close> whose token names an issuer that decodes to more than 43 bytes panics the
  guru: the name of the key is decoded into a buffer of 43 bytes before the token is verified, so the
  token needs no valid signature.\<close>

theorem long_issuer_panics:
  assumes "isGuru me" "authentic sv req" "lookupCommand sv req = (''reserve'', name # token # rest)"
    and "GetKnotFreePayload (parseClaims (verification sv)) token = Inr (t, issuer)" "publicKeys sv \<noteq> []"
    and "43 < length (fst (b64_decode issuer))"
  shows "processLookup me e sv req s = Panic"
proof -
  have "ValidateToken (verification sv) (publicKeys sv) token = Panic"
    using validate_panics [OF assms(4-6)] .
  then show ?thesis
    using assms(1-3) by (simp add: processLookup_guru executeCommand_def createNameFunc_def)
qed

definition longIssuer :: string where
  "longIssuer = b64_encode (replicate 45 (CHR ''x''))"

definition keyedServices :: services where
  "keyedServices = okServices\<lparr>verification := claimsVerifier longIssuer, publicKeys := sampleKeys\<rparr>"

theorem long_issuer_panics_witness:
  "processLookup sampleGuru sampleEnv keyedServices (sealedRequest (''reserve n '' @ sampleToken)) [] = Panic"
proof -
  define cmd where "cmd = ''reserve n '' @ sampleToken"
  have c: "cmd = ''reserve n eyJhbGciOiJFZERTQSIsInR5cCI6IkpXVCJ9.e30.''"
    by (simp add: cmd_def sampleToken_def firstPart_def)
  have t: "TrimSpace cmd = cmd"
    unfolding c by (rule trim_plain) (simp_all add: plain_char_def)
  have o: "GetOption (lookOptions (sealedRequest cmd)) ''cmd'' = (cmd, True)"
    "GetOption (lookOptions (sealedRequest cmd)) ''sealed'' = (cmd @ ''#1000'', True)"
    "GetOption (lookOptions (sealedRequest cmd)) ''nonc'' = (''1'', True)"
    "GetOption (lookOptions (sealedRequest cmd)) ''pubk'' = (''me'', True)"
    by (simp_all add: sealedRequest_def GetOption_def om_get_Cons)
  have n: "parse_int 64 ''1000'' = Some 1000" "timeIsNear 1000 1000" "snd (b64_decode ''me'')"
    by code_simp+
  have b: "boxOpen keyedServices sealed x y = Some sealed" "wallSeconds keyedServices = 1000" for sealed x y
    by (simp_all add: keyedServices_def okServices_def sampleServices_def)
  have h: "split_on (CHR ''#'') (cmd @ ''#1000'') = [cmd, ''1000'']"
    unfolding c by simp
  have "authentic keyedServices (sealedRequest cmd)"
    unfolding authentic_def decryptCommand_def o fst_conv t
    using n by (auto simp: b h split: prod.split)
  moreover have "findCommand keyedServices cmd = (''reserve'', [''n'', sampleToken])"
  proof -
    have p: "split_on (CHR '' '') cmd = [''reserve'', ''n'', sampleToken]"
      unfolding c by (simp add: sampleToken_def firstPart_def)
    have l: "to_lower u ''reserve n'' = ''reserve n''" "to_lower u ''reserve'' = ''reserve''" for u
      by (simp_all add: to_lower_def ascii_def lower_byte_def)
    show ?thesis by (simp add: findCommand_def p l commandTable_def)
  qed
  then have "lookupCommand keyedServices (sealedRequest cmd) = (''reserve'', [''n'', sampleToken])"
    by (simp add: lookupCommand_def o t)
  moreover have "GetKnotFreePayload (parseClaims (verification keyedServices)) sampleToken = Inr (sampleToken, longIssuer)"
    by (simp add: keyedServices_def sample_payload)
  moreover have "publicKeys keyedServices \<noteq> []" by (simp add: keyedServices_def sampleKeys_def)
  moreover have "43 < length (fst (b64_decode longIssuer))"
    by (simp add: longIssuer_def b64_decode_encode)
  ultimately show ?thesis
    unfolding cmd_def [symmetric] by (rule long_issuer_panics [OF sampleGuru_guru])
qed

section \<open>Private keys\<close>

text \<open>What the table of private keys looks like: every key of 64 bytes is filed under the start of its
  public half, and every listed prefix has its key.\<close>

definition keys_ok :: "privateKeys \<Rightarrow> bool" where
  "keys_ok ks \<longleftrightarrow>
     (\<forall>p k. knownPrivateKeys ks p = Some k \<longrightarrow> length k = 64 \<and> p = take 4 (b64_encode (drop 32 k)))
     \<and> (\<forall>p \<in> set (knownPrivateKeyPrefixes ks). knownPrivateKeys ks p \<noteq> None \<and> length p = 4)"

definition noKeys :: privateKeys where
  "noKeys = \<lparr>knownPrivateKeys = (\<lambda>p. None), knownPrivateKeyPrefixes = [], keysLoaded = False\<rparr>"

lemma addPrivateKey_ok: "keys_ok ks \<Longrightarrow> keys_ok (addPrivateKey part ks)"
proof -
  assume ok: "keys_ok ks"
  obtain bs ok' where d: "b64_decode (std_to_url part) = (bs, ok')" by fastforce
  show ?thesis
  proof (cases "ok' \<and> length bs = 64")
    case True
    then have "4 \<le> length (b64_encode (drop 32 bs))"
      using b64_decode_length [of "b64_encode (drop 32 bs)"] by (simp add: b64_decode_encode)
    then show ?thesis
      using ok True by (auto simp: keys_ok_def addPrivateKey_def d Let_def)
  next
    case False
    then show ?thesis using ok by (auto simp: addPrivateKey_def d)
  qed
qed

lemma noKeys_ok: "keys_ok noKeys"
  by (simp add: keys_ok_def noKeys_def)

lemma load_private_ok: "keys_ok (LoadPrivateKeys file noKeys)"
proof -
  have "keys_ok (fold addPrivateKey parts ks)" if "keys_ok ks" for parts ks
    using that by (induction parts arbitrary: ks) (simp_all add: addPrivateKey_ok)
  then show ?thesis
    using noKeys_ok by (simp add: LoadPrivateKeys_def split: option.split)
qed

text \<open>After loading a file of signing keys every listed prefix leads to a key: of 64 bytes, the last
  32 of which start, in base64, with that prefix; lines that are no such key are passed over, and
  asking for a key beyond the list panics.\<close>

theorem loaded_private_keys_are_found:
  assumes "ks = LoadPrivateKeys file noKeys"
  shows "(n < length (knownPrivateKeyPrefixes ks) \<longrightarrow>
      (\<exists>k. GetPrivateKeyWhole ks n = Ret k \<and> length k = 64
        \<and> take 4 (b64_encode (drop 32 k)) = knownPrivateKeyPrefixes ks ! n))
    \<and> (length (knownPrivateKeyPrefixes ks) \<le> n \<longrightarrow> GetPrivateKeyWhole ks n = Panic)"
proof -
  have ok: "keys_ok ks" using load_private_ok assms by simp
  have "\<exists>k. GetPrivateKeyWhole ks n = Ret k \<and> length k = 64
      \<and> take 4 (b64_encode (drop 32 k)) = knownPrivateKeyPrefixes ks ! n"
    if "n < length (knownPrivateKeyPrefixes ks)"
  proof -
    define p where "p = knownPrivateKeyPrefixes ks ! n"
    have "p \<in> set (knownPrivateKeyPrefixes ks)" using that by (simp add: p_def)
    then obtain k where k: "knownPrivateKeys ks p = Some k" "length p = 4" "length k = 64"
        "p = take 4 (b64_encode (drop 32 k))"
      using ok unfolding keys_ok_def by blast
    moreover have "GetPrivateKeyPrefix ks n = Ret p"
      using that k(2) by (simp add: GetPrivateKeyPrefix_def p_def [symmetric])
    ultimately show ?thesis
      by (intro exI [of _ k]) (simp add: GetPrivateKeyWhole_def GetPrivateKeyMatching_def p_def [symmetric])
  qed
  then show ?thesis
    by (simp add: GetPrivateKeyWhole_def GetPrivateKeyPrefix_def)
qed

definition onePrivate :: string where
  "onePrivate = ''AAAAAAAAAAAAAAAAAAAAAAAAAAAAAAAAAAAAAAAAAAAAAAAAAAAAAAAAAAAAAAAAAAAAAAAAAAAAAAAAAAAAAA''"

lemma replicate_64: "replicate 64 c =
    [c, c, c, c, c, c, c, c, c, c, c, c, c, c, c, c,
     c, c, c, c, c, c, c, c, c, c, c, c, c, c, c, c,
     c, c, c, c, c, c, c, c, c, c, c, c, c, c, c, c,
     c, c, c, c, c, c, c, c, c, c, c, c, c, c, c, c]"
  by (simp add: numeral_eq_Suc)

lemma onePrivate_decoded: "b64_decode onePrivate = (replicate 64 (CHR 0x00), True)"
proof -
  have "b64_value (CHR ''A'') = Some 0" "byte_of 0 = CHR 0x00"
    by (simp_all add: b64_value_def char_of_def)
  then show ?thesis by (simp add: onePrivate_def replicate_64 b64_decode_def)
qed

lemma onePrivate_loaded: "knownPrivateKeyPrefixes (LoadPrivateKeys (Some onePrivate) noKeys) = [''AAAA'']"
proof -
  have t: "trim_bytes [CHR 0x0A] onePrivate = onePrivate" "split_on (CHR 0x0A) onePrivate = [onePrivate]"
    "std_to_url onePrivate = onePrivate"
    by (simp_all add: onePrivate_def trim_bytes_def std_to_url_def replace_byte_def)
  have "take 4 (b64_encode (replicate 32 (CHR 0x00))) = ''AAAA''"
    by (simp add: replicate_32 b64_digit_def b64_alphabet_def)
  then show ?thesis
    by (simp add: LoadPrivateKeys_def noKeys_def t addPrivateKey_def onePrivate_decoded Let_def)
qed

theorem loaded_private_keys_are_found_witness:
  "\<exists>k. GetPrivateKeyWhole (LoadPrivateKeys (Some onePrivate) noKeys) 0 = Ret k \<and> length k = 64
    \<and> take 4 (b64_encode (drop 32 k)) = ''AAAA''"
  using loaded_private_keys_are_found [OF refl, of 0 "Some onePrivate"] by (simp add: onePrivate_loaded)

end
