(* ===== verification/Contacts.thy ===== *)
theory Contacts
  imports LookMsg
begin

text \<open>
  Contacts (\<open>iot/contacts.go\<close>): the session a client has with a node. A contact runs the functions that
  other goroutines put into its channel \<open>commands\<close>, one after the other; the callers wait for the result.
  \<open>waiting\<close> is the number of commands that are in the channel while the command at hand runs. What a
  contact does to the outside is the list of \<open>sessionEffect\<close>s: packets it writes, and goroutines it
  starts. A \<open>SetExpires\<close> that a command queues is done right after that command.
\<close>

section \<open>Configuration and contacts\<close>

record contactConfig =
  listOfCi :: "HalfHash list"
  configKey :: HashType
  sequence :: u64

record session =
  sessionKey :: HalfHash
  sessionToken :: "KnotFreeTokenPayload option"
  contactExpires :: u32
  conNextBilling :: u32
  conLastBilling :: u32
  conInput :: u64
  conOutput :: u64
  isClosedNow :: bool
  hasReader :: bool
  hasWriter :: bool

datatype sessionEffect =
    WriteDown packet
  | GoDisconnect string
  | GoPushUp packet
  | CloseAfter string

record sessionEnv =
  seEnv :: env
  seServices :: services
  seErrText :: "token_error \<Rightarrow> string"

definition NewContactStructConfig :: "HashType \<Rightarrow> contactConfig" where
  "NewContactStructConfig randomKey = \<lparr>listOfCi = [], configKey = randomKey, sequence = 1\<rparr>"

definition AddContactStruct :: "HalfHash \<Rightarrow> u32 \<Rightarrow> contactConfig \<Rightarrow> session \<times> contactConfig" where
  "AddContactStruct key0 now config =
     (let fresh = (key0 = 0);
          key = (if fresh then sequence config + GetUint64 (configKey config) else key0)
      in (\<lparr>sessionKey = key, sessionToken = None, contactExpires = 20 * 60 + now, conNextBilling = now + 30,
           conLastBilling = now, conInput = 0, conOutput = 0, isClosedNow = False,
           hasReader = False, hasWriter = False\<rparr>,
          config\<lparr>sequence := (if fresh then sequence config + 1 else sequence config),
                 listOfCi := listOfCi config @ [key]\<rparr>))"

definition commandCapacity :: "bool \<Rightarrow> nat" where
  "commandCapacity guru = (if guru then 1024 else 16)"

definition GetSequence :: "contactConfig \<Rightarrow> session \<Rightarrow> u64" where
  "GetSequence config ss = (sessionKey ss - GetUint64 (configKey config)) div 13"

definition configLen :: "contactConfig \<Rightarrow> nat" where
  "configLen config = length (listOfCi config)"

section \<open>Commands\<close>

text \<open>A command is passed over once the contact is closed, and then nobody wakes its caller.\<close>

definition callCommand :: "session \<Rightarrow> (session \<Rightarrow> 'a outcome) \<Rightarrow> 'a outcome" where
  "callCommand ss fn = (if isClosedNow ss then Hang else fn ss)"

definition setExpires :: "u32 \<Rightarrow> session \<Rightarrow> session" where
  "setExpires t ss = (if contactExpires ss < t then ss\<lparr>contactExpires := t\<rparr> else ss)"

definition GetExpires :: "session \<Rightarrow> u32 outcome" where
  "GetExpires ss = callCommand ss (\<lambda>ss. Ret (contactExpires ss))"

text \<open>\<open>DoClose\<close> with the work it does once: the channel is closed, the contact leaves the list.\<close>

definition DoClose :: "session \<Rightarrow> contactConfig \<Rightarrow> session \<times> contactConfig" where
  "DoClose ss config =
     (if isClosedNow ss then (ss, config)
      else (ss\<lparr>isClosedNow := True\<rparr>, config\<lparr>listOfCi := remove1 (sessionKey ss) (listOfCi config)\<rparr>))"

definition conSetToken :: "KnotFreeTokenPayload \<Rightarrow> session \<Rightarrow> session" where
  "conSetToken t ss = ss\<lparr>sessionToken := Some (t\<lparr>URL := [], Issuer := []\<rparr>)\<rparr>"

section \<open>The token\<close>

definition billingSubscribe :: "sessionEnv \<Rightarrow> KnotFreeTokenPayload \<Rightarrow> packet" where
  "billingSubscribe se payload =
     Subscribe (FromString (JWTID payload))
       (SetOption ''noack'' ''1'' (SetOption ''statsmax'' (showStats (seEnv se) (tokenStats payload)) []))"

text \<open>\<open>expectToken\<close>: the contact, what it starts, and the error it returns. The payload is shared
  with the contact, so the subscription that is added for billing counts in its token, too.\<close>

definition expectToken :: "sessionEnv \<Rightarrow> session \<Rightarrow> packet \<Rightarrow>
    (session \<times> sessionEffect list \<times> string option) outcome" where
  "expectToken se ss p =
     (let fail = (\<lambda>str. Ret (ss, [GoDisconnect str], Some str)) in
      if sessionToken ss \<noteq> None then Ret (ss, [], None)
      else if \<not> is_Connect p then fail ''expected Connect packet''
      else case GetOption (packetOptions p) ''token'' of (b64Token, ok) \<Rightarrow>
        if \<not> ok then fail ''expected token''
        else (case GetKnotFreePayload (parseClaims (verification (seServices se))) b64Token of
          Inl e \<Rightarrow> fail (seErrText se e)
        | Inr (trimmedToken, issuer) \<Rightarrow>
            bind_out (FindPublicKey (builtinKeys (verification (seServices se))) (publicKeys (seServices se)) issuer)
              (\<lambda>(keys, publicKeyBytes).
              if length publicKeyBytes \<noteq> 32 then fail (''token bad issuer '' @ issuer)
              else case jwtVerify (verification (seServices se)) trimmedToken publicKeyBytes of
                None \<Rightarrow> fail ''token not verified''
              | Some foundPayload \<Rightarrow>
                  if ExpirationTime foundPayload < timeNow (seEnv se) then fail ''token expired''
                  else
                    let st = tokenStats foundPayload;
                        counted = foundPayload\<lparr>tokenStats :=
                          st\<lparr>Subscriptions := fadd (Subscriptions st) (f_int 1)\<rparr>\<rparr>
                    in Ret (conSetToken counted ss, [GoPushUp (billingSubscribe se counted)], None))))"

section \<open>Packets from below\<close>

text \<open>The command of \<open>PushPacketUpFromBottom2\<close>. The error of \<open>expectToken\<close> goes into a variable of
  the inner scope: the caller does not see it.\<close>

definition pushCommand :: "sessionEnv \<Rightarrow> bool \<Rightarrow> nat \<Rightarrow> packet \<Rightarrow> bool \<Rightarrow> session \<Rightarrow>
    (session \<times> sessionEffect list) outcome" where
  "pushCommand se guru waiting p doSetExpires ss =
     (if doSetExpires \<and> commandCapacity guru \<le> waiting then Hang
      else bind_out (expectToken se ss p) (\<lambda>(ss', effs, err).
        Ret (if doSetExpires then setExpires (20 * 60 + timeNow (seEnv se)) ss' else ss', effs)))"

definition withSend :: "session \<times> sessionEffect list \<Rightarrow> looker \<times> unit outcome \<Rightarrow>
    (session \<times> looker \<times> sessionEffect list) outcome" where
  "withSend r sent =
     (case (r, sent) of
        ((ss, effs), (me, Ret u)) \<Rightarrow> Ret (ss, me, effs)
      | (_, (me, Panic)) \<Rightarrow> Panic
      | (_, (me, Hang)) \<Rightarrow> Hang)"

definition subscribeOptions :: "looker \<Rightarrow> session \<Rightarrow> options \<Rightarrow> options" where
  "subscribeOptions me ss opts =
     (if \<not> snd (GetOption opts ''statsmax'') \<and> \<not> isGuru me
      then (case sessionToken ss of Some tok \<Rightarrow> SetOption ''jwtid'' (JWTID tok) opts | None \<Rightarrow> opts)
      else opts)"

fun dispatchUp :: "looker \<Rightarrow> packet \<Rightarrow> session \<times> sessionEffect list \<Rightarrow>
    (session \<times> looker \<times> sessionEffect list) outcome" where
  "dispatchUp me (Connect opts) (ss, effs) = Ret (ss, me, effs)"
| "dispatchUp me (Disconnect opts) (ss, effs) =
     Ret (ss, me, effs @ [WriteDown (Disconnect opts), CloseAfter ''closing on disconnect''])"
| "dispatchUp me (Subscribe a opts) (ss, effs) =
     withSend (ss, effs)
       (sendSubscriptionMessage me (sessionKey ss) (EnsureAddressIsBinary a) (subscribeOptions me ss opts))"
| "dispatchUp me (Unsubscribe a opts) (ss, effs) =
     withSend (ss, effs) (sendUnsubscribeMessage me (sessionKey ss) (EnsureAddressIsBinary a) opts)"
| "dispatchUp me (Lookup a s opts) (ss, effs) =
     withSend (ss, effs) (sendLookupMessage me (sessionKey ss) (EnsureAddressIsBinary a) s opts)"
| "dispatchUp me (Send a s payload opts) (ss, effs) =
     withSend (ss, effs) (sendPublishMessage me (sessionKey ss) (EnsureAddressIsBinary a) s payload opts)"
| "dispatchUp me (Ping opts) (ss, effs) = Ret (ss, me, effs @ [WriteDown (Ping opts)])"

definition PushPacketUpFromBottom2 :: "sessionEnv \<Rightarrow> nat \<Rightarrow> looker \<Rightarrow> session \<Rightarrow> packet \<Rightarrow> bool \<Rightarrow>
    (session \<times> looker \<times> sessionEffect list) outcome" where
  "PushPacketUpFromBottom2 se waiting me ss p doSetExpires =
     bind_out (callCommand ss (pushCommand se (isGuru me) waiting p doSetExpires)) (dispatchUp me p)"

definition PushPacketUpFromBottom :: "sessionEnv \<Rightarrow> nat \<Rightarrow> looker \<Rightarrow> session \<Rightarrow> packet \<Rightarrow>
    (session \<times> looker \<times> sessionEffect list) outcome" where
  "PushPacketUpFromBottom se waiting me ss p = PushPacketUpFromBottom2 se waiting me ss p True"

section \<open>Packets from above\<close>

fun PushDownFromTop :: "looker \<Rightarrow> packet \<Rightarrow> looker \<times> unit outcome" where
  "PushDownFromTop me (Subscribe a opts) = sendSubscriptionMessageDown me (EnsureAddressIsBinary a) opts"
| "PushDownFromTop me (Send a s payload opts) =
     sendPublishMessageDown me (EnsureAddressIsBinary a) s payload opts"
| "PushDownFromTop me p = (me, Ret ())"

text \<open>What a plain contact writes: the bytes of the packet, by a goroutine, unless it is closed.\<close>

definition conWriteDownstream :: "session \<Rightarrow> packet \<Rightarrow> sessionEffect list \<times> string option" where
  "conWriteDownstream ss p =
     (if isClosedNow ss then ([], Some ''closed contact'') else ([WriteDown p], None))"

section \<open>Counting bytes\<close>

text \<open>The counters after a read or a write of \<open>n\<close> bytes.\<close>

definition conRead :: "nat \<Rightarrow> session \<Rightarrow> session outcome" where
  "conRead n ss = (if \<not> hasReader ss then Panic else Ret (ss\<lparr>conInput := conInput ss + of_nat n\<rparr>))"

definition conWrite :: "nat \<Rightarrow> session \<Rightarrow> session \<times> string option" where
  "conWrite n ss =
     (if \<not> hasWriter ss then (ss, Some ''ss.realWriter == nil'')
      else (ss\<lparr>conOutput := conOutput ss + of_nat n\<rparr>, None))"

definition conReadByte :: "nat \<Rightarrow> session \<Rightarrow> session outcome" where
  "conReadByte n ss =
     bind_out (conRead n ss) (\<lambda>ss. Ret (ss\<lparr>conOutput := conOutput ss + of_nat n\<rparr>))"

definition conWriteByte :: "nat \<Rightarrow> session \<Rightarrow> session outcome" where
  "conWriteByte n ss = (if \<not> hasWriter ss then Panic else Ret (fst (conWrite n ss)))"

definition IncOutput :: "int \<Rightarrow> session \<Rightarrow> session" where
  "IncOutput amt ss = ss\<lparr>conOutput := conOutput ss + word_of_int amt\<rparr>"

text \<open>The counters are stored to where they are meant to be loaded, from variables that are zero.\<close>

definition GetRates :: "u32 \<Rightarrow> session \<Rightarrow> (session \<times> int \<times> int \<times> int) outcome" where
  "GetRates now ss = callCommand ss (\<lambda>ss.
     let dt = now - conLastBilling ss;
         dt' = (if 4 * 300 < dt then 0 else dt)
     in Ret (ss\<lparr>conInput := 0, conOutput := 0\<rparr>, 0, 0, uint dt'))"

text \<open>The report of a contact: the statistics for the node, the packet for the billing topic. The
  \<open>deltaTime\<close> of the command is another variable than the one the report uses, which stays 0.\<close>

definition billingCommand :: "session \<Rightarrow> session \<times> KnotFreeContactStats" where
  "billingCommand ss =
     (let deltaTime = conNextBilling ss - conLastBilling ss in
      (ss\<lparr>conLastBilling := conNextBilling ss, conNextBilling := conNextBilling ss + 60,
          conInput := 0, conOutput := 0\<rparr>,
       zero_stats\<lparr>Connections := f_int (uint deltaTime)\<rparr>))"

definition reportPacket :: "sessionEnv \<Rightarrow> string \<Rightarrow> KnotFreeContactStats \<Rightarrow> packet" where
  "reportPacket se jwtid st =
     Send (FromString jwtid) (FromString ''billing_stats_return_address_contact'') []
       (SetOption ''stats-deltat'' (format_int 0) (SetOption ''add-stats'' (showStats (seEnv se) st) []))"

text \<open>\<open>sendBillingInfo\<close>: the contact, the node's accumulator and, on an aide, the packet to push up.\<close>

definition sendBillingInfo :: "sessionEnv \<Rightarrow> bool \<Rightarrow> u32 \<Rightarrow> session \<Rightarrow> BillingAccumulator \<Rightarrow>
    (session \<times> BillingAccumulator \<times> packet list) outcome" where
  "sendBillingInfo se guru now ss bill =
     (if isClosedNow ss then Ret (ss, bill, [])
      else let (ss', st) = billingCommand ss in
        bind_out (AddUsage bill st now 0) (\<lambda>bill'.
          case sessionToken ss of
            None \<Rightarrow> Panic
          | Some tok \<Rightarrow> Ret (ss', bill', if guru then [] else [reportPacket se (JWTID tok) st])))"

definition contactHeartbeat :: "sessionEnv \<Rightarrow> bool \<Rightarrow> u32 \<Rightarrow> session \<Rightarrow> contactConfig \<Rightarrow> BillingAccumulator \<Rightarrow>
    (session \<times> contactConfig \<times> BillingAccumulator \<times> packet list) outcome" where
  "contactHeartbeat se guru now ss config bill =
     callCommand ss (\<lambda>ss.
       if sessionToken ss = None then Ret (ss, config, bill, [])
       else bind_out (if conNextBilling ss < now then sendBillingInfo se guru now ss bill else Ret (ss, bill, []))
         (\<lambda>(ss', bill', ps).
           if \<not> guru \<and> contactExpires ss < now
           then let (ss'', config') = DoClose ss' config in Ret (ss'', config', bill', ps)
           else Ret (ss', config, bill', ps)))"

end
