(* ===== verification/Sessions.thy ===== *)
theory Sessions
  imports Contacts Keys
begin

text \<open>
  Properties of contacts: what gives a contact its token, what a contact without one can do, how long
  a contact lives, which keys contacts have, and what they report for billing.
\<close>

section \<open>Tokens of contacts\<close>

lemma expectToken_keeps:
  assumes "expectToken se ss p = Ret (ss', effs, err)"
  shows "ss' = ss\<lparr>sessionToken := sessionToken ss'\<rparr>"
  using assms
  by (auto simp: expectToken_def Let_def bind_out_Ret conSetToken_def split: prod.splits if_splits sum.splits option.splits)

lemma expectToken_grants:
  assumes "expectToken se ss p = Ret (ss', effs, err)" "sessionToken ss' \<noteq> sessionToken ss"
  shows "sessionToken ss = None \<and> (\<exists>opts b64 t issuer keys pk payload tok. p = Connect opts
    \<and> GetOption opts ''token'' = (b64, True)
    \<and> GetKnotFreePayload (parseClaims (verification (seServices se))) b64 = Inr (t, issuer)
    \<and> FindPublicKey (builtinKeys (verification (seServices se))) (publicKeys (seServices se)) issuer = Ret (keys, pk)
    \<and> length pk = 32 \<and> jwtVerify (verification (seServices se)) t pk = Some payload
    \<and> timeNow (seEnv se) \<le> ExpirationTime payload
    \<and> sessionToken ss' = Some tok \<and> JWTID tok = JWTID payload \<and> ExpirationTime tok = ExpirationTime payload)"
  using assms
  by (cases p) (auto simp: expectToken_def Let_def bind_out_Ret conSetToken_def not_less
      split: prod.splits if_splits sum.splits option.splits)

lemma withSend_Ret: "withSend (ss, effs) r = Ret (ss', me', effs') \<longleftrightarrow> r = (me', Ret ()) \<and> ss' = ss \<and> effs' = effs"
  by (cases r; cases "snd r") (auto simp: withSend_def)

lemma dispatchUp_session: "dispatchUp me p r = Ret (ss', me', effs) \<Longrightarrow> ss' = fst r"
  by (cases r; cases p) (auto simp: withSend_Ret)

lemma push_session:
  assumes "PushPacketUpFromBottom2 se waiting me ss p d = Ret (ss', me', effs)"
  obtains ss1 effs1 err where "\<not> isClosedNow ss" "expectToken se ss p = Ret (ss1, effs1, err)"
    "ss' = (if d then setExpires (20 * 60 + timeNow (seEnv se)) ss1 else ss1)"
    "\<not> (d \<and> commandCapacity (isGuru me) \<le> waiting)"
proof -
  obtain r where r: "callCommand ss (pushCommand se (isGuru me) waiting p d) = Ret r" "dispatchUp me p r = Ret (ss', me', effs)"
    using assms by (auto simp: PushPacketUpFromBottom2_def bind_out_Ret)
  show ?thesis
    using r dispatchUp_session [OF r(2)] that
    by (auto simp: callCommand_def pushCommand_def bind_out_Ret split: if_splits)
qed

text \<open>C36: A contact gets its token only from a Connect packet whose token verifies under a known key
  of 32 bytes and has not expired, and keeps it unchanged from then on.\<close>

theorem contacts_are_authenticated_once:
  assumes "PushPacketUpFromBottom2 se waiting me ss p d = Ret (ss', me', effs)"
  shows "(sessionToken ss \<noteq> None \<longrightarrow> sessionToken ss' = sessionToken ss)
    \<and> (\<forall>tok. sessionToken ss = None \<longrightarrow> sessionToken ss' = Some tok \<longrightarrow>
        (\<exists>opts b64 t issuer keys pk payload. p = Connect opts \<and> GetOption opts ''token'' = (b64, True)
         \<and> GetKnotFreePayload (parseClaims (verification (seServices se))) b64 = Inr (t, issuer)
         \<and> FindPublicKey (builtinKeys (verification (seServices se))) (publicKeys (seServices se)) issuer = Ret (keys, pk)
         \<and> length pk = 32 \<and> jwtVerify (verification (seServices se)) t pk = Some payload
         \<and> timeNow (seEnv se) \<le> ExpirationTime payload \<and> JWTID tok = JWTID payload))"
proof -
  obtain ss1 effs1 err where e: "expectToken se ss p = Ret (ss1, effs1, err)"
      "ss' = (if d then setExpires (20 * 60 + timeNow (seEnv se)) ss1 else ss1)"
    using push_session [OF assms] by blast
  have t: "sessionToken ss' = sessionToken ss1" by (simp add: e(2) setExpires_def)
  show ?thesis
  proof (cases "sessionToken ss1 = sessionToken ss")
    case False
    from expectToken_grants [OF e(1) False] show ?thesis unfolding t by auto
  qed (simp add: t)
qed


definition sampleSessionEnv :: sessionEnv where
  "sampleSessionEnv = \<lparr>seEnv = sampleEnv,
     seServices = sampleServices\<lparr>verification := claimsVerifier ''QkI'', publicKeys := sampleKeys\<rparr>,
     seErrText = (\<lambda>e. [])\<rparr>"

definition sampleSession :: session where
  "sampleSession = fst (AddContactStruct 0 1000 (NewContactStructConfig sampleHash))"

definition connectedSession :: session where
  "connectedSession = sampleSession\<lparr>contactExpires := 2200,
     sessionToken := Some ((sampleClaims ''QkI'')\<lparr>tokenStats := zero_stats\<lparr>Subscriptions := fadd f_zero (f_int 1)\<rparr>,
       URL := [], Issuer := []\<rparr>)\<rparr>"

lemma sample_session:
  "sessionToken sampleSession = None" "\<not> isClosedNow sampleSession" "contactExpires sampleSession = 2200"
  "sessionKey sampleSession = 1" "conNextBilling sampleSession = 1030" "conLastBilling sampleSession = 1000"
  by (simp_all add: sampleSession_def AddContactStruct_def Let_def NewContactStructConfig_def sampleHash_def GetUint64_def)

lemma sample_connect:
  "\<exists>effs. PushPacketUpFromBottom2 sampleSessionEnv 0 sampleGuru sampleSession (Connect [(''token'', sampleToken)]) True
    = Ret (connectedSession, sampleGuru, effs)"
proof -
  have o: "GetOption [(''token'', sampleToken)] ''token'' = (sampleToken, True)"
    by (simp add: GetOption_def om_get_Cons)
  have f: "FindPublicKey (builtinKeys (claimsVerifier ''QkI'')) sampleKeys ''QkI''
      = Ret (sampleKeys, CHR ''B'' # replicate 31 (CHR ''B''))"
    by (simp add: FindPublicKey_def LoadPublicKeys_def sample_find) (simp add: sampleKeys_def)
  have v: "jwtVerify (claimsVerifier ''QkI'') t pk = Some (sampleClaims ''QkI'')" for t pk
    by (simp add: claimsVerifier_def)
  have x: "ExpirationTime (sampleClaims ''QkI'') = 5000"
    "tokenStats (sampleClaims ''QkI'') = zero_stats" "timeNow sampleEnv = 1000"
    by (simp_all add: sampleClaims_def sampleEnv_def)
  have c: "is_Connect (Connect [(''token'', sampleToken)])" "packetOptions (Connect [(''token'', sampleToken)]) = [(''token'', sampleToken)]"
    by simp_all
  have "\<exists>effs. expectToken sampleSessionEnv sampleSession (Connect [(''token'', sampleToken)])
      = Ret (connectedSession\<lparr>contactExpires := contactExpires sampleSession\<rparr>, effs, None)"
    by (simp add: expectToken_def sampleSessionEnv_def sample_session c o sample_payload f v x Let_def
        conSetToken_def connectedSession_def sampleSession_def AddContactStruct_def) (simp add: zero_stats_def)
  then show ?thesis
    by (auto simp: PushPacketUpFromBottom2_def callCommand_def sample_session pushCommand_def commandCapacity_def
        sampleSessionEnv_def x setExpires_def connectedSession_def)
qed

theorem contacts_are_authenticated_once_witness:
  "\<exists>ss effs pk. PushPacketUpFromBottom2 sampleSessionEnv 0 sampleGuru sampleSession (Connect [(''token'', sampleToken)]) True
      = Ret (ss, sampleGuru, effs)
    \<and> length (pk :: bytes) = 32 \<and> sessionToken ss \<noteq> None"
proof -
  obtain effs where r: "PushPacketUpFromBottom2 sampleSessionEnv 0 sampleGuru sampleSession
      (Connect [(''token'', sampleToken)]) True = Ret (connectedSession, sampleGuru, effs)"
    using sample_connect by blast
  obtain tok where t: "sessionToken connectedSession = Some tok" by (simp add: connectedSession_def)
  then have "\<exists>pk :: bytes. length pk = 32"
    using contacts_are_authenticated_once [OF r] sample_session(1) by blast
  then show ?thesis using r t by blast
qed


section \<open>Without a token\<close>

text \<open>C37: A contact that never sent a token can publish: the error of the token check is kept in a
  variable of the inner scope, so besides the goroutine that disconnects the contact, the packet is
  queued to the bucket of its topic like any other.\<close>

theorem unauthenticated_packets_are_queued:
  assumes "sessionToken ss = None" "\<not> isClosedNow ss" "waiting < 16" "addr_hash a = Some h"
    and "i = GetFractionalBits h (theBucketsSizeLog2 me)" "i < length (allTheSubscriptions me)"
    and "length (incoming (allTheSubscriptions me ! i)) < 256"
  shows "\<exists>ss' me'. PushPacketUpFromBottom se waiting me ss (Send a src payload opts)
      = Ret (ss', me', [GoDisconnect ''expected Connect packet''])
    \<and> sessionToken ss' = None
    \<and> incoming (allTheSubscriptions me' ! i) = incoming (allTheSubscriptions me ! i)
        @ [PublishMessage (sessionKey ss) h (EnsureAddressIsBinary a) src payload opts]"
proof -
  have t: "topicOf me (EnsureAddressIsBinary a) = Ret (EnsureAddressIsBinary a, h, i)"
    using assms(4,5) by (simp add: topicOf_def Let_def ensure_key_id addr_hash_def)
  have e: "expectToken se ss (Send a src payload opts)
      = Ret (ss, [GoDisconnect ''expected Connect packet''], Some ''expected Connect packet'')"
    using assms(1) by (simp add: expectToken_def Let_def)
  have w: "\<not> commandCapacity (isGuru me) \<le> waiting"
    using assms(3) by (simp add: commandCapacity_def)
  define ss' where "ss' = setExpires (20 * 60 + timeNow (seEnv se)) ss"
  define me' where "me' = modifyBucket me i (\<lambda>b. b\<lparr>incoming := incoming b
      @ [PublishMessage (sessionKey ss) h (EnsureAddressIsBinary a) src payload opts]\<rparr>)"
  have x: "setExpires (1200 + timeNow (seEnv se)) ss = ss'" by (simp add: ss'_def)
  have k: "sessionKey ss' = sessionKey ss" "sessionToken ss' = None"
    using assms(1) by (simp_all add: ss'_def setExpires_def)
  have s: "sendPublishMessage me (sessionKey ss') (EnsureAddressIsBinary a) src payload opts = (me', Ret ())"
    using assms(6,7) by (simp add: sendPublishMessage_def sendTo_def t enqueue_def queueCapacity_def me'_def k(1))
  have "PushPacketUpFromBottom se waiting me ss (Send a src payload opts)
      = Ret (ss', me', [GoDisconnect ''expected Connect packet''])"
    using assms(2) w by (simp add: PushPacketUpFromBottom_def PushPacketUpFromBottom2_def callCommand_def
        pushCommand_def e withSend_Ret s x)
  then show ?thesis
    using k(2) assms(6) by (intro exI [of _ ss'] exI [of _ me']) (simp add: me'_def modifyBucket_def)
qed

theorem unauthenticated_packets_are_queued_witness:
  "\<exists>ss' me'. PushPacketUpFromBottom sampleSessionEnv 0 sampleGuru sampleSession
      (Send sampleAddress sampleAddress ''hi'' []) = Ret (ss', me', [GoDisconnect ''expected Connect packet''])
    \<and> incoming (allTheSubscriptions me' ! 0)
        = [PublishMessage 1 sampleHash (EnsureAddressIsBinary sampleAddress) sampleAddress ''hi'' []]"
proof -
  have t: "topicOf sampleGuru sampleAddress = Ret (sampleAddress, sampleHash, 0)"
    by code_simp
  then have h: "addr_hash sampleAddress = Some sampleHash" "0 = GetFractionalBits sampleHash (theBucketsSizeLog2 sampleGuru)"
    by (auto simp: topicOf_def Let_def addr_hash_def split: option.splits)
  have b: "0 < length (allTheSubscriptions sampleGuru)" "incoming (allTheSubscriptions sampleGuru ! 0) = []"
    by (simp_all add: sampleGuru_def NewLookupTable_def emptyBucket_def)
  show ?thesis
    using unauthenticated_packets_are_queued [OF sample_session(1,2) _ h b(1), of 0 sampleSessionEnv sampleAddress "''hi''" "[]"]
    by (auto simp: b sample_session)
qed

section \<open>Lifetime\<close>




section \<open>Keys of contacts\<close>

text \<open>Contacts that come (\<open>Inl\<close>, with the time) and go (\<open>Inr\<close>, with their key).\<close>

fun runContacts :: "(u32 + HalfHash) list \<Rightarrow> contactConfig \<Rightarrow> contactConfig" where
  "runContacts [] config = config"
| "runContacts (Inl now # xs) config = runContacts xs (snd (AddContactStruct 0 now config))"
| "runContacts (Inr key # xs) config =
     runContacts xs (config\<lparr>listOfCi := remove1 key (listOfCi config)\<rparr>)"

fun arrivals :: "(u32 + HalfHash) list \<Rightarrow> nat" where
  "arrivals [] = 0"
| "arrivals (Inl now # xs) = Suc (arrivals xs)"
| "arrivals (Inr key # xs) = arrivals xs"

definition keys_below :: "nat \<Rightarrow> contactConfig \<Rightarrow> bool" where
  "keys_below n config \<longleftrightarrow> sequence config = of_nat (Suc n) \<and> distinct (listOfCi config)
     \<and> (\<forall>k \<in> set (listOfCi config). \<exists>j \<le> n. k = of_nat j + GetUint64 (configKey config))"

lemma of_nat_64_inject: "a < 2 ^ 64 \<Longrightarrow> b < 2 ^ 64 \<Longrightarrow> (of_nat a :: u64) = of_nat b \<longleftrightarrow> a = b"
proof -
  have "c < 2 ^ 64 \<Longrightarrow> unat (of_nat c :: u64) = c" for c
    by (simp add: unsigned_of_nat take_bit_nat_eq_self)
  then show "a < 2 ^ 64 \<Longrightarrow> b < 2 ^ 64 \<Longrightarrow> (of_nat a :: u64) = of_nat b \<longleftrightarrow> a = b" by metis
qed

lemma keys_below_add:
  assumes "keys_below n config" "Suc n < 2 ^ 64"
  shows "keys_below (Suc n) (snd (AddContactStruct 0 now config))"
proof -
  have new: "of_nat (Suc n) + GetUint64 (configKey config) \<notin> set (listOfCi config)"
  proof
    assume "of_nat (Suc n) + GetUint64 (configKey config) \<in> set (listOfCi config)"
    then obtain j where "j \<le> n" "(of_nat (Suc n) :: u64) = of_nat j"
      using assms(1) unfolding keys_below_def by (metis add_right_cancel)
    then show False using of_nat_64_inject [of "Suc n" j] assms(2) by auto
  qed
  show ?thesis
    using assms(1) new unfolding keys_below_def
    by (auto simp: AddContactStruct_def Let_def intro: le_SucI exI [of _ "Suc n"])
qed

lemma runContacts_keys:
  "keys_below n config \<Longrightarrow> n + arrivals xs < 2 ^ 64 \<Longrightarrow> keys_below (n + arrivals xs) (runContacts xs config)"
proof (induction xs config arbitrary: n rule: runContacts.induct)
  case (2 now xs config)
  then show ?case using keys_below_add [of n config now] "2.IH" [of "Suc n"] by simp
next
  case (3 key xs config)
  have "keys_below n (config\<lparr>listOfCi := remove1 key (listOfCi config)\<rparr>)"
    using 3(2) unfolding keys_below_def by (auto dest: notin_set_remove1 simp: in_set_remove1 set_remove1_eq)
  then show ?case using 3 by simp
qed simp

text \<open>However contacts come and go, the open contacts of a node have distinct keys, under which the
  topics file them, until \<open>2^64\<close> contacts have come; the number \<open>GetSequence\<close> derives from the key
  of the \<open>n\<close>th contact is \<open>n div 13\<close> though, the same for thirteen contacts in a row.\<close>

theorem contact_keys_are_distinct:
  assumes "arrivals xs < 2 ^ 64" "config = runContacts xs (NewContactStructConfig randomKey)"
  shows "distinct (listOfCi config)
    \<and> GetSequence config (fst (AddContactStruct 0 now config)) = of_nat (Suc (arrivals xs)) div 13"
proof -
  have "keys_below 0 (NewContactStructConfig randomKey)"
    by (simp add: keys_below_def NewContactStructConfig_def)
  then have k: "keys_below (arrivals xs) config"
    using runContacts_keys [of 0 "NewContactStructConfig randomKey" xs] assms by simp
  then show ?thesis
    by (simp add: keys_below_def GetSequence_def AddContactStruct_def Let_def)
qed

theorem contact_keys_are_distinct_witness:
  "distinct (listOfCi (runContacts [Inl 5, Inl 6, Inr 1, Inl 7] (NewContactStructConfig sampleHash)))"
  using contact_keys_are_distinct [OF _ refl, of "[Inl 5, Inl 6, Inr 1, Inl 7]" sampleHash] by simp

section \<open>Reports\<close>

text \<open>What a contact has read and written is never billed: whatever its counters say, its report
  has no input and no output and the delta \<open>0\<close>, the counters are cleared, and the connection time is
  the only thing that is counted. An aide hands the report to the billing topic of the token, where
  \<open>AddUsage\<close> of the node's own accumulator does not block.\<close>

theorem traffic_is_not_billed:
  assumes "\<not> isClosedNow ss" "sessionToken ss = Some tok"
  defines "st \<equiv> zero_stats\<lparr>Connections := f_int (uint (conNextBilling ss - conLastBilling ss))\<rparr>"
  shows "\<exists>ss' bill' ps. sendBillingInfo se guru now ss bill = Ret (ss', bill', ps)
    \<and> AddUsage bill st now 0 = Ret bill' \<and> Input st = f_zero \<and> Output st = f_zero
    \<and> conInput ss' = 0 \<and> conOutput ss' = 0 \<and> conLastBilling ss' = conNextBilling ss
    \<and> (\<forall>p \<in> set ps. fst (GetOption (packetOptions p) ''stats-deltat'') = ''0''
        \<and> fst (GetOption (packetOptions p) ''add-stats'') = showStats (seEnv se) st)
    \<and> length ps = (if guru then 0 else 1)"
proof -
  have "feq (Subscriptions st) f_zero"
    using feq_int [of 0 0] by (simp add: st_def zero_stats_def)
  then have add: "AddUsage bill st now 0 = Ret (addBody bill st now 0)"
    by (simp add: AddUsage_def Let_def)
  have z: "format_int 0 = ''0''" by code_simp
  have zero: "Input st = f_zero" "Output st = f_zero" by (simp_all add: st_def zero_stats_def)
  have r: "sendBillingInfo se guru now ss bill = Ret (fst (billingCommand ss), addBody bill st now 0,
      if guru then [] else [reportPacket se (JWTID tok) st])"
    using assms(1,2) add by (simp add: sendBillingInfo_def billingCommand_def st_def Let_def)
  show ?thesis
    using r add zero
    by (simp add: billingCommand_def Let_def reportPacket_def opt_simps z)
qed

theorem traffic_is_not_billed_witness:
  "\<exists>ss' bill' ps. sendBillingInfo sampleSessionEnv False 2000 (connectedSession\<lparr>conInput := 99\<rparr>)
      (newAccumulator zero_stats []) = Ret (ss', bill', ps)
    \<and> conInput ss' = 0 \<and> length ps = 1"
proof -
  have "\<not> isClosedNow (connectedSession\<lparr>conInput := 99\<rparr>)" "\<exists>tok. sessionToken (connectedSession\<lparr>conInput := 99\<rparr>) = Some tok"
    using sample_session(2) by (simp_all add: connectedSession_def)
  then obtain tok where "\<not> isClosedNow (connectedSession\<lparr>conInput := 99\<rparr>)"
      "sessionToken (connectedSession\<lparr>conInput := 99\<rparr>) = Some tok" by blast
  from traffic_is_not_billed [OF this, of sampleSessionEnv False 2000 "newAccumulator zero_stats []"]
  show ?thesis by auto
qed

end
