(* ===== verification/Mqtt.thy ===== *)
theory Mqtt
  imports Contacts
begin

text \<open>
  The bridge to MQTT (\<open>iot/mqtt-protocol.go\<close>): \<open>MQTTHandlePacket\<close> turns a decoded MQTT packet into
  packets for the node, \<open>WriteDownstream\<close> turns packets into MQTT packets, \<open>IsWholeMqttPacket\<close> finds the
  end of a packet in the bytes of a websocket. The MQTT packets themselves, as the library decodes and
  encodes them, are the datatypes \<open>mqttPacket\<close> and \<open>mqttOut\<close>; \<open>nowText\<close> is the printed time of an
  acknowledgement.
\<close>

section \<open>Data\<close>

record mqttProps =
  respTopic :: string
  userProps :: "(string \<times> string list) list"
  correlationData :: bytes

datatype mqttPacket =
    ConnPacket string string nat
  | PublishPacket string bytes "mqttProps option"
  | SubscribePacket "string list" "mqttProps option"
  | UnsubPacket "string list" "mqttProps option"
  | PingReqPacket
  | JunkPacket string

datatype mqttOut =
    ConnAckOut
  | SubAckOut string
  | PubOut string bytes "mqttProps option"
  | DisconnOut string
  | PingRespOut

record mqttContact =
  mqSession :: session
  protoVersion :: nat
  subscriptions :: "string list"

type_synonym handledMqtt = "(mqttContact \<times> looker \<times> sessionEffect list \<times> mqttOut list) outcome"

section \<open>From MQTT\<close>

text \<open>\<open>fmt.Sprint\<close> of a slice of strings.\<close>

definition sprintStrings :: "string list \<Rightarrow> string" where
  "sprintStrings vs = ''['' @ join_with (CHR '' '') vs @ '']''"

definition copyProps :: "(string \<times> string list) list \<Rightarrow> options \<Rightarrow> options" where
  "copyProps props opts = fold (\<lambda>(k, v) o'. SetOption k (sprintStrings v) o') props opts"

definition zeroAddress :: AddressUnion where
  "zeroAddress = \<lparr>addrType = CHR 0x00, addrBytes = []\<rparr>"

definition publishOptions :: "mqttProps option \<Rightarrow> options" where
  "publishOptions props =
     (case props of
        None \<Rightarrow> []
      | Some ps \<Rightarrow>
          let opts = copyProps (userProps ps) [] in
          if correlationData ps \<noteq> [] then SetOption ''CorrelationData'' (correlationData ps) opts else opts)"

definition propsSource :: "mqttProps option \<Rightarrow> AddressUnion" where
  "propsSource props = (case props of None \<Rightarrow> zeroAddress | Some ps \<Rightarrow> FromString (respTopic ps))"

definition pushMqtt :: "sessionEnv \<Rightarrow> nat \<Rightarrow> looker \<Rightarrow> mqttContact \<Rightarrow> packet \<Rightarrow> mqttOut list \<Rightarrow> handledMqtt" where
  "pushMqtt se waiting me cc p out =
     bind_out (PushPacketUpFromBottom se waiting me (mqSession cc) p) (\<lambda>(ss, me', effs).
       Ret (cc\<lparr>mqSession := ss\<rparr>, me', effs, out))"

text \<open>A publication: the answer to an anonymous ping, a lookup, or a \<open>Send\<close>.\<close>

definition handlePublish :: "sessionEnv \<Rightarrow> nat \<Rightarrow> looker \<Rightarrow> mqttContact \<Rightarrow> string \<Rightarrow> bytes \<Rightarrow> mqttProps option \<Rightarrow>
    handledMqtt" where
  "handlePublish se waiting me cc topic payload props =
     (let opts = publishOptions props;
          (api, ok) = GetOption opts ''api1'';
          (nonc, okn) = GetOption opts ''nonc'';
          (lookup, okl) = GetOption opts ''lookup''
      in if ok \<and> api = ''[ping]'' \<and> topic = ''anonymous'' \<and> okn
         then pushMqtt se waiting me cc
                (Send (propsSource props) (propsSource props) payload (SetOption ''api1'' nonc opts)) []
         else if okl \<and> lookup = ''lookup''
         then pushMqtt se waiting me cc (Lookup (FromString topic) (propsSource props) []) []
         else pushMqtt se waiting me cc (Send (FromString topic) (propsSource props) payload opts) [])"

definition topicOptions :: "mqttProps option \<Rightarrow> options" where
  "topicOptions props = (case props of None \<Rightarrow> [] | Some ps \<Rightarrow> copyProps (userProps ps) [])"

fun subscribeAll :: "sessionEnv \<Rightarrow> nat \<Rightarrow> mqttProps option \<Rightarrow> string list \<Rightarrow> looker \<Rightarrow> mqttContact \<Rightarrow>
    (mqttContact \<times> looker \<times> sessionEffect list) outcome" where
  "subscribeAll se waiting props [] me cc = Ret (cc, me, [])"
| "subscribeAll se waiting props (t # ts) me cc =
     bind_out (PushPacketUpFromBottom se waiting me (mqSession cc) (Subscribe (FromString t) (topicOptions props)))
       (\<lambda>(ss, me', effs).
     bind_out (subscribeAll se waiting props ts me'
         (cc\<lparr>mqSession := ss, subscriptions := List.insert t (subscriptions cc)\<rparr>)) (\<lambda>(cc', me'', effs').
       Ret (cc', me'', effs @ effs')))"

fun unsubscribeAll :: "sessionEnv \<Rightarrow> nat \<Rightarrow> mqttProps option \<Rightarrow> string list \<Rightarrow> looker \<Rightarrow> mqttContact \<Rightarrow>
    (mqttContact \<times> looker \<times> sessionEffect list) outcome" where
  "unsubscribeAll se waiting props [] me cc = Ret (cc, me, [])"
| "unsubscribeAll se waiting props (t # ts) me cc =
     bind_out (PushPacketUpFromBottom se waiting me (mqSession cc) (Unsubscribe (FromString t) (topicOptions props)))
       (\<lambda>(ss, me', effs).
     bind_out (unsubscribeAll se waiting props ts me'
         (cc\<lparr>mqSession := ss, subscriptions := removeAll t (subscriptions cc)\<rparr>)) (\<lambda>(cc', me'', effs').
       Ret (cc', me'', effs @ effs')))"

fun MQTTHandlePacket :: "sessionEnv \<Rightarrow> nat \<Rightarrow> string \<Rightarrow> looker \<Rightarrow> mqttContact \<Rightarrow> mqttPacket \<Rightarrow> handledMqtt" where
  "MQTTHandlePacket se waiting nowText me cc (ConnPacket username password version) =
     pushMqtt se waiting me (cc\<lparr>protoVersion := version\<rparr>)
       (Connect (SetOption ''token'' (if password = [] then username else password) [])) [ConnAckOut]"
| "MQTTHandlePacket se waiting nowText me cc (PublishPacket topic payload props) =
     handlePublish se waiting me cc topic payload props"
| "MQTTHandlePacket se waiting nowText me cc (SubscribePacket topics props) =
     bind_out (subscribeAll se waiting props topics me cc) (\<lambda>(cc', me', effs).
       Ret (cc', me', effs, [SubAckOut nowText]))"
| "MQTTHandlePacket se waiting nowText me cc (UnsubPacket topics props) =
     bind_out (unsubscribeAll se waiting props topics me cc) (\<lambda>(cc', me', effs). Ret (cc', me', effs, []))"
| "MQTTHandlePacket se waiting nowText me cc PingReqPacket = Ret (cc, me, [], [PingRespOut])"
| "MQTTHandlePacket se waiting nowText me cc (JunkPacket typeName) =
     Ret (cc, me, [CloseAfter (''bad mqtt type='' @ typeName)], [])"

section \<open>To MQTT\<close>

text \<open>\<open>UserProps.Add\<close>: one more value for a key.\<close>

fun addProp :: "(string \<times> string list) list \<Rightarrow> string \<Rightarrow> string \<Rightarrow> (string \<times> string list) list" where
  "addProp [] k v = [(k, [v])]"
| "addProp ((k', vs) # ps) k v = (if k' = k then (k', vs @ [v]) # ps else (k', vs) # addProp ps k v)"

definition optionProps :: "options \<Rightarrow> (string \<times> string list) list" where
  "optionProps opts =
     (let (keys, values) = GetOptionKeys opts in fold (\<lambda>(k, v) ps. addProp ps k v) (zip keys values) [])"

definition sendProps :: "AddressUnion \<Rightarrow> options \<Rightarrow> mqttProps" where
  "sendProps src opts =
     \<lparr>respTopic = addrString src,
      userProps = filter (\<lambda>(k, vs). k \<noteq> ''CorrelationData'') (optionProps opts),
      correlationData = (let (c, ok) = GetOption opts ''CorrelationData'' in if ok then c else [])\<rparr>"

fun mqttWriteDownstream :: "nat \<Rightarrow> packet \<Rightarrow> mqttOut list" where
  "mqttWriteDownstream version (Disconnect opts) = [DisconnOut (fst (GetOption opts ''error''))]"
| "mqttWriteDownstream version (Lookup a src opts) =
     [PubOut (if addrString a = [] then ''fixme_need_topic always'' else addrString a) ''had lookup''
       (if version = 5
        then Some \<lparr>respTopic = addrString src,
                   userProps = addProp (addProp (optionProps opts) ''atw'' ''test1'') ''lookup'' ''lookup'',
                   correlationData = []\<rparr>
        else None)]"
| "mqttWriteDownstream version (Send a src payload opts) =
     PubOut (if addrString a = [] then ''fixme_need_topic'' else addrString a) payload
       (if version = 5 then Some (sendProps src opts) else None)
     # (if snd (GetOption opts ''error'') then [DisconnOut []] else [])"
| "mqttWriteDownstream version p = []"

section \<open>Whole packets\<close>

text \<open>The length is a Go \<open>int\<close>: additions and shifts wrap.\<close>

fun wholeLoop :: "bytes \<Rightarrow> u64 \<Rightarrow> nat \<Rightarrow> (bytes \<times> u64) option" where
  "wholeLoop [] len shift = None"
| "wholeLoop (b # r) len shift =
     (if r = [] then None
      else let len' = len + push_bit shift (of_nat (byte_val b mod 128)) in
        if byte_val b < 128 then Some (r, len') else wholeLoop r len' (shift + 7))"

definition IsWholeMqttPacket :: "bytes \<Rightarrow> bool \<times> int" where
  "IsWholeMqttPacket dat =
     (if length dat < 2 then (False, 0)
      else case wholeLoop (tl dat) 0 0 of
             None \<Rightarrow> (False, 0)
           | Some (r, len) \<Rightarrow>
               let i = sint (of_nat (length dat - length r) + len) in
               if int (length dat) < i then (False, 0) else (True, i))"

text \<open>How MQTT writes the length of a packet.\<close>

fun mqttLength :: "nat \<Rightarrow> bytes" where
  "mqttLength n = (if n < 128 then [byte_of n] else byte_of (128 + n mod 128) # mqttLength (n div 128))"

declare mqttLength.simps [simp del]

lemma wholeLoop_length:
  "r \<noteq> [] \<Longrightarrow> wholeLoop (mqttLength n @ r) len shift = Some (r, len + push_bit shift (of_nat n))"
proof (induction n arbitrary: len shift rule: mqttLength.induct)
  case (1 n)
  show ?case
  proof (cases "n < 128")
    case True
    then show ?thesis using 1(2) by (simp add: mqttLength.simps [of n])
  next
    case False
    have ne: "mqttLength (n div 128) @ r \<noteq> []" using 1(2) by simp
    have v: "byte_val (byte_of (128 + n mod 128)) = 128 + n mod 128" by (intro byte_val_of) simp
    have m: "(128 + n mod 128) mod 128 = n mod 128" by simp
    have "push_bit shift (of_nat (n mod 128)) + push_bit (shift + 7) (of_nat (n div 128))
        = (push_bit shift (of_nat (n mod 128 + n div 128 * 128)) :: u64)"
      by (simp only: push_bit_eq_mult of_nat_add of_nat_mult power_add) (simp add: algebra_simps)
    also have "n mod 128 + n div 128 * 128 = n" by simp
    finally have p: "push_bit shift (of_nat (n mod 128)) + push_bit (shift + 7) (of_nat (n div 128))
        = (push_bit shift (of_nat n) :: u64)" .
    have "wholeLoop (mqttLength n @ r) len shift
        = wholeLoop (mqttLength (n div 128) @ r) (len + push_bit shift (of_nat (n mod 128))) (shift + 7)"
      using False ne by (simp add: mqttLength.simps [of n] v m)
    also have "\<dots> = Some (r, len + (push_bit shift (of_nat (n mod 128)) + push_bit (shift + 7) (of_nat (n div 128))))"
      using 1(1) [OF False 1(2)] by (simp add: add.assoc)
    finally show ?thesis by (simp only: p)
  qed
qed

lemma sint_small: "i < 2 ^ 63 \<Longrightarrow> sint (of_nat i :: u64) = int i"
proof -
  assume "i < 2 ^ 63"
  then have "int i < 2 ^ 63" using of_nat_less_iff [of i "2 ^ 63", where ?'a = int] by simp
  moreover have "sint (of_nat i :: u64) = signed_take_bit 63 (int i)"
    by (simp add: signed_of_nat)
  ultimately show ?thesis by (simp add: signed_take_bit_int_eq_self)
qed

lemma whole_found:
  assumes "content @ rest \<noteq> []" "length content = n" "n + 20 < 2 ^ 63" "length (mqttLength n) < 16"
  shows "IsWholeMqttPacket (cmd # mqttLength n @ content @ rest) = (True, int (1 + length (mqttLength n) + n))"
proof -
  define i where "i = 1 + length (mqttLength n) + n"
  have "(of_nat (1 + length (mqttLength n)) :: u64) + of_nat n = of_nat i" by (simp add: i_def)
  moreover have "sint (of_nat i :: u64) = int i"
    using assms(3,4) by (intro sint_small) (simp add: i_def)
  ultimately have "sint (of_nat (1 + length (mqttLength n)) + of_nat n :: u64) = int i" by simp
  then have s: "sint (1 + of_nat (length (mqttLength n)) + of_nat n :: u64) = int i" by simp
  have l: "length (cmd # mqttLength n @ content @ rest) - length (content @ rest) = 1 + length (mqttLength n)" by simp
  have "\<not> length (cmd # mqttLength n @ content @ rest) < 2"
    using assms(1) by (cases "content @ rest") auto
  then show ?thesis
    using assms(2) wholeLoop_length [OF assms(1), of n 0 0]
    by (simp only: IsWholeMqttPacket_def l list.sel) (simp add: s Let_def, simp add: i_def)
qed

end
