(* ===== verification/Bridge.thy ===== *)
theory Bridge
  imports Mqtt Sessions
begin

text \<open>
  Properties of the bridge to MQTT: the end of a packet in a stream, and what becomes of a publication.
\<close>

section \<open>Finding the end of a packet\<close>

lemma mqttLength_bound: "n < 128 ^ Suc k \<Longrightarrow> length (mqttLength n) \<le> Suc k"
proof (induction k arbitrary: n)
  case 0
  then show ?case by (simp add: mqttLength.simps [of n])
next
  case (Suc k)
  then have "n div 128 < 128 ^ Suc k" by (simp add: less_mult_imp_div_less)
  then show ?case using Suc.IH [of "n div 128"] by (simp add: mqttLength.simps [of n])
qed

lemma wrapped_length: "wholeLoop (replicate 9 (byte_of 128) @ [CHR 0x01, x]) 0 0 = Some ([x], push_bit 63 1)"
proof -
  have r: "replicate 9 b = [b, b, b, b, b, b, b, b, b]" for b :: char
    by (simp add: numeral_eq_Suc)
  have "byte_val (byte_of 128) = 128" by (intro byte_val_of) simp
  then show ?thesis by (simp add: r)
qed

text \<open>A packet of less than \<open>2^28\<close> bytes is found whole in the bytes of a websocket, with its exact
  length, whatever follows it; but a packet of two bytes, such as a ping, is not until something follows
  it, and a length of ten bytes wraps around and gives a negative end, which the caller slices by.\<close>

theorem whole_mqtt_packets_are_found:
  "(content @ rest \<noteq> [] \<and> length content < 2 ^ 28 \<longrightarrow>
      IsWholeMqttPacket (cmd # mqttLength (length content) @ content @ rest)
        = (True, int (1 + length (mqttLength (length content)) + length content)))
   \<and> IsWholeMqttPacket [cmd, CHR 0x00] = (False, 0)
   \<and> IsWholeMqttPacket (cmd # replicate 9 (byte_of 128) @ [CHR 0x01, x]) = (True, 11 - 2 ^ 63)"
proof -
  have "IsWholeMqttPacket (cmd # mqttLength (length content) @ content @ rest)
      = (True, int (1 + length (mqttLength (length content)) + length content))"
    if "content @ rest \<noteq> []" "length content < 2 ^ 28"
  proof (rule whole_found [OF that(1) refl])
    have "length content < 128 ^ Suc 3" using that(2) by simp
    then show "length (mqttLength (length content)) < 16" using mqttLength_bound by fastforce
    show "length content + 20 < 2 ^ 63" using that(2) by simp
  qed
  moreover have "IsWholeMqttPacket [cmd, CHR 0x00] = (False, 0)"
    by (simp add: IsWholeMqttPacket_def)
  moreover have "sint (11 + push_bit 63 1 :: u64) = 11 - 2 ^ 63" by code_simp
  ultimately show ?thesis
    using wrapped_length [of x] by (simp add: IsWholeMqttPacket_def)
qed

theorem whole_mqtt_packets_are_found_witness:
  "IsWholeMqttPacket (CHR ''0'' # mqttLength (length ''hi'') @ ''hi'' @ ''more'') = (True, 4)"
proof -
  have "length (mqttLength (length ''hi'')) = 1" by (simp add: mqttLength.simps)
  moreover have "''hi'' @ ''more'' \<noteq> [] \<and> length ''hi'' < 2 ^ 28" by simp
  ultimately show ?thesis
    using whole_mqtt_packets_are_found [of "''hi''" "''more''" "CHR ''0''"] by simp
qed

section \<open>Publications\<close>

lemma copyProps_other: "k \<notin> fst ` set props \<Longrightarrow> GetOption (copyProps props opts) k = GetOption opts k"
proof (induction props arbitrary: opts)
  case (Cons p props)
  obtain k' v where p: "p = (k', v)" by fastforce
  have "copyProps (p # props) opts = copyProps props (SetOption k' (sprintStrings v) opts)"
    by (simp add: copyProps_def p)
  then show ?case using Cons by (simp add: p opt_simps)
qed (simp add: copyProps_def)

lemma copyProps_get:
  "distinct (map fst props) \<Longrightarrow> (k, vs) \<in> set props \<Longrightarrow> GetOption (copyProps props opts) k = (sprintStrings vs, True)"
proof (induction props arbitrary: opts)
  case (Cons p props)
  obtain k' v where p: "p = (k', v)" by fastforce
  have c: "copyProps (p # props) opts = copyProps props (SetOption k' (sprintStrings v) opts)"
    by (simp add: copyProps_def p)
  show ?case
  proof (cases "(k, vs) \<in> set props")
    case True
    then show ?thesis using Cons by (simp add: c)
  next
    case False
    then have "k = k'" "vs = v" "k \<notin> fst ` set props"
      using Cons.prems by (auto simp: p)
    then show ?thesis by (simp add: c copyProps_other opt_simps)
  qed
qed simp


definition lookupProps :: mqttProps where
  "lookupProps = \<lparr>respTopic = ''r'', userProps = [(''lookup'', [''lookup''])], correlationData = []\<rparr>"

definition sampleMqtt :: mqttContact where
  "sampleMqtt = \<lparr>mqSession = connectedSession, protoVersion = 5, subscriptions = []\<rparr>"


end
