(* ===== verification/Executive.thy ===== *)
theory Executive
  imports Upstream Contacts GoStrings
begin

text \<open>
  The cluster executive (\<open>iot/executive.go\<close>): the load of a node as fractions of its limits,
  \<open>CalcExpansionDesired\<close>, which decides whether the two tiers grow or shrink, and \<open>Operate\<close>, which
  carries that out on a cluster within one process. Sums and quotients are those of \<open>float64\<close>, in the
  order of the source. The other addresses of a node, its memory and open files are left out of its
  stats, as nothing reads them here.
\<close>

section \<open>Data\<close>

record executive =
  exName :: string
  exGuru :: bool
  exLooker :: looker
  exConfig :: contactConfig
  configHasCe :: bool
  tcpAddress :: string
  Limits :: KnotFreeContactStats

record ExecutiveStats =
  exStats :: KnotFreeContactStats
  Buffers :: f64
  statName :: string
  TCPAddress :: string
  statGuru :: bool

record ExpansionDesired =
  ChangeAides :: int
  RemoveAide :: string
  ChangeGurus :: int

record ClusterExecutive =
  Aides :: "executive list"
  Gurus :: "executive list"
  currentGuruList :: "string list"
  currentPort :: int

definition TestLimits :: KnotFreeContactStats where
  "TestLimits = \<lparr>Input = f_int 100, Output = f_int 100, Subscriptions = f_int 100, Connections = f_int 10\<rparr>"

section \<open>The load of a node\<close>

definition GetExecutiveStats :: "u32 \<Rightarrow> executive \<Rightarrow> ExecutiveStats" where
  "GetExecutiveStats now ex =
     (let (subs, queuefraction) = GetAllSubsCount (exLooker ex);
          st = GetStats (exBilling (exLooker ex)) now zero_stats;
          lim = Limits ex
      in \<lparr>exStats = \<lparr>Input = fdiv (Input st) (Input lim), Output = fdiv (Output st) (Output lim),
                    Subscriptions = fdiv (Subscriptions st) (Subscriptions lim),
                    Connections = fdiv (Connections st) (Connections lim)\<rparr>,
          Buffers = queuefraction, statName = exName ex, TCPAddress = tcpAddress ex, statGuru = exGuru ex\<rparr>)"

definition GetSubsCount :: "ClusterExecutive \<Rightarrow> int" where
  "GetSubsCount ce =
     sum_list (map (\<lambda>ex. fst (GetAllSubsCount (exLooker ex))) (Aides ce))
   + sum_list (map (\<lambda>ex. fst (GetAllSubsCount (exLooker ex))) (Gurus ce))"

section \<open>Growing and shrinking\<close>

definition total :: "(ExecutiveStats \<Rightarrow> f64) \<Rightarrow> ExecutiveStats list \<Rightarrow> f64" where
  "total f exs = fold (\<lambda>ex sm. fadd sm (f ex)) exs f_zero"

definition flen :: "'a list \<Rightarrow> f64" where
  "flen xs = f_int (int (length xs))"

definition mean :: "(ExecutiveStats \<Rightarrow> f64) \<Rightarrow> ExecutiveStats list \<Rightarrow> f64" where
  "mean f exs = fdiv (total f exs) (flen exs)"

definition larger :: "f64 \<Rightarrow> f64 \<Rightarrow> f64" where
  "larger mx x = (if flt mx x then x else mx)"

text \<open>Subscriptions do not count for aides: their sum stays 0.\<close>

definition aideLoad :: "ExecutiveStats list \<Rightarrow> f64" where
  "aideLoad exs = larger (larger (fdiv f_zero (flen exs)) (mean Buffers exs)) (mean (\<lambda>ex. Connections (exStats ex)) exs)"

definition guruLoad :: "ExecutiveStats list \<Rightarrow> f64" where
  "guruLoad exs = larger (mean (\<lambda>ex. Subscriptions (exStats ex)) exs) (mean Buffers exs)"

text \<open>\<open>max >= 0.9\<close>, and \<open>tmp < 0.80\<close> for the load that would remain with one node less.\<close>

definition isFull :: "f64 \<Rightarrow> bool" where
  "isFull mx = (flt (of_exact False (9 / 10)) mx \<or> feq mx (of_exact False (9 / 10)))"

definition canShrink :: "f64 \<Rightarrow> nat \<Rightarrow> bool" where
  "canShrink mx n =
     (1 < n \<and> flt (fdiv (fmul mx (f_int (int n))) (f_int (int n - 1))) (of_exact False (8 / 10)))"

text \<open>The index of the aide with the most subscriptions: the one to be removed.\<close>

definition mostSubscribed :: "ExecutiveStats list \<Rightarrow> nat" where
  "mostSubscribed exs =
     snd (fold (\<lambda>(i, ex) (mx, index).
            if flt mx (Subscriptions (exStats ex)) then (Subscriptions (exStats ex), i) else (mx, index))
          (enumerate 0 exs) (f_zero, 0))"

definition CalcExpansionDesired :: "ExecutiveStats list \<Rightarrow> ExecutiveStats list \<Rightarrow> ExpansionDesired" where
  "CalcExpansionDesired aides gurus =
     (let full = isFull (aideLoad aides);
          shrink = (\<not> full \<and> canShrink (aideLoad aides) (length aides));
          gfull = isFull (guruLoad gurus);
          gshrink = (\<not> gfull \<and> canShrink (guruLoad gurus) (length gurus))
      in \<lparr>ChangeAides = (if full then 1 else if shrink then -1 else 0),
          RemoveAide = (if shrink then statName (aides ! mostSubscribed aides) else []),
          ChangeGurus = (if gfull then 1 else if gshrink then -1 else 0)\<rparr>)"

section \<open>Operate\<close>

text \<open>\<open>configHasCe\<close> is whether \<open>Config.ce\<close> of the node is set: only the constructors of a cluster do that,
  \<open>NewExecutive\<close> does not.

  What the executive takes from outside: the time, what the goroutines of a table do until the
  markers of a flush have come through, and the random key of a new node.\<close>

record clusterEnv =
  ceNow :: u32
  settle :: "looker \<Rightarrow> looker"
  newKey :: "string \<Rightarrow> HashType"

datatype clusterEffect =
    RegisterGuru string
  | CloseContact HalfHash string

definition NewExecutive :: "clusterEnv \<Rightarrow> nat \<Rightarrow> string \<Rightarrow> bool \<Rightarrow> executive" where
  "NewExecutive cenv sizeEstimate aname guru =
     \<lparr>exName = aname, exGuru = guru,
      exLooker = NewLookupTable sizeEstimate aname guru (newAccumulator zero_stats []),
      exConfig = NewContactStructConfig (newKey cenv aname), configHasCe = False,
      tcpAddress = [], Limits = TestLimits\<rparr>"

definition GetNextAddress :: "ClusterExecutive \<Rightarrow> string \<times> ClusterExecutive" where
  "GetNextAddress ce =
     (let port = (if currentPort ce = 0 then 9000 else currentPort ce)
      in (''localhost:'' @ format_int port, ce\<lparr>currentPort := port + 1\<rparr>))"

fun eachLooker :: "(looker \<Rightarrow> looker \<times> unit outcome) \<Rightarrow> executive list \<Rightarrow> executive list outcome" where
  "eachLooker f [] = Ret []"
| "eachLooker f (ex # exs) =
     (case f (exLooker ex) of
        (me, Ret u) \<Rightarrow> bind_out (eachLooker f exs) (\<lambda>exs'. Ret (ex\<lparr>exLooker := me\<rparr> # exs'))
      | (me, Panic) \<Rightarrow> Panic
      | (me, Hang) \<Rightarrow> Hang)"

definition setNames :: "string list \<Rightarrow> looker \<Rightarrow> looker \<times> unit outcome" where
  "setNames names me = SetUpstreamNames me names names"

definition flush :: "clusterEnv \<Rightarrow> looker \<Rightarrow> looker \<times> unit outcome" where
  "flush cenv me = (let (me', r) = FlushMarkerAndWait me in (if r = Ret () then settle cenv me' else me', r))"

text \<open>The gurus first, then the aides.\<close>

definition flushAll :: "clusterEnv \<Rightarrow> ClusterExecutive \<Rightarrow> ClusterExecutive outcome" where
  "flushAll cenv ce =
     bind_out (eachLooker (flush cenv) (Gurus ce)) (\<lambda>gs.
     bind_out (eachLooker (flush cenv) (Aides ce)) (\<lambda>as. Ret (ce\<lparr>Gurus := gs, Aides := as\<rparr>)))"

definition renameAll :: "ClusterExecutive \<Rightarrow> ClusterExecutive outcome" where
  "renameAll ce =
     bind_out (eachLooker (setNames (currentGuruList ce)) (Gurus ce)) (\<lambda>gs.
     bind_out (eachLooker (setNames (currentGuruList ce)) (Aides ce)) (\<lambda>as. Ret (ce\<lparr>Gurus := gs, Aides := as\<rparr>)))"

definition addAide :: "clusterEnv \<Rightarrow> ClusterExecutive \<Rightarrow> ClusterExecutive outcome" where
  "addAide cenv ce =
     (if Aides ce = [] then Panic
      else
        let aide1 = NewExecutive cenv 100 (''aide'' @ dec_nat (length (Aides ce))) False in
        bind_out (eachLooker (setNames (currentGuruList ce)) [aide1]) (\<lambda>as.
          flushAll cenv (ce\<lparr>Aides := Aides ce @ as\<rparr>)))"

text \<open>The last node takes the place of the one that goes.\<close>

definition indexNamed :: "string \<Rightarrow> ExecutiveStats list \<Rightarrow> nat" where
  "indexNamed name exs = fold (\<lambda>(i, ex) index. if statName ex = name then i else index) (enumerate 0 exs) 0"

definition removeAide :: "clusterEnv \<Rightarrow> ExecutiveStats list \<Rightarrow> string \<Rightarrow> ClusterExecutive \<Rightarrow>
    (ClusterExecutive \<times> clusterEffect list) outcome" where
  "removeAide cenv astats name ce =
     (let i = indexNamed name astats in
      if length (Aides ce) \<le> i then Panic
      else
        let minion = Aides ce ! i;
            rest = butlast ((Aides ce)[i := last (Aides ce)])
        in bind_out (flushAll cenv (ce\<lparr>Aides := rest\<rparr>)) (\<lambda>ce'.
             Ret (ce', map (\<lambda>cc. CloseContact cc ''routine maintainance a1'') (listOfCi (exConfig minion)))))"

definition operateAides :: "clusterEnv \<Rightarrow> ExecutiveStats list \<Rightarrow> ExpansionDesired \<Rightarrow> ClusterExecutive \<Rightarrow>
    (ClusterExecutive \<times> clusterEffect list) outcome" where
  "operateAides cenv astats expansion ce =
     (if 0 < ChangeAides expansion then bind_out (addAide cenv ce) (\<lambda>ce'. Ret (ce', []))
      else if ChangeAides expansion < 0 then removeAide cenv astats (RemoveAide expansion) ce
      else Ret (ce, []))"

definition addGuru :: "clusterEnv \<Rightarrow> ClusterExecutive \<Rightarrow> (ClusterExecutive \<times> clusterEffect list) outcome" where
  "addGuru cenv ce =
     (if Gurus ce = [] then Panic
      else
        let newName = ''guru'' @ dec_nat (length (Gurus ce));
            n1 = NewExecutive cenv 100 newName True
        in bind_out (renameAll (ce\<lparr>Gurus := Gurus ce @ [n1], currentGuruList := currentGuruList ce @ [newName]\<rparr>)) (\<lambda>ce1.
           bind_out (flushAll cenv ce1) (\<lambda>ce2. Ret (ce2, [RegisterGuru newName]))))"

definition removeGuru :: "clusterEnv \<Rightarrow> ClusterExecutive \<Rightarrow> (ClusterExecutive \<times> clusterEffect list) outcome" where
  "removeGuru cenv ce =
     (let i = length (Gurus ce) - 1 in
      if Gurus ce = [] \<or> length (currentGuruList ce) < i then Panic
      else
        let minion = last (Gurus ce);
            ce0 = ce\<lparr>Gurus := butlast (Gurus ce), currentGuruList := take i (currentGuruList ce)\<rparr>
        in bind_out (renameAll ce0) (\<lambda>ce1.
           bind_out (flushAll cenv ce1) (\<lambda>ce2.
             Ret (ce2, map (\<lambda>cc. CloseContact cc ''routine maintainance g1'') (listOfCi (exConfig minion))))))"

definition operateGurus :: "clusterEnv \<Rightarrow> ExpansionDesired \<Rightarrow> ClusterExecutive \<Rightarrow>
    (ClusterExecutive \<times> clusterEffect list) outcome" where
  "operateGurus cenv expansion ce =
     (if 0 < ChangeGurus expansion then addGuru cenv ce
      else if ChangeGurus expansion < 0 then removeGuru cenv ce
      else Ret (ce, []))"

definition Operate :: "clusterEnv \<Rightarrow> ClusterExecutive \<Rightarrow> (ClusterExecutive \<times> clusterEffect list) outcome" where
  "Operate cenv ce =
     (let astats = map (GetExecutiveStats (ceNow cenv)) (Aides ce);
          gstats = map (GetExecutiveStats (ceNow cenv)) (Gurus ce);
          expansion = CalcExpansionDesired astats gstats
      in bind_out (operateAides cenv astats expansion ce) (\<lambda>(ce1, effs).
         bind_out (operateGurus cenv expansion ce1) (\<lambda>(ce2, effs'). Ret (ce2, effs @ effs'))))"

text \<open>\<open>WaitForActions\<close>: three rounds over the aides and then the gurus.\<close>

definition waitRound :: "clusterEnv \<Rightarrow> ClusterExecutive \<Rightarrow> ClusterExecutive outcome" where
  "waitRound cenv ce =
     bind_out (eachLooker (flush cenv) (Aides ce)) (\<lambda>as.
     bind_out (eachLooker (flush cenv) (Gurus ce)) (\<lambda>gs. Ret (ce\<lparr>Gurus := gs, Aides := as\<rparr>)))"

definition WaitForActions :: "clusterEnv \<Rightarrow> ClusterExecutive \<Rightarrow> ClusterExecutive outcome" where
  "WaitForActions cenv ce =
     bind_out (waitRound cenv ce) (\<lambda>ce1. bind_out (waitRound cenv ce1) (waitRound cenv))"

text \<open>The cluster at the start, without TCP: one guru, \<open>aideCount\<close> aides, all told of that guru.\<close>

definition MakeSimplestCluster :: "clusterEnv \<Rightarrow> nat \<Rightarrow> string \<Rightarrow> ClusterExecutive outcome" where
  "MakeSimplestCluster cenv aideCount suffix =
     (let guru0 = ''guru0'' @ suffix;
          ce = \<lparr>Aides = map (\<lambda>i. (NewExecutive cenv 100 (''aide'' @ dec_nat i @ suffix) False)\<lparr>configHasCe := True\<rparr>) [0..<aideCount],
                Gurus = [(NewExecutive cenv 100 guru0 True)\<lparr>configHasCe := True\<rparr>],
                currentGuruList = [guru0], currentPort = 0\<rparr>
      in bind_out (renameAll ce) (WaitForActions cenv))"

section \<open>Choosing an aide\<close>

text \<open>\<open>getTheIndex\<close> of \<open>iot/aide-dialer.go\<close>: the first aide at or after a random place, around the end.\<close>

fun aideFrom :: "nat \<Rightarrow> nat \<Rightarrow> nat \<Rightarrow> ExecutiveStats list \<Rightarrow> int \<times> string \<times> string" where
  "aideFrom start i 0 exs = (-1, [], [])"
| "aideFrom start i (Suc n) exs =
     (let index = (i + start) mod length exs; st = exs ! index in
      if \<not> statGuru st then (int index, statName st, TCPAddress st) else aideFrom start (Suc i) n exs)"

definition getTheIndex :: "nat \<Rightarrow> ExecutiveStats list \<Rightarrow> int \<times> string \<times> string" where
  "getTheIndex randindex exs = (if exs = [] then (-1, [], []) else aideFrom randindex 0 (length exs) exs)"

lemma aideFrom_none:
  "exs \<noteq> [] \<Longrightarrow> aideFrom start i n exs = (-1, nm, ad) \<Longrightarrow> \<forall>j < n. statGuru (exs ! ((i + j + start) mod length exs))"
proof (induction n arbitrary: i)
  case (Suc n)
  then have "statGuru (exs ! ((i + start) mod length exs))" "aideFrom start (Suc i) n exs = (-1, nm, ad)"
    by (auto simp: Let_def split: if_splits)
  then show ?case using Suc.IH [OF Suc.prems(1), of "Suc i"] by (fastforce simp: less_Suc_eq_0_disj)
qed simp

lemma aideFrom_some:
  "exs \<noteq> [] \<Longrightarrow> aideFrom start i n exs = (k, nm, ad) \<Longrightarrow> k = -1
    \<or> (\<exists>j < length exs. k = int j \<and> \<not> statGuru (exs ! j) \<and> nm = statName (exs ! j) \<and> ad = TCPAddress (exs ! j))"
proof (induction n arbitrary: i)
  case (Suc n)
  then show ?case by (fastforce simp: Let_def split: if_splits)
qed simp

text \<open>It finds an aide whenever there is one.\<close>

lemma getTheIndex_finds:
  assumes "j < length exs" "\<not> statGuru (exs ! j)"
  shows "\<exists>i < length exs. \<not> statGuru (exs ! i)
    \<and> getTheIndex randindex exs = (int i, statName (exs ! i), TCPAddress (exs ! i))"
proof -
  let ?n = "length exs"
  obtain k nm ad where r: "aideFrom randindex 0 ?n exs = (k, nm, ad)" by (metis prod_cases3)
  have ne: "exs \<noteq> []" using assms(1) by auto
  define d where "d = (j + ?n - randindex mod ?n) mod ?n"
  have d: "d < ?n" using assms(1) unfolding d_def by (intro mod_less_divisor) linarith
  have "(d + randindex) mod ?n = (j + ?n - randindex mod ?n + randindex mod ?n) mod ?n"
    by (simp add: d_def mod_simps)
  also have "randindex mod ?n \<le> j + ?n" using mod_less_divisor [of ?n randindex] assms(1) by linarith
  then have "j + ?n - randindex mod ?n + randindex mod ?n = j + ?n" by simp
  then have "(j + ?n - randindex mod ?n + randindex mod ?n) mod ?n = j" using assms(1) by simp
  finally have "k \<noteq> -1" using aideFrom_none [OF ne, of randindex 0 ?n nm ad] r d assms(2) by auto
  then show ?thesis using aideFrom_some [OF ne r] r ne by (auto simp: getTheIndex_def)
qed

end
