(* ===== verification/Membership.thy ===== *)
theory Membership
  imports Executive Cluster
begin

text \<open>
  Who belongs to a cluster: the names of its gurus, the list of them that every node has been told, and
  what the goroutines of a node leave of it (\<open>same_wiring\<close>). \<open>clusterReached\<close> are the clusters that come
  of \<open>MakeSimplestCluster\<close> by \<open>Operate\<close> and the work of the nodes, \<open>cluster_ok\<close> is their invariant.
\<close>

section \<open>Wiring\<close>

definition wires :: "looker \<Rightarrow> string option list" where
  "wires me = map (map_option upName) (channels (router me))"

definition same_wiring :: "looker \<Rightarrow> looker \<Rightarrow> bool" where
  "same_wiring me t \<longleftrightarrow> isGuru t = isGuru me \<and> lookDebug t = lookDebug me
     \<and> maglevTable (router t) = maglevTable (router me) \<and> wires t = wires me
     \<and> (router_ok (router me) \<longrightarrow> router_ok (router t))
     \<and> (name2channel (router me) = [] \<longrightarrow> name2channel (router t) = [])"

lemma same_wiring_refl [simp]: "same_wiring me me"
  by (simp add: same_wiring_def)

lemma same_wiring_trans: "same_wiring a b \<Longrightarrow> same_wiring b c \<Longrightarrow> same_wiring a c"
  by (auto simp: same_wiring_def)

lemma shape_wiring: "same_shape me t \<Longrightarrow> same_wiring me t"
  by (auto simp: same_shape_def same_wiring_def wires_def)

lemma updateChannel_wiring:
  assumes "i < length (channels (router me))" "\<And>c. upName (f c) = upName c" "\<And>c. upUp (f c) = upUp c"
  shows "same_wiring me (updateChannel i f me)"
proof -
  let ?cs = "channels (router me)"
  have u: "map_option upName (map_option f c) = map_option upName c" for c
    by (cases c) (simp_all add: assms(2))
  have "map (map_option upName) (?cs[i := map_option f (?cs ! i)])
      = (map (map_option upName) ?cs)[i := map_option upName (map_option f (?cs ! i))]"
    by (rule map_update)
  also have "\<dots> = (map (map_option upName) ?cs)[i := map (map_option upName) ?cs ! i]"
    using assms(1) by (simp add: u)
  also have "\<dots> = map (map_option upName) ?cs" by (rule list_update_id)
  finally have w: "wires (updateChannel i f me) = wires me" by (simp add: wires_def updateChannel_def)
  have "router_ok (router (updateChannel i f me))" if ok: "router_ok (router me)"
  proof -
    obtain upc where upc: "?cs ! i = Some upc" "upUp upc = OpenChan"
      using bspec [OF conjunct1 [OF ok [unfolded router_ok_def]] nth_mem [OF assms(1)]] by blast
    have "set (?cs[i := Some (f upc)]) \<subseteq> insert (Some (f upc)) (set ?cs)" by (rule set_update_subset_insert)
    then show ?thesis using ok upc assms(3) by (auto simp: router_ok_def updateChannel_def)
  qed
  then show ?thesis using w by (simp add: same_wiring_def) (simp add: updateChannel_def)
qed

text \<open>No step of a node but a change of the gurus touches its wiring.\<close>

lemma sendTo_shape: "sendTo me a mk = (t, r) \<Longrightarrow> same_shape me t"
  using enqueue_shape by (auto simp: sendTo_def split: outcome.splits prod.splits) (metis fst_conv)

lemma sendSubscription_shape: "sendSubscriptionMessage me c a opts = (t, r) \<Longrightarrow> same_shape me t"
  using enqueue_shape
  by (auto simp: sendSubscriptionMessage_def modifyBucket_shape split: outcome.splits prod.splits if_splits) (metis fst_conv)

lemmas send_defs = sendUnsubscribeMessage_def sendPublishMessage_def sendLookupMessage_def
  sendSubscriptionMessageDown_def sendPublishMessageDown_def

lemma steps_keep_wiring:
  assumes "node_step n n'"
  shows "same_wiring (nodeTable n) (nodeTable n')
    \<or> (\<exists>names addresses r. SetUpstreamNames (nodeTable n) names addresses = (nodeTable n', r))"
  using assms
proof (induction rule: node_step.induct)
  case (Process i n e sv n')
  then show ?case using processHead_shape shape_wiring by blast
next
  case (Late j n i m t)
  then have "same_shape (nodeTable n) t" using enqueue_shape [of "nodeTable n" i m] by simp
  then show ?case using shape_wiring by simp
next
  case (Dialing i n)
  then show ?case using updateChannel_wiring by (simp add: dialGuruStart_def)
next
  case (DialFailed i n)
  then show ?case using updateChannel_wiring by (simp add: dialGuruServe_def)
next
  case (Dialed i n t r)
  have "same_wiring (nodeTable n) (updateChannel i (\<lambda>c. dialGuruServe c True) (nodeTable n))"
    using Dialed.hyps(1) by (intro updateChannel_wiring) (simp_all add: dialGuruServe_def)
  then show ?case using same_wiring_trans [OF _ shape_wiring [OF broadcast_shape [OF Dialed.hyps(2)]]] by simp
qed (auto simp: send_defs Heartbeat_def FlushMarkerAndWait_def intro: shape_wiring dest: sendTo_shape sendSubscription_shape broadcast_shape)

section \<open>What a node has been told\<close>

definition wired :: "looker \<Rightarrow> bool" where
  "wired me \<longleftrightarrow> router_ok (router me) \<and> name2channel (router me) = [] \<and> lookDebug me"

text \<open>Gurus keep no channels.\<close>

definition told :: "string list \<Rightarrow> looker \<Rightarrow> bool" where
  "told names me \<longleftrightarrow> wired me \<and> maglevTable (router me) = Some (names, 97)
     \<and> wires me = (if isGuru me then [] else map Some names)"

definition untold :: "looker \<Rightarrow> bool" where
  "untold me \<longleftrightarrow> wired me \<and> channels (router me) = []"

lemma told_wiring: "told names me \<Longrightarrow> same_wiring me t \<Longrightarrow> told names t"
  by (auto simp: told_def wired_def same_wiring_def)

lemma wiring_guru: "same_wiring me t \<Longrightarrow> isGuru t = isGuru me"
  by (simp add: same_wiring_def)

lemma router_names: "router_ok (router me) \<Longrightarrow> wires me = map Some (map (\<lambda>c. upName (the c)) (channels (router me)))"
  by (auto simp: wires_def router_ok_def)

lemma setNames_told:
  assumes "setNames names me = (t, Ret ())" "names \<noteq> []" "untold me \<or> told old me"
  shows "told names t \<and> isGuru t = isGuru me"
proof -
  have w: "router_ok (router me)" "name2channel (router me) = []" "lookDebug me"
    using assms(3) by (auto simp: untold_def told_def wired_def)
  have g: "isGuru me \<longrightarrow> channels (router me) = []"
    using assms(3) by (auto simp: untold_def told_def wires_def)
  let ?old = "map (\<lambda>c. upName (the c)) (channels (router me))"
  note c = SetUpstreamNames_cases [OF assms(1) [unfolded setNames_def] _ w(1,2)]
  show ?thesis
  proof (cases "names = ?old")
    case True
    then have "t = me" "channels (router me) \<noteq> []" using c assms(2) by auto
    moreover have "told old me" using assms(3) calculation(2) by (auto simp: untold_def)
    moreover have "map Some names = map Some old"
      using True calculation(2,3) g router_names [OF w(1)] by (simp add: told_def split: if_splits)
    ultimately show ?thesis by (simp add: inj_map_eq_map)
  next
    case False
    define me' where "me' = me\<lparr>router := changedRouter me names names\<rparr>"
    have "\<exists>cb. broadcast me' cb = (t, Ret ())" using c False by (auto simp: me'_def)
    then have sh: "same_shape me' t" using broadcast_shape by blast
    have ok: "router_ok (router me')"
      using fresh_open [of _ names names] g by (auto simp: me'_def changedRouter_def router_ok_def)
    have n: "wires me' = (if isGuru me then [] else map Some names)"
      using router_names [OF ok] fresh_names [of names names] g
      by (simp add: me'_def changedRouter_def del: map_map)
    have "told names me'"
      using ok n w(3) by (simp add: told_def wired_def) (simp add: me'_def changedRouter_def maglevSize_def)
    then show ?thesis using told_wiring shape_wiring [OF sh] sh by (auto simp: same_shape_def me'_def)
  qed
qed

section \<open>The names of the gurus\<close>

definition guruName :: "string \<Rightarrow> nat \<Rightarrow> string" where
  "guruName suffix i = (if i = 0 then ''guru0'' @ suffix else ''guru'' @ dec_nat i)"

lemma dec_nat_inj: "dec_nat m = dec_nat n \<Longrightarrow> m = n"
  by (drule arg_cong [where f = "digits_value 0"]) (simp add: dec_nat_value)

lemma dec_nat_hd: "0 < n \<Longrightarrow> hd (dec_nat n) \<noteq> CHR ''0''"
proof (induction n rule: dec_nat.induct)
  case (1 n)
  show ?case
  proof (cases "n < 10")
    case True
    then have "byte_val (byte_of (48 + n)) \<noteq> byte_val (CHR ''0'')" using 1(2) by simp
    then have "byte_of (48 + n) \<noteq> CHR ''0''" by metis
    then show ?thesis using True by (simp add: dec_nat.simps [of n])
  next
    case False
    then have "0 < n div 10" by simp
    then show ?thesis using 1(1) [OF False] False by (simp add: dec_nat.simps [of n] hd_append)
  qed
qed

lemma guruName_inj: "inj (guruName suffix)"
proof (rule injI)
  have z: "''0'' @ s \<noteq> dec_nat i" if "0 < i" for s i
    using dec_nat_hd [OF that] by (cases "dec_nat i") auto
  fix i j
  assume "guruName suffix i = guruName suffix j"
  then show "i = j" using z [of i suffix] z [of j suffix] dec_nat_inj
    by (auto simp: guruName_def split: if_splits)
qed

definition guruNames :: "string \<Rightarrow> nat \<Rightarrow> string list" where
  "guruNames suffix n = map (guruName suffix) [0..<n]"

lemma guruNames_distinct: "distinct (guruNames suffix n)"
  by (simp add: guruNames_def distinct_map inj_on_subset [OF guruName_inj])

lemma guruNames_Suc: "guruNames suffix (Suc n) = guruNames suffix n @ [guruName suffix n]"
  by (simp add: guruNames_def)

lemma guruNames_length [simp]: "length (guruNames suffix n) = n"
  by (simp add: guruNames_def)

lemma guruNames_take: "k \<le> n \<Longrightarrow> take k (guruNames suffix n) = guruNames suffix k"
  by (simp add: guruNames_def take_map)

lemma guruNames_Nil [simp]: "guruNames suffix n = [] \<longleftrightarrow> n = 0"
  by (simp add: guruNames_def)

section \<open>The invariant of a cluster\<close>

text \<open>What is required of the goroutines: that they keep to the steps of \<open>steps_keep_wiring\<close>.\<close>

definition settles :: "clusterEnv \<Rightarrow> bool" where
  "settles cenv \<longleftrightarrow> (\<forall>me. same_wiring me (settle cenv me))"

definition all_told :: "string list \<Rightarrow> bool \<Rightarrow> executive list \<Rightarrow> bool" where
  "all_told names guru exs \<longleftrightarrow> (\<forall>ex \<in> set exs. told names (exLooker ex) \<and> isGuru (exLooker ex) = guru)"

definition cluster_ok :: "string \<Rightarrow> ClusterExecutive \<Rightarrow> bool" where
  "cluster_ok suffix ce \<longleftrightarrow> Gurus ce \<noteq> []
     \<and> map exName (Gurus ce) = guruNames suffix (length (Gurus ce))
     \<and> currentGuruList ce = guruNames suffix (length (Gurus ce))
     \<and> all_told (guruNames suffix (length (Gurus ce))) True (Gurus ce)
     \<and> all_told (guruNames suffix (length (Gurus ce))) False (Aides ce)"

lemma cluster_okD:
  assumes "cluster_ok suffix ce"
  shows "Gurus ce \<noteq> []" "map exName (Gurus ce) = guruNames suffix (length (Gurus ce))"
    "currentGuruList ce = guruNames suffix (length (Gurus ce))"
    "all_told (guruNames suffix (length (Gurus ce))) True (Gurus ce)"
    "all_told (guruNames suffix (length (Gurus ce))) False (Aides ce)"
  using assms by (simp_all add: cluster_ok_def)

lemma eachLooker_list:
  "eachLooker f exs = Ret exs' \<Longrightarrow>
    list_all2 (\<lambda>ex ex'. \<exists>me. f (exLooker ex) = (me, Ret ()) \<and> ex' = ex\<lparr>exLooker := me\<rparr>) exs exs'"
proof (induction exs arbitrary: exs')
  case (Cons ex exs)
  obtain me r where f: "f (exLooker ex) = (me, r)" by fastforce
  then show ?case using Cons by (cases r) (auto simp: bind_out_Ret)
qed simp

lemma eachLooker_names:
  assumes "eachLooker f exs = Ret exs'"
  shows "map exName exs' = map exName exs"
proof (rule nth_equalityI)
  note l = eachLooker_list [OF assms]
  show "length (map exName exs') = length (map exName exs)" using list_all2_lengthD [OF l] by simp
  fix i
  assume "i < length (map exName exs')"
  then show "map exName exs' ! i = map exName exs ! i"
    using l by (fastforce simp: list_all2_conv_all_nth)
qed

text \<open>A cluster with the same gurus in a new state.\<close>

lemma cluster_okI:
  assumes "eachLooker f (Gurus ce) = Ret gs" "Gurus ce \<noteq> []"
    and "map exName (Gurus ce) = guruNames suffix (length (Gurus ce))"
    and "currentGuruList ce = guruNames suffix (length (Gurus ce))"
    and "all_told (guruNames suffix (length (Gurus ce))) True gs"
    and "all_told (guruNames suffix (length (Gurus ce))) False as"
  shows "cluster_ok suffix (ce\<lparr>Gurus := gs, Aides := as\<rparr>)"
proof -
  have "length gs = length (Gurus ce)" using eachLooker_names [OF assms(1)] by (rule map_eq_imp_length_eq)
  then show ?thesis using assms eachLooker_names [OF assms(1)] by (auto simp: cluster_ok_def)
qed

lemma eachLooker_told:
  assumes "eachLooker f exs = Ret exs'"
    and "\<And>ex me. ex \<in> set exs \<Longrightarrow> f (exLooker ex) = (me, Ret ()) \<Longrightarrow> told names me \<and> isGuru me = guru"
  shows "all_told names guru exs'"
  unfolding all_told_def
proof
  fix ex'
  assume "ex' \<in> set exs'"
  then obtain i where i: "i < length exs'" "ex' = exs' ! i" by (auto simp: in_set_conv_nth)
  then obtain me where "f (exLooker (exs ! i)) = (me, Ret ())" "exLooker ex' = me" "i < length exs"
    using eachLooker_list [OF assms(1)] by (auto simp: list_all2_conv_all_nth)
  then show "told names (exLooker ex') \<and> isGuru (exLooker ex') = guru" using assms(2) [OF nth_mem] by simp
qed

lemma flush_told:
  assumes "settles cenv" "all_told names guru exs" "eachLooker (flush cenv) exs = Ret exs'"
  shows "all_told names guru exs'"
proof (rule eachLooker_told [OF assms(3)])
  fix ex me
  assume ex: "ex \<in> set exs" and f: "flush cenv (exLooker ex) = (me, Ret ())"
  obtain t where t: "FlushMarkerAndWait (exLooker ex) = (t, Ret ())" "me = settle cenv t"
    using f by (cases "FlushMarkerAndWait (exLooker ex)") (auto simp: flush_def Let_def split: if_splits)
  have "same_wiring (exLooker ex) me"
    using t assms(1) same_wiring_trans [OF shape_wiring [OF broadcast_shape]]
    by (auto simp: FlushMarkerAndWait_def settles_def)
  then show "told names me \<and> isGuru me = guru"
    using assms(2) ex told_wiring by (auto simp: all_told_def same_wiring_def)
qed

lemma flushAll_ok:
  assumes "settles cenv" "cluster_ok suffix ce" "flushAll cenv ce = Ret ce'"
  shows "cluster_ok suffix ce'"
proof -
  obtain gs as where e: "eachLooker (flush cenv) (Gurus ce) = Ret gs" "eachLooker (flush cenv) (Aides ce) = Ret as"
    "ce' = ce\<lparr>Gurus := gs, Aides := as\<rparr>"
    using assms(3) by (auto simp: flushAll_def bind_out_Ret)
  show ?thesis
    unfolding e(3)
    by (intro cluster_okI [OF e(1)] flush_told [OF assms(1) _ e(1)] flush_told [OF assms(1) _ e(2)]
        cluster_okD [OF assms(2)])
qed

lemma waitRound_ok:
  assumes "settles cenv" "cluster_ok suffix ce" "waitRound cenv ce = Ret ce'"
  shows "cluster_ok suffix ce'"
proof -
  obtain gs as where e: "eachLooker (flush cenv) (Gurus ce) = Ret gs" "eachLooker (flush cenv) (Aides ce) = Ret as"
    "ce' = ce\<lparr>Gurus := gs, Aides := as\<rparr>"
    using assms(3) by (auto simp: waitRound_def bind_out_Ret)
  show ?thesis
    unfolding e(3)
    by (intro cluster_okI [OF e(1)] flush_told [OF assms(1) _ e(1)] flush_told [OF assms(1) _ e(2)]
        cluster_okD [OF assms(2)])
qed

lemma WaitForActions_ok:
  assumes "settles cenv" "cluster_ok suffix ce" "WaitForActions cenv ce = Ret ce'"
  shows "cluster_ok suffix ce'"
proof -
  obtain c1 c2 where "waitRound cenv ce = Ret c1" "waitRound cenv c1 = Ret c2" "waitRound cenv c2 = Ret ce'"
    using assms(3) by (auto simp: WaitForActions_def bind_out_Ret)
  then show ?thesis using assms(2) waitRound_ok [OF assms(1)] by meson
qed

definition tellable :: "bool \<Rightarrow> executive list \<Rightarrow> bool" where
  "tellable guru exs \<longleftrightarrow>
     (\<forall>ex \<in> set exs. (untold (exLooker ex) \<or> (\<exists>old. told old (exLooker ex))) \<and> isGuru (exLooker ex) = guru)"

lemma tell_each:
  assumes "eachLooker (setNames names) exs = Ret exs'" "tellable guru exs" "names \<noteq> []"
  shows "all_told names guru exs'"
proof (rule eachLooker_told [OF assms(1)])
  fix ex me
  assume ex: "ex \<in> set exs" and f: "setNames names (exLooker ex) = (me, Ret ())"
  then show "told names me \<and> isGuru me = guru"
    using assms(2) setNames_told [OF f assms(3)] by (fastforce simp: tellable_def)
qed

lemma told_tellable: "all_told names guru exs \<Longrightarrow> tellable guru exs"
  by (auto simp: all_told_def tellable_def)

lemma new_tellable: "untold (exLooker (NewExecutive cenv 100 nm guru)) \<and> isGuru (exLooker (NewExecutive cenv 100 nm guru)) = guru"
  by (simp add: NewExecutive_def NewLookupTable_def untold_def wired_def router_ok_def)

lemma renameAll_ok:
  assumes "renameAll ce = Ret ce'" "tellable True (Gurus ce)" "tellable False (Aides ce)" "Gurus ce \<noteq> []"
    and "map exName (Gurus ce) = guruNames suffix (length (Gurus ce))"
    and "currentGuruList ce = guruNames suffix (length (Gurus ce))"
  shows "cluster_ok suffix ce'"
proof -
  have n: "currentGuruList ce \<noteq> []" using assms(4,6) by simp
  obtain gs as where e: "eachLooker (setNames (currentGuruList ce)) (Gurus ce) = Ret gs"
    "eachLooker (setNames (currentGuruList ce)) (Aides ce) = Ret as" "ce' = ce\<lparr>Gurus := gs, Aides := as\<rparr>"
    using assms(1) by (auto simp: renameAll_def bind_out_Ret)
  show ?thesis
    using tell_each [OF e(1) assms(2) n] tell_each [OF e(2) assms(3) n] assms(4-6) unfolding e(3)
    by (intro cluster_okI [OF e(1)]) simp_all
qed

section \<open>Operate\<close>

lemma tellable_subset: "tellable guru exs \<Longrightarrow> set exs' \<subseteq> set exs \<Longrightarrow> tellable guru exs'"
  by (auto simp: tellable_def)

lemma all_told_subset: "all_told names guru exs \<Longrightarrow> set exs' \<subseteq> set exs \<Longrightarrow> all_told names guru exs'"
  by (auto simp: all_told_def)

lemma tellable_new: "tellable guru exs \<Longrightarrow> tellable guru (exs @ [NewExecutive cenv 100 nm guru])"
  using new_tellable by (auto simp: tellable_def)

lemma all_told_append: "all_told names guru (xs @ ys) \<longleftrightarrow> all_told names guru xs \<and> all_told names guru ys"
  by (auto simp: all_told_def)

lemma exName_new [simp]: "exName (NewExecutive cenv sz nm guru) = nm"
  by (simp add: NewExecutive_def)

lemma addAide_ok:
  assumes "settles cenv" "cluster_ok suffix ce" "addAide cenv ce = Ret ce'"
  shows "cluster_ok suffix ce' \<and> length (Gurus ce') = length (Gurus ce)"
proof -
  let ?new = "[NewExecutive cenv 100 (''aide'' @ dec_nat (length (Aides ce))) False]"
  obtain as where as: "eachLooker (setNames (currentGuruList ce)) ?new = Ret as"
    "flushAll cenv (ce\<lparr>Aides := Aides ce @ as\<rparr>) = Ret ce'"
    using assms(3) by (auto simp: addAide_def bind_out_Ret Let_def split: if_splits)
  have "tellable False ?new" using tellable_new [of False "[]"] by (simp add: tellable_def)
  then have "all_told (currentGuruList ce) False as"
    using cluster_okD(1,3) [OF assms(2)] by (intro tell_each [OF as(1)]) auto
  then have "cluster_ok suffix (ce\<lparr>Aides := Aides ce @ as\<rparr>)"
    using assms(2) by (simp add: cluster_ok_def all_told_append)
  then have "cluster_ok suffix ce'" by (rule flushAll_ok [OF assms(1) _ as(2)])
  moreover have "length (Gurus ce') = length (Gurus ce)"
    using as(2) eachLooker_list by (auto simp: flushAll_def bind_out_Ret dest!: eachLooker_list list_all2_lengthD)
  ultimately show ?thesis ..
qed

lemma removeAide_ok:
  assumes "settles cenv" "cluster_ok suffix ce" "removeAide cenv astats name ce = Ret (ce', effs)"
  shows "cluster_ok suffix ce' \<and> length (Gurus ce') = length (Gurus ce)"
proof -
  define i where "i = indexNamed name astats"
  have i: "i < length (Aides ce)"
    "flushAll cenv (ce\<lparr>Aides := butlast ((Aides ce)[i := last (Aides ce)])\<rparr>) = Ret ce'"
    using assms(3) by (auto simp: removeAide_def bind_out_Ret Let_def i_def split: if_splits)
  have "set (butlast ((Aides ce)[i := last (Aides ce)])) \<subseteq> insert (last (Aides ce)) (set (Aides ce))"
    using set_update_subset_insert [of "Aides ce" i] in_set_butlastD by fastforce
  also have "\<dots> = set (Aides ce)" using i(1) last_in_set [of "Aides ce"] by (cases "Aides ce = []") auto
  finally have "cluster_ok suffix (ce\<lparr>Aides := butlast ((Aides ce)[i := last (Aides ce)])\<rparr>)"
    using assms(2) all_told_subset [OF cluster_okD(5) [OF assms(2)]] by (simp add: cluster_ok_def)
  then have "cluster_ok suffix ce'" by (rule flushAll_ok [OF assms(1) _ i(2)])
  moreover have "length (Gurus ce') = length (Gurus ce)"
    using i(2) eachLooker_list by (auto simp: flushAll_def bind_out_Ret dest!: eachLooker_list list_all2_lengthD)
  ultimately show ?thesis ..
qed

lemma addGuru_ok:
  assumes "settles cenv" "cluster_ok suffix ce" "addGuru cenv ce = Ret (ce', effs)"
  shows "cluster_ok suffix ce'"
proof -
  let ?n = "length (Gurus ce)" let ?name = "''guru'' @ dec_nat (length (Gurus ce))"
  let ?ce = "ce\<lparr>Gurus := Gurus ce @ [NewExecutive cenv 100 ?name True], currentGuruList := currentGuruList ce @ [?name]\<rparr>"
  have n: "guruName suffix ?n = ?name" using assms(2) by (simp add: guruName_def cluster_ok_def)
  obtain ce1 where c: "renameAll ?ce = Ret ce1" "flushAll cenv ce1 = Ret ce'"
    using assms(3) by (auto simp: addGuru_def bind_out_Ret Let_def split: if_splits)
  have "tellable True (Gurus ?ce)" "tellable False (Aides ?ce)"
    using assms(2) tellable_new told_tellable by (auto simp: cluster_ok_def)
  then have "cluster_ok suffix ce1"
    using assms(2) n by (intro renameAll_ok [OF c(1)]) (simp_all add: cluster_ok_def guruNames_Suc)
  then show ?thesis by (rule flushAll_ok [OF assms(1) _ c(2)])
qed

lemma removeGuru_ok:
  assumes "settles cenv" "cluster_ok suffix ce" "removeGuru cenv ce = Ret (ce', effs)" "1 < length (Gurus ce)"
  shows "cluster_ok suffix ce'"
proof -
  let ?k = "length (Gurus ce) - 1"
  let ?ce = "ce\<lparr>Gurus := butlast (Gurus ce), currentGuruList := take ?k (currentGuruList ce)\<rparr>"
  obtain ce1 where c: "renameAll ?ce = Ret ce1" "flushAll cenv ce1 = Ret ce'"
    using assms(3) by (auto simp: removeGuru_def bind_out_Ret Let_def split: if_splits)
  have ok: "map exName (Gurus ce) = guruNames suffix (length (Gurus ce))"
    "currentGuruList ce = guruNames suffix (length (Gurus ce))"
    "tellable True (Gurus ce)" "tellable False (Aides ce)"
    using assms(2) told_tellable by (auto simp: cluster_ok_def)
  have "tellable True (Gurus ?ce)" using ok(3) by (rule tellable_subset) (auto dest: in_set_butlastD)
  moreover have "map exName (Gurus ?ce) = guruNames suffix (length (Gurus ?ce))"
    using ok(1) by (simp add: butlast_conv_take take_map [symmetric] guruNames_take)
  moreover have "currentGuruList ?ce = guruNames suffix (length (Gurus ?ce))"
    using ok(2) by (simp add: guruNames_take)
  moreover have "Gurus ?ce \<noteq> []" using assms(4) by (cases "Gurus ce" rule: rev_cases) auto
  ultimately have "cluster_ok suffix ce1" using ok(4) by (intro renameAll_ok [OF c(1)]) simp_all
  then show ?thesis by (rule flushAll_ok [OF assms(1) _ c(2)])
qed

lemma Operate_ok:
  assumes "settles cenv" "cluster_ok suffix ce" "Operate cenv ce = Ret (ce', effs)"
  shows "cluster_ok suffix ce'"
proof -
  define astats gstats where "astats = map (GetExecutiveStats (ceNow cenv)) (Aides ce)"
    and "gstats = map (GetExecutiveStats (ceNow cenv)) (Gurus ce)"
  define ex where "ex = CalcExpansionDesired astats gstats"
  obtain ce1 e1 e2 where o: "operateAides cenv astats ex ce = Ret (ce1, e1)" "operateGurus cenv ex ce1 = Ret (ce', e2)"
    using assms(3) by (auto simp: Operate_def bind_out_Ret Let_def simp flip: astats_def gstats_def ex_def split: prod.splits)
  have ok: "cluster_ok suffix ce1 \<and> length (Gurus ce1) = length (Gurus ce)"
    using o(1) addAide_ok [OF assms(1,2)] removeAide_ok [OF assms(1,2)] assms(2)
    by (auto simp: operateAides_def bind_out_Ret split: if_splits)
  have "1 < length (Gurus ce)" if "ChangeGurus ex < 0"
    using that by (simp add: ex_def CalcExpansionDesired_def Let_def canShrink_def gstats_def split: if_splits)
  then consider "addGuru cenv ce1 = Ret (ce', e2)" | "removeGuru cenv ce1 = Ret (ce', e2)" "1 < length (Gurus ce1)" | "ce' = ce1"
    using o(2) ok by (auto simp: operateGurus_def split: if_splits)
  then show ?thesis
  proof cases
    case 1
    then show ?thesis using ok addGuru_ok [OF assms(1)] by blast
  next
    case 2
    then show ?thesis using ok removeGuru_ok [OF assms(1)] by blast
  qed (use ok in simp)
qed

lemma MakeSimplestCluster_ok:
  assumes "settles cenv" "MakeSimplestCluster cenv n suffix = Ret ce"
  shows "cluster_ok suffix ce"
proof -
  define ce0 where "ce0 = \<lparr>Aides = map (\<lambda>i. (NewExecutive cenv 100 (''aide'' @ dec_nat i @ suffix) False)\<lparr>configHasCe := True\<rparr>) [0..<n],
    Gurus = [(NewExecutive cenv 100 (''guru0'' @ suffix) True)\<lparr>configHasCe := True\<rparr>],
    currentGuruList = [''guru0'' @ suffix], currentPort = 0\<rparr>"
  obtain ce1 where c: "renameAll ce0 = Ret ce1" "WaitForActions cenv ce1 = Ret ce"
    using assms(2) by (auto simp: MakeSimplestCluster_def Let_def bind_out_Ret ce0_def)
  have "cluster_ok suffix ce1"
    using new_tellable
    by (intro renameAll_ok [OF c(1)]) (auto simp: ce0_def tellable_def guruNames_def guruName_def)
  then show ?thesis by (rule WaitForActions_ok [OF assms(1) _ c(2)])
qed

text \<open>Between two calls the nodes work: their tables change as \<open>same_wiring\<close> allows, contacts come and go.\<close>

definition worked :: "executive \<Rightarrow> executive \<Rightarrow> bool" where
  "worked ex ex' \<longleftrightarrow> exName ex' = exName ex \<and> same_wiring (exLooker ex) (exLooker ex')"

lemma worked_told:
  assumes "list_all2 worked exs exs'" "all_told names guru exs"
  shows "all_told names guru exs' \<and> map exName exs' = map exName exs"
proof
  have l: "length exs' = length exs" using list_all2_lengthD [OF assms(1)] by simp
  have w: "worked (exs ! i) (exs' ! i)" if "i < length exs" for i
    using that assms(1) by (simp add: list_all2_conv_all_nth)
  show "map exName exs' = map exName exs" using l w by (auto simp: worked_def intro: nth_equalityI)
  have "told names (exLooker (exs' ! i)) \<and> isGuru (exLooker (exs' ! i)) = guru" if "i < length exs" for i
    using w [OF that] assms(2) nth_mem [OF that] told_wiring wiring_guru unfolding all_told_def worked_def by metis
  then show "all_told names guru exs'" using l by (auto simp: all_told_def in_set_conv_nth)
qed

inductive clusterReached :: "string \<Rightarrow> ClusterExecutive \<Rightarrow> bool" for suffix where
  Made: "settles cenv \<Longrightarrow> MakeSimplestCluster cenv n suffix = Ret ce \<Longrightarrow> clusterReached suffix ce"
| Operated: "clusterReached suffix ce \<Longrightarrow> settles cenv \<Longrightarrow> Operate cenv ce = Ret (ce', effs) \<Longrightarrow>
    clusterReached suffix ce'"
| Worked: "clusterReached suffix ce \<Longrightarrow> list_all2 worked (Aides ce) as \<Longrightarrow> list_all2 worked (Gurus ce) gs \<Longrightarrow>
    clusterReached suffix (ce\<lparr>Aides := as, Gurus := gs\<rparr>)"

lemma clusterReached_ok: "clusterReached suffix ce \<Longrightarrow> cluster_ok suffix ce"
proof (induction rule: clusterReached.induct)
  case (Made cenv n ce)
  then show ?case by (rule MakeSimplestCluster_ok)
next
  case (Operated ce cenv ce' effs)
  then show ?case using Operate_ok by blast
next
  case (Worked ce as gs)
  have l: "length gs = length (Gurus ce)" using Worked.hyps(3) list_all2_lengthD by metis
  then have "gs \<noteq> []" using Worked.IH by (auto simp: cluster_ok_def)
  then show ?case
    using cluster_okD [OF Worked.IH] worked_told [OF Worked.hyps(2) cluster_okD(5) [OF Worked.IH]]
      worked_told [OF Worked.hyps(3) cluster_okD(4) [OF Worked.IH]] l by (simp add: cluster_ok_def)
qed

end
