(* ===== verification/FloatBounds.thy ===== *)
theory FloatBounds
  imports Float64
begin

text \<open>
  How far \<open>float64\<close> is from exact arithmetic: the error of rounding is a relative one of \<open>2 ^ -53\<close>, and an
  absolute one of \<open>2 ^ -1075\<close> for numbers near 0. \<open>at_least x b\<close> says that the float \<open>x\<close> is not below
  the rational \<open>b\<close>; quotients and products with an integer keep such bounds up to one in a thousand,
  which is all that the decisions on the size of the cluster need.
\<close>

section \<open>The error of rounding\<close>

lemma pow2i_diff: "pow2i (int m - int n) = 2 ^ m / 2 ^ n"
proof (cases "n \<le> m")
  case True
  then have "(2 :: rat) ^ m = 2 ^ (m - n) * 2 ^ n" by (simp flip: power_add)
  then show ?thesis using True by (simp add: pow2i_def nat_diff_distrib')
next
  case False
  then have "(2 :: rat) ^ n = 2 ^ (n - m) * 2 ^ m" by (simp flip: power_add)
  then show ?thesis using False by (simp add: pow2i_def nat_diff_distrib')
qed

lemma pow2i_shift: "pow2i (k - int n) = pow2i k / 2 ^ n"
proof -
  obtain a b where k: "k = int a - int b" by (metis int_diff_cases)
  then have "k - int n = int a - int (b + n)" by simp
  then show ?thesis by (simp only: k pow2i_diff) (simp add: power_add)
qed

lemma ilog2_below:
  assumes "0 < r"
  shows "pow2i (ilog2 r) \<le> r"
proof -
  obtain p q where pq: "quotient_of r = (p, q)" by fastforce
  have r: "r = of_int p / of_int q" "0 < q" using pq quotient_of_div quotient_of_denom_pos by blast+
  then have p: "0 < p" using assms by (simp add: zero_less_divide_iff)
  define a b where "a = floorlog 2 (nat p)" and "b = floorlog 2 (nat q)"
  have a: "0 < a" "2 ^ (a - 1) \<le> nat p" and b: "nat q < 2 ^ b"
    using floorlog_bounds [of "nat p" 2] floorlog_bounds [of "nat q" 2] p r(2)
    by (auto simp: a_def b_def floorlog_def)
  have "int (2 ^ (a - 1)) \<le> p" "q \<le> int (2 ^ b)" using a(2) b p r(2) by linarith+
  then have "(of_int (int (2 ^ (a - 1))) :: rat) \<le> of_int p" "(of_int q :: rat) \<le> of_int (int (2 ^ b))"
    by (simp_all only: of_int_le_iff)
  then have "(2 ^ (a - 1) :: rat) / 2 ^ b \<le> of_int p / of_int q"
    using r(2) p by (intro frac_le) simp_all
  moreover have "pow2i (int a - int b - 1) = 2 ^ (a - 1) / 2 ^ b"
    using a(1) pow2i_diff [of "a - 1" b] by (simp add: algebra_simps of_nat_diff)
  ultimately have "pow2i (int a - int b - 1) \<le> r" by (simp add: r(1))
  then show ?thesis by (simp add: ilog2_def pq Let_def flip: a_def b_def)
qed

lemma round_mag_nonneg [simp]: "0 \<le> round_mag r"
proof (cases "r \<le> 0")
  case False
  then have "0 \<le> rne (r / pow2i e)" for e
    using rne_mono_floor [of "r / pow2i e"] zero_le_floor [of "r / pow2i e"] by (smt (verit) divide_nonneg_pos pow2i_pos not_le less_imp_le)
  then show ?thesis by (simp add: round_mag_def Let_def less_imp_le)
qed (simp add: round_mag_def)

lemma round_near:
  assumes "0 < r"
  shows "\<bar>round_mag r - r\<bar> \<le> r / 2 ^ 53 + 1 / 2 ^ 1075"
proof -
  define e where "e = max (ilog2 r - 52) (- 1074)"
  have r: "round_mag r = of_int (rne (r / pow2i e)) * pow2i e"
    using assms by (simp add: round_mag_def e_def Let_def)
  have "round_mag r - r = (of_int (rne (r / pow2i e)) - r / pow2i e) * pow2i e"
    by (simp only: r left_diff_distrib pow2i_cancel)
  then have "\<bar>round_mag r - r\<bar> = \<bar>of_int (rne (r / pow2i e)) - r / pow2i e\<bar> * pow2i e"
    using pow2i_pos [of e] by (simp only: abs_mult abs_of_pos)
  also have "\<dots> \<le> 1 / 2 * pow2i e"
    using rne_near [of "r / pow2i e"] by (intro mult_right_mono) (simp_all add: less_imp_le)
  also have "pow2i e \<le> pow2i (ilog2 r - int 52) + pow2i (0 - int 1074)"
    using less_imp_le [OF pow2i_pos [of "ilog2 r - 52"]] less_imp_le [OF pow2i_pos [of "- 1074"]]
    by (auto simp: e_def max_def)
  also have "\<dots> = pow2i (ilog2 r) / 2 ^ 52 + 1 / 2 ^ 1074"
    by (simp only: pow2i_shift) (simp add: pow2i_def)
  also have "\<dots> \<le> r / 2 ^ 52 + 1 / 2 ^ 1074"
    using ilog2_below [OF assms] by (simp add: divide_right_mono)
  finally show ?thesis by simp
qed

lemma round_lower: "1 / 4 \<le> r \<Longrightarrow> r * (999 / 1000) \<le> round_mag r"
proof -
  assume r: "1 / 4 \<le> r"
  have "r / 2 ^ 53 + 1 / 2 ^ 1075 \<le> r * (1 / 2000) + (1 / 4) * (1 / 2000)"
    using r by (intro add_mono) simp_all
  also have "\<dots> \<le> r / 1000" using r by simp
  finally show ?thesis using round_near [of r] r by (simp add: abs_le_iff)
qed

lemma round_upper: "0 < r \<Longrightarrow> round_mag r \<le> r * (1001 / 1000) + 1 / 1000"
proof -
  assume r: "0 < r"
  have "r / 2 ^ 53 + 1 / 2 ^ 1075 \<le> r / 1000 + 1 / 1000"
    using r by (intro add_mono) simp_all
  then show ?thesis using round_near [OF r] by (simp add: abs_le_iff)
qed

section \<open>Lower bounds\<close>

definition f_ok :: "f64 \<Rightarrow> bool" where
  "f_ok x = (case x of Fin s r \<Rightarrow> 0 \<le> r | _ \<Rightarrow> True)"

definition at_least :: "f64 \<Rightarrow> rat \<Rightarrow> bool" where
  "at_least x b = (case x of NaN \<Rightarrow> False | Infty neg \<Rightarrow> \<not> neg | Fin s r \<Rightarrow> b \<le> fval (Fin s r))"

lemma f_ok_simps [simp]: "f_ok NaN" "f_ok (Infty s)" "f_ok (Fin s r) = (0 \<le> r)"
  by (simp_all add: f_ok_def)

lemma at_least_simps [simp]:
  "\<not> at_least NaN b" "at_least (Infty s) b = (\<not> s)" "at_least (Fin s r) b = (b \<le> (if s then - r else r))"
  by (simp_all add: at_least_def)

lemma f_ok_zero [simp]: "f_ok f_zero"
  by (simp add: f_zero_def)

lemma f_ok_round [simp]: "f_ok (round64 s r)"
  by (simp add: round64_def Let_def)

lemma f_ok_exact [simp]: "f_ok (of_exact s x)"
  by (simp add: of_exact_def)

lemma f_ok_fadd [simp]: "f_ok (fadd x y)"
  by (cases "(x, y)" rule: fadd.cases) simp_all

lemma f_ok_fdiv: "f_ok x \<Longrightarrow> f_ok (fdiv x y)"
  by (cases "(x, y)" rule: fdiv.cases) simp_all

lemma f_ok_fmul: "f_ok x \<Longrightarrow> f_ok (fmul x y)"
  by (cases "(x, y)" rule: fmul.cases) simp_all

lemma at_least_mono: "at_least x b \<Longrightarrow> b' \<le> b \<Longrightarrow> at_least x b'"
  by (cases x) auto

lemma at_least_not_less: "at_least x b \<Longrightarrow> c \<le> b \<Longrightarrow> \<not> flt x (Fin False c)"
  by (cases x) auto

lemma at_least_round: "1 / 4 \<le> b \<Longrightarrow> b \<le> r \<Longrightarrow> at_least (round64 False r) (b * (999 / 1000))"
  using round_lower [of r] by (simp add: round64_def Let_def)

lemma f_int_nat:
  assumes "0 < c" "c < 2 ^ 53"
  shows "f_int c = Fin False (of_int c)"
  using assms f_int_exact [of c] by (simp add: exact_int_def)

lemma fdiv_at_least:
  assumes "f_ok x" "at_least x b" "0 < c" "c < 2 ^ 53" "1 / 4 \<le> b / of_int c"
  shows "at_least (fdiv x (f_int c)) (b / of_int c * (999 / 1000))"
proof (cases x)
  case (Fin s r)
  have c: "(0 :: rat) < of_int c" using assms(3) by simp
  have "1 / 4 * of_int c \<le> b" using assms(5) c by (simp add: pos_le_divide_eq)
  then have b: "0 < b" using c by linarith
  then have s: "\<not> s" "b \<le> r" using assms(1,2) Fin by (auto split: if_splits)
  have d: "b / of_int c \<le> r / of_int c" using s(2) c by (simp add: divide_right_mono)
  have "fdiv x (f_int c) = round64 False (r / of_int c)"
    using Fin s b assms(3) by (simp add: f_int_nat [OF assms(3,4)])
  then show ?thesis using at_least_round [OF assms(5) d] by simp
qed (use assms(2) f_int_nat [OF assms(3,4)] in simp_all)

lemma fmul_at_least:
  assumes "f_ok x" "at_least x b" "0 < b" "0 < c" "c < 2 ^ 53" "1 / 4 \<le> b * of_int c"
  shows "at_least (fmul x (f_int c)) (b * of_int c * (999 / 1000))"
proof (cases x)
  case (Fin s r)
  have c: "(0 :: rat) < of_int c" using assms(4) by simp
  then have s: "\<not> s" "b \<le> r" using assms(1-3) Fin by (auto split: if_splits)
  have d: "b * of_int c \<le> r * of_int c" using s(2) c by (simp add: mult_right_mono)
  have "fmul x (f_int c) = round64 False (r * of_int c)"
    using Fin s assms(3,4) by (simp add: f_int_nat [OF assms(4,5)])
  then show ?thesis using at_least_round [OF assms(6) d] by simp
qed (use assms(2,4) f_int_nat [OF assms(4,5)] in simp_all)

text \<open>The converse: a quotient that is large has a large dividend.\<close>

lemma fdiv_at_leastD:
  assumes "f_ok x" "at_least (fdiv x (f_int c)) (899 / 1000)" "0 < c" "c < 2 ^ 53"
  shows "at_least x (89 / 100 * of_int c)"
proof (cases x)
  case (Fin s r)
  have c: "(0 :: rat) < of_int c" using assms(3) by simp
  have r: "0 < r" using assms Fin by (cases "r = 0") (simp_all add: f_int_nat [OF assms(3,4)] split: if_splits)
  then have q: "0 < r / of_int c" using c by simp
  have d: "fdiv x (f_int c) = round64 s (r / of_int c)"
    using Fin r assms(3) by (simp add: f_int_nat [OF assms(3,4)])
  have s: "\<not> s"
  proof
    assume "s"
    then have "899 / 1000 \<le> - round_mag (r / of_int c)"
      using assms(2) d by (simp add: round64_def Let_def split: if_splits)
    then show False using round_mag_nonneg [of "r / of_int c"] by linarith
  qed
  have "(899 / 1000 :: rat) \<le> 2 ^ 1024" by simp
  then have "899 / 1000 \<le> round_mag (r / of_int c)"
    using assms(2) d s by (auto simp: round64_def Let_def split: if_splits dest: order_trans)
  then have "899 / 1000 \<le> r / of_int c * (1001 / 1000) + 1 / 1000"
    using round_upper [OF q] by linarith
  then have "89 / 100 \<le> r / of_int c" by simp
  then have "89 / 100 * of_int c \<le> r" using c by (simp add: pos_le_divide_eq)
  then show ?thesis using Fin s by simp
qed (use assms(2) f_int_nat [OF assms(3,4)] in \<open>simp_all split: if_splits\<close>)

end
