(* ===== verification/Scaling.thy ===== *)
theory Scaling
  imports Membership FloatBounds
begin

text \<open>
  Properties of the cluster executive: how the decision to grow or to shrink depends on the load, and
  what \<open>Operate\<close> keeps of a cluster.
\<close>

section \<open>Loads in float64\<close>

lemma f_ok_fold: "f_ok a \<Longrightarrow> f_ok (fold (\<lambda>ex sm. fadd sm (f ex)) exs a)"
  by (induction exs arbitrary: a) simp_all

lemma f_ok_total [simp]: "f_ok (total f exs)"
  by (simp add: total_def f_ok_fold)

lemma f_ok_mean [simp]: "f_ok (mean f exs)"
  by (simp add: mean_def f_ok_fdiv)

lemma f_ok_larger: "f_ok x \<Longrightarrow> f_ok y \<Longrightarrow> f_ok (larger x y)"
  by (simp add: larger_def)

lemma zero_load: "exs \<noteq> [] \<Longrightarrow> length exs < 2 ^ 53 \<Longrightarrow> fdiv f_zero (flen exs) = f_zero"
  using f_int_nat [of "int (length exs)"] by (simp add: flen_def f_zero_def)

lemma larger_left: "at_least x b \<Longrightarrow> at_least (larger x y) b"
  by (cases x; cases y) (auto simp: larger_def split: if_splits)

lemma larger_right: "at_least y b \<Longrightarrow> x \<noteq> NaN \<Longrightarrow> at_least (larger x y) b"
  by (cases x; cases y) (auto simp: larger_def split: if_splits)

lemma larger_not_NaN [simp]: "larger x y = NaN \<longleftrightarrow> x = NaN"
  by (cases x; cases y) (auto simp: larger_def split: if_splits)

lemma larger_at_leastD: "at_least (larger x y) b \<Longrightarrow> at_least x b \<or> at_least y b"
  by (simp add: larger_def split: if_splits)

lemma full_at_least: "isFull mx \<Longrightarrow> at_least mx (899 / 1000)"
proof -
  assume f: "isFull mx"
  have r: "round_mag (9 / 10) < 2 ^ 1024" "899 / 1000 \<le> round_mag (9 / 10)"
    using round_upper [of "9 / 10"] round_lower [of "9 / 10"] by simp_all
  have n: "of_exact False (9 / 10) = Fin False (round_mag (9 / 10))"
    using r by (simp add: of_exact_def round64_def Let_def)
  show ?thesis using f r by (cases mx) (auto simp: isFull_def n)
qed

lemma at_least_stays: "at_least x b \<Longrightarrow> 81 / 100 \<le> b \<Longrightarrow> \<not> flt x (of_exact False (8 / 10))"
proof -
  assume x: "at_least x b" "81 / 100 \<le> b"
  have r: "round_mag (8 / 10) < 2 ^ 1024" "round_mag (8 / 10) \<le> 81 / 100"
    using round_upper [of "8 / 10"] by simp_all
  have n: "of_exact False (8 / 10) = Fin False (round_mag (8 / 10))"
    using r by (simp add: of_exact_def round64_def Let_def)
  show ?thesis using at_least_not_less [OF x(1), of "round_mag (8 / 10)"] x(2) r n by simp
qed

text \<open>A total that fills \<open>m\<close> nodes to nine tenths still fills \<open>m + 1\<close> nodes enough to keep them.\<close>

lemma mean_one_more:
  assumes "at_least (mean f as) (899 / 1000)" "total f bs = total f as" "as \<noteq> []"
    and "length bs = Suc (length as)" "length bs < 2 ^ 53"
  shows "at_least (mean f bs) (88 / 100 * of_nat (length as) / of_nat (length bs))"
proof -
  let ?m = "int (length as)" and ?n = "int (length bs)"
  have m: "0 < ?m" "?m < 2 ^ 53" and n: "0 < ?n" "?n < 2 ^ 53" using assms(3-5) by (auto simp: Suc_leI)
  have q: "1 / 2 \<le> (of_int ?m / of_int ?n :: rat)" using assms(3,4) by (simp add: field_simps Suc_leI)
  have t: "at_least (total f bs) (89 / 100 * of_int ?m)"
    using fdiv_at_leastD [of "total f as" ?m] assms(1,2) m by (simp add: mean_def flen_def)
  have "at_least (mean f bs) (89 / 100 * of_int ?m / of_int ?n * (999 / 1000))"
    using fdiv_at_least [OF _ t n] q by (simp add: mean_def flen_def)
  then show ?thesis
  proof (rule at_least_mono)
    have "(88 / 100 :: rat) * (of_int ?m / of_int ?n) \<le> 89 / 100 * 999 / 1000 * (of_int ?m / of_int ?n)"
      using q by (intro mult_right_mono) simp_all
    then show "88 / 100 * rat_of_nat (length as) / rat_of_nat (length bs)
        \<le> 89 / 100 * of_int ?m / of_int ?n * (999 / 1000)" by simp
  qed
qed

lemma no_shrink:
  assumes "at_least x (88 / 100 * of_nat m / of_nat (Suc m))" "f_ok x" "0 < m" "Suc m < 2 ^ 53"
  shows "\<not> canShrink x (Suc m)"
proof -
  let ?b = "88 / 100 * of_nat m / of_nat (Suc m) :: rat"
  have "?b * of_nat (Suc m) = 88 / 100 * of_nat m"
    by (simp del: of_nat_Suc)
  then have b: "?b * of_int (int (Suc m)) = 88 / 100 * of_nat m" by (simp only: of_int_of_nat_eq)
  have m: "1 \<le> (of_nat m :: rat)" using assms(3) by (simp add: Suc_leI)
  have "at_least (fmul x (f_int (int (Suc m)))) (88 / 100 * of_nat m * (999 / 1000))"
    using fmul_at_least [OF assms(2,1), of "int (Suc m)"] assms(3,4) m unfolding b by simp
  then have "at_least (fdiv (fmul x (f_int (int (Suc m)))) (f_int (int m)))
      (88 / 100 * of_nat m * (999 / 1000) / of_int (int m) * (999 / 1000))"
    using assms(3,4) by (intro fdiv_at_least f_ok_fmul assms(2)) simp_all
  then show ?thesis using at_least_stays assms(3) by (simp add: canShrink_def)
qed

definition same_totals :: "(ExecutiveStats \<Rightarrow> f64) list \<Rightarrow> ExecutiveStats list \<Rightarrow> ExecutiveStats list \<Rightarrow> bool" where
  "same_totals fs as bs = (\<forall>f \<in> set fs. total f as = total f bs)"

lemma aides_do_not_swing:
  assumes "isFull (aideLoad as)" "same_totals [Buffers, \<lambda>ex. Connections (exStats ex)] as bs"
    and "length bs = Suc (length as)" "length bs < 2 ^ 53"
  shows "\<not> canShrink (aideLoad bs) (length bs)"
proof (cases "as = []")
  case True
  then have "aideLoad as = NaN" by (simp add: aideLoad_def flen_def f_zero_def larger_def)
  then show ?thesis using assms(1) by (simp add: isFull_def)
next
  case False
  have z: "fdiv f_zero (flen as) = f_zero" "fdiv f_zero (flen bs) = f_zero"
    using False assms(3,4) by (auto intro!: zero_load)
  have nz: "f_zero \<noteq> NaN" "\<not> at_least f_zero (899 / 1000)" by (simp_all add: f_zero_def)
  have t: "total Buffers bs = total Buffers as"
    "total (\<lambda>ex. Connections (exStats ex)) bs = total (\<lambda>ex. Connections (exStats ex)) as"
    using assms(2) by (simp_all add: same_totals_def)
  let ?b = "88 / 100 * of_nat (length as) / of_nat (length bs) :: rat"
  consider "at_least (mean Buffers as) (899 / 1000)" | "at_least (mean (\<lambda>ex. Connections (exStats ex)) as) (899 / 1000)"
    using full_at_least [OF assms(1)] nz(2) by (auto simp: aideLoad_def z dest!: larger_at_leastD)
  then have "at_least (aideLoad bs) ?b"
  proof cases
    case 1
    then show ?thesis using mean_one_more [OF _ t(1) False assms(3,4)] nz(1)
      by (simp add: aideLoad_def z larger_left larger_right)
  next
    case 2
    then show ?thesis using mean_one_more [OF _ t(2) False assms(3,4)] nz(1)
      by (simp add: aideLoad_def z larger_right)
  qed
  then show ?thesis using no_shrink [of "aideLoad bs" "length as"] assms(3,4) False
    by (simp add: aideLoad_def z f_ok_larger)
qed

lemma mean_NaN: "0 < length as \<Longrightarrow> length as < 2 ^ 53 \<Longrightarrow> mean f as = NaN \<longleftrightarrow> total f as = NaN"
  using f_int_nat [of "int (length as)"]
  by (cases "total f as") (simp_all add: mean_def flen_def round64_def Let_def)

lemma gurus_do_not_swing:
  assumes "isFull (guruLoad as)" "same_totals [Buffers, \<lambda>ex. Subscriptions (exStats ex)] as bs"
    and "length bs = Suc (length as)" "length bs < 2 ^ 53"
  shows "\<not> canShrink (guruLoad bs) (length bs)"
proof -
  have n: "guruLoad as \<noteq> NaN" using assms(1) by (auto simp: isFull_def)
  then have False: "as \<noteq> []" by (auto simp: guruLoad_def mean_def total_def flen_def f_zero_def larger_def)
  have t: "total Buffers bs = total Buffers as"
    "total (\<lambda>ex. Subscriptions (exStats ex)) bs = total (\<lambda>ex. Subscriptions (exStats ex)) as"
    using assms(2) by (simp_all add: same_totals_def)
  have s: "mean (\<lambda>ex. Subscriptions (exStats ex)) bs \<noteq> NaN"
    using n mean_NaN [of as] mean_NaN [of bs] t(2) False assms(3,4) by (simp add: guruLoad_def)
  let ?b = "88 / 100 * of_nat (length as) / of_nat (length bs) :: rat"
  consider "at_least (mean Buffers as) (899 / 1000)" | "at_least (mean (\<lambda>ex. Subscriptions (exStats ex)) as) (899 / 1000)"
    using full_at_least [OF assms(1)] by (auto simp: guruLoad_def dest!: larger_at_leastD)
  then have "at_least (guruLoad bs) ?b"
  proof cases
    case 1
    then show ?thesis using mean_one_more [OF _ t(1) False assms(3,4)] s
      by (simp add: guruLoad_def larger_right)
  next
    case 2
    then show ?thesis using mean_one_more [OF _ t(2) False assms(3,4)]
      by (simp add: guruLoad_def larger_left)
  qed
  then show ?thesis using no_shrink [of "guruLoad bs" "length as"] assms(3,4) False
    by (simp add: guruLoad_def f_ok_larger)
qed

section \<open>Growing and shrinking\<close>

lemma change_aides:
  "ChangeAides (CalcExpansionDesired as gs) = 1 \<longleftrightarrow> isFull (aideLoad as)"
  "ChangeAides (CalcExpansionDesired as gs) = -1 \<longleftrightarrow> \<not> isFull (aideLoad as) \<and> canShrink (aideLoad as) (length as)"
  by (simp_all add: CalcExpansionDesired_def Let_def)

lemma change_gurus:
  "ChangeGurus (CalcExpansionDesired as gs) = 1 \<longleftrightarrow> isFull (guruLoad gs)"
  "ChangeGurus (CalcExpansionDesired as gs) = -1 \<longleftrightarrow> \<not> isFull (guruLoad gs) \<and> canShrink (guruLoad gs) (length gs)"
  by (simp_all add: CalcExpansionDesired_def Let_def)

text \<open>C17: The executive does not swing: if a tier of nodes is full and grows, the same total load on one
  node more is never so small that the tier shrinks again, and conversely. This holds in \<open>float64\<close>
  with its rounding, also where a total overflows or is no number.\<close>

theorem scaling_does_not_swing:
  assumes "length bs = Suc (length as)" "length bs < 2 ^ 53"
  shows "(same_totals [Buffers, \<lambda>ex. Connections (exStats ex)] as bs \<longrightarrow>
      \<not> (ChangeAides (CalcExpansionDesired as gs) = 1 \<and> ChangeAides (CalcExpansionDesired bs gs') = -1))
    \<and> (same_totals [Buffers, \<lambda>ex. Subscriptions (exStats ex)] as bs \<longrightarrow>
      \<not> (ChangeGurus (CalcExpansionDesired es as) = 1 \<and> ChangeGurus (CalcExpansionDesired es' bs) = -1))"
  using aides_do_not_swing [OF _ _ assms] gurus_do_not_swing [OF _ _ assms]
  unfolding change_aides change_gurus by blast

definition idleStats :: ExecutiveStats where
  "idleStats = \<lparr>exStats = zero_stats, Buffers = f_zero, statName = ''aide1'', TCPAddress = [], statGuru = False\<rparr>"

definition fullStats :: ExecutiveStats where
  "fullStats = \<lparr>exStats = zero_stats\<lparr>Connections := f_int 1\<rparr>, Buffers = f_zero, statName = ''aide0'', TCPAddress = [], statGuru = False\<rparr>"

lemma zero_sum [simp]: "fadd f_zero f_zero = f_zero"
  using fadd_int [of 0 0] by simp

lemma one_float: "f_int 1 = Fin False 1" "fadd f_zero (f_int 1) = f_int 1" "fadd (f_int 1) f_zero = f_int 1"
  using f_int_exact [of 1] fadd_int [of 0 1] fadd_int [of 1 0] by (simp_all add: exact_int_def)

lemma two_float: "f_int 2 = Fin False 2"
  using f_int_exact [of 2] by (simp add: exact_int_def)

lemma round_one: "round64 False 1 = Fin False 1"
  using round_mag_int [of 1] by (simp add: round64_def Let_def)

lemma full_grows: "ChangeAides (CalcExpansionDesired [fullStats] []) = 1"
proof -
  have "aideLoad [fullStats] = Fin False 1"
    by (simp add: aideLoad_def mean_def total_def flen_def fullStats_def one_float(2) zero_stats_def larger_def)
      (simp add: one_float(1) f_zero_def round_one)
  moreover have "round_mag (9 / 10) < 1" using round_upper [of "9 / 10"] by simp
  ultimately show ?thesis by (simp add: change_aides isFull_def of_exact_def round64_def Let_def)
qed

lemma same_load: "same_totals [Buffers, \<lambda>ex. Connections (exStats ex)] [fullStats] [fullStats, idleStats]"
  by (simp add: same_totals_def total_def fullStats_def idleStats_def zero_stats_def one_float(2,3))

theorem scaling_does_not_swing_witness:
  "ChangeAides (CalcExpansionDesired [fullStats] []) = 1
    \<and> ChangeAides (CalcExpansionDesired [fullStats, idleStats] []) \<noteq> -1"
  using scaling_does_not_swing [of "[fullStats, idleStats]" "[fullStats]" "[]" "[]" "[]" "[]"] full_grows same_load
  by simp

section \<open>Which aide goes\<close>

lemma flt_trans: "flt a b \<Longrightarrow> flt b c \<Longrightarrow> flt a c"
  by (cases a; cases b; cases c) (auto split: if_splits)

lemma flt_irrefl [simp]: "\<not> flt a a"
  by (cases a) auto

abbreviation subsOf :: "ExecutiveStats list \<Rightarrow> nat \<Rightarrow> f64" where
  "subsOf exs i \<equiv> Subscriptions (exStats (exs ! i))"

lemma busiest_fold:
  assumes "fold (\<lambda>(i, ex) (mx, index).
      if flt mx (Subscriptions (exStats ex)) then (Subscriptions (exStats ex), i) else (mx, index))
    (enumerate 0 exs) (f_zero, 0) = (mx, k)"
  shows "(\<forall>j < length exs. \<not> flt mx (subsOf exs j))
    \<and> (if mx = f_zero \<and> k = 0 then True else k < length exs \<and> mx = subsOf exs k)"
  using assms
proof (induction exs arbitrary: mx k rule: rev_induct)
  case (snoc ex exs)
  obtain mx' k' where e: "fold (\<lambda>(i, ex) (mx, index).
      if flt mx (Subscriptions (exStats ex)) then (Subscriptions (exStats ex), i) else (mx, index))
    (enumerate 0 exs) (f_zero, 0) = (mx', k')" by fastforce
  have old: "\<forall>j < length exs. \<not> flt mx' (subsOf exs j)"
    "if mx' = f_zero \<and> k' = 0 then True else k' < length exs \<and> mx' = subsOf exs k'"
    using snoc.IH [OF e] by blast+
  show ?case
  proof (cases "flt mx' (Subscriptions (exStats ex))")
    case True
    then have "mx = Subscriptions (exStats ex)" "k = length exs"
      using snoc.prems e by (simp_all add: enumerate_append_eq)
    then show ?thesis using old(1) flt_trans [OF True] by (auto simp: nth_append less_Suc_eq)
  next
    case False
    then have "mx = mx'" "k = k'" using snoc.prems e by (simp_all add: enumerate_append_eq)
    then show ?thesis using old False by (auto simp: nth_append less_Suc_eq split: if_splits)
  qed
qed simp

text \<open>An aide is removed only while there are at least two, and it is one of them: the aide with the
  most subscriptions, so that no aide with any has more than it.\<close>

theorem busiest_aide_goes:
  assumes "ChangeAides (CalcExpansionDesired aides gurus) = -1"
  shows "1 < length aides \<and> (\<exists>i < length aides.
    RemoveAide (CalcExpansionDesired aides gurus) = statName (aides ! i)
    \<and> (\<forall>j < length aides. flt f_zero (subsOf aides j) \<longrightarrow> \<not> flt (subsOf aides i) (subsOf aides j)))"
proof -
  have c: "\<not> isFull (aideLoad aides)" "canShrink (aideLoad aides) (length aides)"
    using assms by (simp_all add: change_aides)
  then have n: "1 < length aides" by (simp add: canShrink_def)
  obtain mx k where m: "fold (\<lambda>(i, ex) (mx, index).
      if flt mx (Subscriptions (exStats ex)) then (Subscriptions (exStats ex), i) else (mx, index))
    (enumerate 0 aides) (f_zero, 0) = (mx, k)" by fastforce
  have k: "mostSubscribed aides = k" using m by (simp add: mostSubscribed_def)
  have r: "RemoveAide (CalcExpansionDesired aides gurus) = statName (aides ! k)"
    using c k by (simp add: CalcExpansionDesired_def Let_def)
  show ?thesis using busiest_fold [OF m] n r by (intro conjI exI [of _ k]) (auto split: if_splits)
qed

definition busyStats :: ExecutiveStats where
  "busyStats = \<lparr>exStats = zero_stats\<lparr>Subscriptions := f_int 1\<rparr>, Buffers = f_zero, statName = ''aide2'', TCPAddress = [], statGuru = False\<rparr>"

lemma idle_shrinks: "ChangeAides (CalcExpansionDesired [idleStats, busyStats] []) = -1"
proof -
  have "aideLoad [idleStats, busyStats] = f_zero"
    by (simp add: aideLoad_def mean_def total_def flen_def idleStats_def busyStats_def zero_stats_def larger_def)
      (simp add: two_float f_zero_def)
  moreover have "\<not> isFull f_zero" using full_at_least [of f_zero] by (auto simp: f_zero_def)
  moreover have "0 < round_mag (8 / 10)" using round_lower [of "8 / 10"] by simp
  then have "canShrink f_zero 2"
    by (simp add: canShrink_def two_float one_float(1)) (simp add: f_zero_def of_exact_def round64_def Let_def)
  ultimately show ?thesis by (simp add: change_aides numeral_2_eq_2)
qed

theorem busiest_aide_goes_witness:
  "\<exists>i < 2. RemoveAide (CalcExpansionDesired [idleStats, busyStats] []) = statName ([idleStats, busyStats] ! i)
    \<and> \<not> flt (subsOf [idleStats, busyStats] i) (f_int 1)"
proof -
  have "subsOf [idleStats, busyStats] 1 = f_int 1" by (simp add: busyStats_def)
  moreover have "flt f_zero (f_int 1)" using flt_int [of 0 1] by (simp add: exact_int_def)
  ultimately have "flt f_zero (subsOf [idleStats, busyStats] 1)" by (simp only:)
  moreover obtain i where i: "i < length [idleStats, busyStats]"
    "RemoveAide (CalcExpansionDesired [idleStats, busyStats] []) = statName ([idleStats, busyStats] ! i)"
    "\<forall>j < length [idleStats, busyStats]. flt f_zero (subsOf [idleStats, busyStats] j)
       \<longrightarrow> \<not> flt (subsOf [idleStats, busyStats] i) (subsOf [idleStats, busyStats] j)"
    using busiest_aide_goes [OF idle_shrinks] by blast
  moreover have "1 < length [idleStats, busyStats]" by simp
  ultimately have "\<not> flt (subsOf [idleStats, busyStats] i) (subsOf [idleStats, busyStats] 1)" by blast
  then show ?thesis using i(1,2) by (intro exI [of _ i]) (simp add: busyStats_def)
qed

section \<open>Agreement on the gurus\<close>

text \<open>C16: In every cluster that \<open>MakeSimplestCluster\<close> builds and \<open>Operate\<close> resizes, the gurus have distinct
  names, the list of names that the executive keeps is that of the gurus in their order, and all nodes
  have the maglev table of that list: they agree on the guru of each topic. The channels of each aide
  are those of the list.\<close>

theorem cluster_agrees_on_gurus:
  assumes "clusterReached suffix ce"
  shows "distinct (currentGuruList ce) \<and> currentGuruList ce = map exName (Gurus ce)
    \<and> (\<forall>ex \<in> set (Gurus ce @ Aides ce). maglevTable (router (exLooker ex)) = Some (currentGuruList ce, 97))
    \<and> (\<forall>ex \<in> set (Aides ce). map (map_option upName) (channels (router (exLooker ex))) = map Some (currentGuruList ce))"
  using cluster_okD [OF clusterReached_ok [OF assms]] guruNames_distinct
  by (auto simp: all_told_def told_def wires_def)

definition quietEnv :: clusterEnv where
  "quietEnv = \<lparr>ceNow = 0, settle = (\<lambda>me. me), newKey = (\<lambda>nm. Hash 0 0 0)\<rparr>"

lemma quiet_settles: "settles quietEnv"
  by (simp add: settles_def quietEnv_def)

definition sampleTable :: "string \<Rightarrow> bool \<Rightarrow> looker" where
  "sampleTable nm guru = fst (setNames [''guru0''] (NewLookupTable 100 nm guru (newAccumulator zero_stats [])))"

lemma sample_returns:
  "snd (setNames [''guru0''] (NewLookupTable 100 ''guru0'' True (newAccumulator zero_stats []))) = Ret ()"
  "snd (setNames [''guru0''] (NewLookupTable 100 ''aide0'' False (newAccumulator zero_stats []))) = Ret ()"
  by code_simp+

abbreviation flushed :: "looker \<Rightarrow> looker" where
  "flushed me \<equiv> fst (flush quietEnv me)"

lemma flush_returns:
  "snd (flush quietEnv (sampleTable ''guru0'' True)) = Ret ()"
  "snd (flush quietEnv (flushed (sampleTable ''guru0'' True))) = Ret ()"
  "snd (flush quietEnv (flushed (flushed (sampleTable ''guru0'' True)))) = Ret ()"
  "snd (flush quietEnv (sampleTable ''aide0'' False)) = Ret ()"
  "snd (flush quietEnv (flushed (sampleTable ''aide0'' False))) = Ret ()"
  "snd (flush quietEnv (flushed (flushed (sampleTable ''aide0'' False)))) = Ret ()"
  by code_simp+

lemma eachLooker_one: "snd (f (exLooker ex)) = Ret () \<Longrightarrow> eachLooker f [ex] = Ret [ex\<lparr>exLooker := fst (f (exLooker ex))\<rparr>]"
  by (cases "f (exLooker ex)") simp

lemma dec_zero: "dec_nat 0 = ''0''"
  by code_simp

lemma small_cluster:
  "\<exists>ce. MakeSimplestCluster quietEnv 1 [] = Ret ce \<and> map exName (Aides ce) = [''aide0''] \<and> map exName (Gurus ce) = [''guru0'']"
  using sample_returns flush_returns
  by (simp add: dec_zero MakeSimplestCluster_def renameAll_def WaitForActions_def waitRound_def eachLooker_one
      NewExecutive_def sampleTable_def Let_def del: eachLooker.simps)

theorem cluster_agrees_on_gurus_witness:
  "\<exists>ce. MakeSimplestCluster quietEnv 1 [] = Ret ce \<and> currentGuruList ce = [''guru0'']
    \<and> map (\<lambda>ex. maglevTable (router (exLooker ex))) (Gurus ce @ Aides ce)
        = [Some ([''guru0''], 97), Some ([''guru0''], 97)]"
proof -
  obtain ce where ce: "MakeSimplestCluster quietEnv 1 [] = Ret ce"
    "map exName (Aides ce) = [''aide0'']" "map exName (Gurus ce) = [''guru0'']"
    using small_cluster by (elim exE conjE) (rule that)
  note a = cluster_agrees_on_gurus [OF Made [OF quiet_settles ce(1)]]
  have n: "currentGuruList ce = [''guru0'']" using conjunct1 [OF conjunct2 [OF a]] ce(3) by simp
  have "\<forall>ex \<in> set (Gurus ce @ Aides ce). maglevTable (router (exLooker ex)) = Some ([''guru0''], 97)"
    using conjunct1 [OF conjunct2 [OF conjunct2 [OF a]]] unfolding n .
  moreover obtain g x where "Gurus ce = [g]" "Aides ce = [x]"
    using ce(2,3) by (auto simp: map_eq_Cons_conv)
  ultimately show ?thesis using ce(1) n by (intro exI [of _ ce]) simp
qed

text \<open>The names of aides are not distinct: once one that is not the last has gone, the next aide gets the
  name of one that is there. \<open>RemoveAide\<close>, a name, then stands for two.\<close>

lemma grown_name:
  assumes "addAide cenv ce = Ret ce'"
  shows "map exName (Aides ce') = map exName (Aides ce) @ [''aide'' @ dec_nat (length (Aides ce))]
    \<and> \<not> configHasCe (last (Aides ce'))"
proof -
  let ?new = "[NewExecutive cenv 100 (''aide'' @ dec_nat (length (Aides ce))) False]"
  obtain as where as: "eachLooker (setNames (currentGuruList ce)) ?new = Ret as"
    "flushAll cenv (ce\<lparr>Aides := Aides ce @ as\<rparr>) = Ret ce'"
    using assms by (auto simp: addAide_def bind_out_Ret Let_def split: if_splits)
  have n: "map exName as = map exName ?new" by (rule eachLooker_names [OF as(1)])
  obtain a where a: "as = [a]" "\<not> configHasCe a"
    using eachLooker_list [OF as(1)] by (auto simp: list_all2_Cons1 NewExecutive_def)
  obtain as' where e: "eachLooker (flush cenv) (Aides ce @ as) = Ret as'" "Aides ce' = as'"
    using as(2) by (auto simp: flushAll_def bind_out_Ret)
  have "configHasCe (last as') = configHasCe a"
    using eachLooker_list [OF e(1)] a(1) by (auto simp: list_all2_append1 list_all2_Cons1)
  then show ?thesis using e eachLooker_names [OF e(1)] n a by simp
qed

theorem aide_names_collide:
  assumes "map exName (Aides ce) = [''aide0'', ''aide2'']" "addAide cenv ce = Ret ce'"
  shows "map exName (Aides ce') = [''aide0'', ''aide2'', ''aide2'']"
proof -
  have "length (Aides ce) = 2" using arg_cong [OF assms(1), of length] by simp
  moreover have "dec_nat 2 = ''2''" by code_simp
  ultimately show ?thesis using grown_name [OF assms(2)] assms(1) by simp
qed

end
