(* ===== verification/Service.thy ===== *)
theory Service
  imports Contacts
begin

text \<open>
  The client that the cluster keeps for its own requests (\<open>iot/service-contact.go\<close>, and the same over TCP
  in \<open>iot/service-contact_tcp.go\<close>): a caller hands in a packet and waits for the packet that answers it. A
  request carries a random session key and the address of the service; a map from keys to the channels
  of the callers sends an answer to whoever asked. A call is two goroutines, the caller's, which waits
  for the answer or a timeout, and that of \<open>SendPacket\<close>, which keeps the key in the map; one more takes
  the packets that arrive and hands each to the channel of its key, which has no buffer, so that it
  waits until the caller takes it. \<open>serviceStep\<close> is what one of them does next; events may come in any
  order that their guards allow, timeouts at any time.
\<close>

section \<open>Data\<close>

datatype callerState = Asking | Answered packet | GaveUp string

datatype senderState = Registered | Waiting | Ended

record call =
  callKey :: string
  request :: packet
  callerOf :: callerState
  senderOf :: senderState

record ServiceContact =
  mySubscriptionName :: string
  key2channel :: "string \<Rightarrow> nat option"
  packetsChan :: "packet list"
  delivering :: "(nat \<times> packet) option"
  scClosed :: bool
  calls :: "call list"
  handedUp :: "packet list"

definition packetsCapacity :: nat where
  "packetsCapacity = 100"

text \<open>After \<open>StartNewServiceContact\<close> has seen its suback.\<close>

definition newServiceContact :: "string \<Rightarrow> ServiceContact" where
  "newServiceContact name =
     \<lparr>mySubscriptionName = name, key2channel = Map.empty, packetsChan = [], delivering = None,
      scClosed = False, calls = [], handedUp = []\<rparr>"

section \<open>Starting\<close>

text \<open>What the new contact of the service is, and what it sends: \<open>Connect\<close> with a token, then \<open>Subscribe\<close>
  to the name of the service. The ten years added to \<open>contactExpires\<close> before \<open>AddContactStruct\<close> do not
  last: that sets it anew.\<close>

definition serviceSession :: "u32 \<Rightarrow> contactConfig \<Rightarrow> session \<times> contactConfig" where
  "serviceSession now config =
     (let (ss, config') = AddContactStruct 0 now config in (ss\<lparr>hasWriter := True\<rparr>, config'))"

definition serviceSubscribe :: "string \<Rightarrow> packet" where
  "serviceSubscribe name = Subscribe (EnsureAddressIsBinary (FromString name)) []"

definition startService :: "sessionEnv \<Rightarrow> nat \<Rightarrow> looker \<Rightarrow> contactConfig \<Rightarrow> string \<Rightarrow> bytes \<Rightarrow>
    (session \<times> looker \<times> contactConfig \<times> sessionEffect list) outcome" where
  "startService se waiting me config name token =
     (let (ss, config') = serviceSession (timeNow (seEnv se)) config in
      bind_out (PushPacketUpFromBottom se waiting me ss (Connect (SetOption ''token'' token []))) (\<lambda>(ss1, me1, e1).
      bind_out (PushPacketUpFromBottom se waiting me1 ss1 (serviceSubscribe name)) (\<lambda>(ss2, me2, e2).
        Ret (ss2, me2, config', e1 @ e2))))"

text \<open>Waiting for the suback: any \<open>Subscribe\<close> will do, and so does a contact that is closed. The timer
  starts again with every packet. \<open>None\<close> stands for waiting on.\<close>

datatype subackEvent = ContactClosed | GotPacket packet | SubackTimeout

fun waitSuback :: "subackEvent list \<Rightarrow> bool option" where
  "waitSuback [] = None"
| "waitSuback (ContactClosed # es) = Some True"
| "waitSuback (GotPacket p # es) = (if is_Subscribe p then Some True else waitSuback es)"
| "waitSuback (SubackTimeout # es) = Some False"

section \<open>A call\<close>

text \<open>The packet with the key and the address to answer to; only \<open>Send\<close> and \<open>Lookup\<close> can be answered.\<close>

fun stampRequest :: "string \<Rightarrow> string \<Rightarrow> packet \<Rightarrow> packet option" where
  "stampRequest name key (Send a src payload opts) =
     Some (Send a (FromString name) payload (SetOption ''sessionKey'' key opts))"
| "stampRequest name key (Lookup a src opts) = Some (Lookup a (FromString name) (SetOption ''sessionKey'' key opts))"
| "stampRequest name key p = None"

definition updateCall :: "nat \<Rightarrow> (call \<Rightarrow> call) \<Rightarrow> ServiceContact \<Rightarrow> ServiceContact" where
  "updateCall c f sc = sc\<lparr>calls := (calls sc)[c := f (calls sc ! c)]\<rparr>"

definition endSender :: "nat \<Rightarrow> ServiceContact \<Rightarrow> ServiceContact" where
  "endSender c sc =
     (updateCall c (\<lambda>cl. cl\<lparr>senderOf := Ended\<rparr>) sc)\<lparr>key2channel := (key2channel sc)(callKey (calls sc ! c) := None)\<rparr>"

text \<open>The packet at the head goes to the channel of its key; without a key, or with a key that nobody
  waits for, it is dropped.\<close>

definition dispatchReply :: "ServiceContact \<Rightarrow> packet \<Rightarrow> (nat \<times> packet) option" where
  "dispatchReply sc p =
     (case GetOption (packetOptions p) ''sessionKey'' of
        (key, got) \<Rightarrow> if \<not> got then None else map_option (\<lambda>c. (c, p)) (key2channel sc key))"

datatype serviceEvent =
    Ask string packet
  | HandUp nat
  | HandUpFails nat
  | SenderEnds nat
  | CallerTimeout nat
  | Arrive packet
  | DispatchHead
  | Deliver
  | CloseService

fun serviceStep :: "serviceEvent \<Rightarrow> ServiceContact \<Rightarrow> ServiceContact option" where
  "serviceStep (Ask key msg) sc =
     (case stampRequest (mySubscriptionName sc) key msg of
        None \<Rightarrow> Some (sc\<lparr>calls := calls sc @ [\<lparr>callKey = key, request = msg,
            callerOf = GaveUp ''ServiceContact failed prematurely'', senderOf = Ended\<rparr>]\<rparr>)
      | Some p \<Rightarrow> Some (sc\<lparr>key2channel := (key2channel sc)(key \<mapsto> length (calls sc)),
            calls := calls sc @ [\<lparr>callKey = key, request = p, callerOf = Asking, senderOf = Registered\<rparr>]\<rparr>))"
| "serviceStep (HandUp c) sc =
     (if c < length (calls sc) \<and> senderOf (calls sc ! c) = Registered
      then Some ((updateCall c (\<lambda>cl. cl\<lparr>senderOf := Waiting\<rparr>) sc)\<lparr>handedUp := handedUp sc @ [request (calls sc ! c)]\<rparr>)
      else None)"
| "serviceStep (HandUpFails c) sc =
     (if c < length (calls sc) \<and> senderOf (calls sc ! c) = Registered then Some (endSender c sc) else None)"
| "serviceStep (SenderEnds c) sc =
     (if c < length (calls sc) \<and> senderOf (calls sc ! c) = Waiting then Some (endSender c sc) else None)"
| "serviceStep (CallerTimeout c) sc =
     (if c < length (calls sc) \<and> callerOf (calls sc ! c) = Asking
      then Some (updateCall c (\<lambda>cl. cl\<lparr>callerOf := GaveUp ''ServiceContact timed out waiting for reply''\<rparr>) sc)
      else None)"
| "serviceStep (Arrive p) sc =
     (if length (packetsChan sc) < packetsCapacity then Some (sc\<lparr>packetsChan := packetsChan sc @ [p]\<rparr>) else None)"
| "serviceStep DispatchHead sc =
     (case (delivering sc, packetsChan sc) of
        (None, p # ps) \<Rightarrow> Some (sc\<lparr>packetsChan := ps, delivering := dispatchReply sc p\<rparr>)
      | _ \<Rightarrow> None)"
| "serviceStep Deliver sc =
     (case delivering sc of
        Some (c, p) \<Rightarrow>
          if c < length (calls sc) \<and> callerOf (calls sc ! c) = Asking
          then Some ((updateCall c (\<lambda>cl. cl\<lparr>callerOf := Answered p\<rparr>) sc)\<lparr>delivering := None\<rparr>)
          else None
      | None \<Rightarrow> None)"
| "serviceStep CloseService sc = Some (sc\<lparr>scClosed := True\<rparr>)"

fun runService :: "serviceEvent list \<Rightarrow> ServiceContact \<Rightarrow> ServiceContact option" where
  "runService [] sc = Some sc"
| "runService (e # es) sc = (case serviceStep e sc of None \<Rightarrow> None | Some sc' \<Rightarrow> runService es sc')"

inductive reachedService :: "ServiceContact \<Rightarrow> bool" where
  Started: "reachedService (newServiceContact name)"
| Stepped: "reachedService sc \<Longrightarrow> serviceStep e sc = Some sc' \<Longrightarrow> reachedService sc'"

lemma run_reached: "reachedService sc \<Longrightarrow> runService es sc = Some sc' \<Longrightarrow> reachedService sc'"
  by (induction es arbitrary: sc) (auto split: option.splits intro: Stepped)

section \<open>The writer of the TCP link\<close>

text \<open>The goroutine that \<open>ConnectLoopForever\<close> starts for a connection takes packets from \<open>outgoing\<close> and
  writes them. A failed write closes the channel \<open>isBroken\<close>, and the loop goes on: of the branches that are
  ready, Go picks any. \<open>linkErr\<close> is the variable \<open>err\<close> of the enclosing function, which the branch of
  \<open>isBroken\<close> prints: it is not the error of the write, which is shadowed. \<open>None\<close> stands for a branch that
  is not ready, the flag for whether the loop goes on.\<close>

record tcpLink =
  outgoing :: "packet list"
  isBroken :: bool
  linkErr :: "string option"
  written :: "packet list"

datatype pick = PickClosed | PickBroken | PickPacket bool

fun writerStep :: "bool \<Rightarrow> pick \<Rightarrow> tcpLink \<Rightarrow> (tcpLink \<times> bool) outcome option" where
  "writerStep over PickClosed l =
     (if \<not> over then None
      else Some (if isBroken l then Panic else Ret (l\<lparr>isBroken := True\<rparr>, False)))"
| "writerStep over PickBroken l =
     (if \<not> isBroken l then None
      else Some (case linkErr l of None \<Rightarrow> Panic | Some msg \<Rightarrow> Ret (l, False)))"
| "writerStep over (PickPacket ok) l =
     (case outgoing l of
        [] \<Rightarrow> None
      | p # ps \<Rightarrow> Some (if ok then Ret (l\<lparr>outgoing := ps, written := written l @ [p]\<rparr>, True)
                       else if isBroken l then Panic
                       else Ret (l\<lparr>outgoing := ps, isBroken := True\<rparr>, True)))"

fun writerRun :: "bool \<Rightarrow> pick list \<Rightarrow> tcpLink \<Rightarrow> (tcpLink \<times> bool) outcome option" where
  "writerRun over [] l = Some (Ret (l, True))"
| "writerRun over (b # bs) l =
     (case writerStep over b l of
        Some (Ret (l', True)) \<Rightarrow> writerRun over bs l'
      | r \<Rightarrow> r)"

section \<open>The invariant\<close>

definition sessionKeyOf :: "packet \<Rightarrow> string option" where
  "sessionKeyOf p = (case GetOption (packetOptions p) ''sessionKey'' of (k, got) \<Rightarrow> if got then Some k else None)"

text \<open>What answers a call has the key of the call, and what is handed up is a request that was stamped
  with the key of its call and the address of the service.\<close>

definition stamped :: "string \<Rightarrow> string \<Rightarrow> packet \<Rightarrow> bool" where
  "stamped name key p \<longleftrightarrow> sessionKeyOf p = Some key \<and> (is_Send p \<or> is_Lookup p) \<and> packetSource p = FromString name"

definition call_ok :: "string \<Rightarrow> call \<Rightarrow> bool" where
  "call_ok name cl \<longleftrightarrow> (\<forall>p. callerOf cl = Answered p \<longrightarrow> sessionKeyOf p = Some (callKey cl))
     \<and> (senderOf cl \<noteq> Ended \<longrightarrow> stamped name (callKey cl) (request cl))"

definition service_ok :: "ServiceContact \<Rightarrow> bool" where
  "service_ok sc \<longleftrightarrow>
     (\<forall>k c. key2channel sc k = Some c \<longrightarrow> c < length (calls sc) \<and> callKey (calls sc ! c) = k)
     \<and> (\<forall>c p. delivering sc = Some (c, p) \<longrightarrow> c < length (calls sc) \<and> sessionKeyOf p = Some (callKey (calls sc ! c)))
     \<and> (\<forall>cl \<in> set (calls sc). call_ok (mySubscriptionName sc) cl)
     \<and> (\<forall>p \<in> set (handedUp sc). \<exists>k \<in> callKey ` set (calls sc). stamped (mySubscriptionName sc) k p)"

lemma stampRequest_stamped: "stampRequest name key msg = Some p \<Longrightarrow> stamped name key p"
  by (cases msg) (auto simp: stamped_def sessionKeyOf_def opt_simps)

lemma updateCall_simps [simp]:
  "mySubscriptionName (updateCall c f sc) = mySubscriptionName sc"
  "key2channel (updateCall c f sc) = key2channel sc" "delivering (updateCall c f sc) = delivering sc"
  "packetsChan (updateCall c f sc) = packetsChan sc" "handedUp (updateCall c f sc) = handedUp sc"
  "length (calls (updateCall c f sc)) = length (calls sc)"
  by (simp_all add: updateCall_def)

lemma updateCall_nth:
  "i < length (calls sc) \<Longrightarrow> calls (updateCall c f sc) ! i = (if i = c then f (calls sc ! c) else calls sc ! i)"
  by (auto simp: updateCall_def nth_list_update)

lemma updateCall_ok:
  assumes "service_ok sc" "c < length (calls sc)" "\<And>cl. callKey (f cl) = callKey cl"
    and "call_ok (mySubscriptionName sc) (f (calls sc ! c))"
  shows "service_ok (updateCall c f sc)"
proof -
  have k: "callKey (calls (updateCall c f sc) ! i) = callKey (calls sc ! i)" if "i < length (calls sc)" for i
    using that assms(3) by (simp add: updateCall_nth)
  have m: "map callKey (calls (updateCall c f sc)) = map callKey (calls sc)"
    by (rule nth_equalityI) (simp_all add: k)
  have "callKey ` set (calls (updateCall c f sc)) = callKey ` set (calls sc)"
    using arg_cong [OF m, of set] by simp
  moreover have "\<forall>cl \<in> set (calls (updateCall c f sc)). call_ok (mySubscriptionName sc) cl"
    using assms(1,4) set_update_subset_insert [of "calls sc" c "f (calls sc ! c)"]
    by (auto simp: service_ok_def updateCall_def)
  ultimately show ?thesis using assms(1) k by (simp add: service_ok_def)
qed

lemma service_nth: "service_ok sc \<Longrightarrow> c < length (calls sc) \<Longrightarrow> call_ok (mySubscriptionName sc) (calls sc ! c)"
  by (simp add: service_ok_def)

lemma ended_ok:
  assumes "service_ok sc" "c < length (calls sc)"
  shows "service_ok (endSender c sc)"
proof -
  have "service_ok (updateCall c (\<lambda>cl. cl\<lparr>senderOf := Ended\<rparr>) sc)"
    using service_nth [OF assms] by (intro updateCall_ok assms) (simp_all add: call_ok_def)
  then show ?thesis by (auto simp: endSender_def service_ok_def)
qed

lemma service_keep:
  assumes "service_ok sc" "calls sc' = calls sc" "mySubscriptionName sc' = mySubscriptionName sc"
    and "key2channel sc' = key2channel sc" "handedUp sc' = handedUp sc"
    and "\<And>c p. delivering sc' = Some (c, p) \<Longrightarrow> c < length (calls sc) \<and> sessionKeyOf p = Some (callKey (calls sc ! c))"
  shows "service_ok sc'"
  using assms by (simp add: service_ok_def)

lemma ask_ok:
  assumes "service_ok sc" "stampRequest (mySubscriptionName sc) key msg = Some p"
  shows "service_ok (sc\<lparr>key2channel := (key2channel sc)(key \<mapsto> length (calls sc)),
    calls := calls sc @ [\<lparr>callKey = key, request = p, callerOf = Asking, senderOf = Registered\<rparr>]\<rparr>)"
  using assms stampRequest_stamped [OF assms(2)]
  by (auto simp: service_ok_def call_ok_def nth_append less_SucI)

lemma serviceStep_ok:
  assumes "service_ok sc" "serviceStep e sc = Some sc'"
  shows "service_ok sc'"
proof (cases e)
  case (Ask key msg)
  show ?thesis
  proof (cases "stampRequest (mySubscriptionName sc) key msg")
    case None
    then show ?thesis using assms Ask by (auto simp: service_ok_def call_ok_def nth_append less_SucI)
  next
    case (Some p)
    then show ?thesis using assms(2) Ask ask_ok [OF assms(1) Some] by auto
  qed
next
  case (HandUp c)
  then have c: "c < length (calls sc)" "senderOf (calls sc ! c) = Registered" using assms(2) by (auto split: if_splits)
  have s: "stamped (mySubscriptionName sc) (callKey (calls sc ! c)) (request (calls sc ! c))"
    using service_nth [OF assms(1) c(1)] c(2) by (simp add: call_ok_def)
  have "service_ok (updateCall c (\<lambda>cl. cl\<lparr>senderOf := Waiting\<rparr>) sc)"
    using service_nth [OF assms(1) c(1)] s by (intro updateCall_ok assms(1) c(1)) (simp_all add: call_ok_def)
  moreover have "callKey (calls sc ! c) \<in> callKey ` set (calls (updateCall c (\<lambda>cl. cl\<lparr>senderOf := Waiting\<rparr>) sc))"
    using nth_mem [of c "calls (updateCall c (\<lambda>cl. cl\<lparr>senderOf := Waiting\<rparr>) sc)"] c(1)
    by (force simp: updateCall_nth intro: rev_image_eqI)
  ultimately show ?thesis using assms(2) HandUp s c by (auto simp: service_ok_def)
next
  case (CallerTimeout c)
  then have c: "c < length (calls sc)" using assms(2) by (auto split: if_splits)
  show ?thesis
    using assms(2) CallerTimeout service_nth [OF assms(1) c]
    by (auto intro!: updateCall_ok assms(1) simp: call_ok_def split: if_splits)
next
  case DispatchHead
  then obtain p ps where p: "packetsChan sc = p # ps" "sc' = sc\<lparr>packetsChan := ps, delivering := dispatchReply sc p\<rparr>"
    using assms(2) by (auto split: list.splits option.splits)
  have "c < length (calls sc) \<and> sessionKeyOf q = Some (callKey (calls sc ! c))"
    if "dispatchReply sc p = Some (c, q)" for c q
    using that assms(1) by (auto simp: dispatchReply_def sessionKeyOf_def service_ok_def split: prod.splits if_splits)
  then show ?thesis using p by (intro service_keep [OF assms(1)]) simp_all
next
  case Deliver
  then obtain c p where d: "delivering sc = Some (c, p)" "c < length (calls sc)"
    "sc' = (updateCall c (\<lambda>cl. cl\<lparr>callerOf := Answered p\<rparr>) sc)\<lparr>delivering := None\<rparr>"
    using assms(2) by (auto split: option.splits if_splits)
  have "sessionKeyOf p = Some (callKey (calls sc ! c))" using assms(1) d(1) by (simp add: service_ok_def)
  then have "service_ok (updateCall c (\<lambda>cl. cl\<lparr>callerOf := Answered p\<rparr>) sc)"
    using service_nth [OF assms(1) d(2)] by (intro updateCall_ok assms(1) d(2)) (simp_all add: call_ok_def)
  then show ?thesis unfolding d(3) by (rule service_keep) simp_all
next
  case (Arrive p)
  then have "sc' = sc\<lparr>packetsChan := packetsChan sc @ [p]\<rparr>" using assms(2) by (simp split: if_splits)
  then show ?thesis using assms(1) by (simp add: service_ok_def)
next
  case (HandUpFails c)
  then show ?thesis using assms ended_ok by (auto split: if_splits)
next
  case (SenderEnds c)
  then show ?thesis using assms ended_ok by (auto split: if_splits)
next
  case CloseService
  then have "sc' = sc\<lparr>scClosed := True\<rparr>" using assms(2) by simp
  then show ?thesis using assms(1) by (simp add: service_ok_def)
qed

lemma reachedService_ok: "reachedService sc \<Longrightarrow> service_ok sc"
proof (induction rule: reachedService.induct)
  case (Started name)
  then show ?case by (simp add: newServiceContact_def service_ok_def)
qed (rule serviceStep_ok)

section \<open>A stuck service\<close>

text \<open>Once a packet is on its way to a caller that is no longer asking, nothing is delivered any more.\<close>

definition stuck :: "nat \<Rightarrow> packet \<Rightarrow> ServiceContact \<Rightarrow> bool" where
  "stuck c p sc \<longleftrightarrow> delivering sc = Some (c, p) \<and> c < length (calls sc) \<and> callerOf (calls sc ! c) \<noteq> Asking"

lemma stuck_step:
  assumes "stuck c p sc" "serviceStep e sc = Some sc'" "i < length (calls sc)"
  shows "stuck c p sc' \<and> length (calls sc) \<le> length (calls sc')
    \<and> (\<forall>q. callerOf (calls sc' ! i) = Answered q \<longrightarrow> callerOf (calls sc ! i) = Answered q)"
  using assms
  by (cases e) (auto simp: stuck_def endSender_def updateCall_def nth_append nth_list_update
      split: option.splits if_splits list.splits)

lemma new_unanswered:
  assumes "serviceStep e sc = Some sc'" "i < length (calls sc')" "\<not> i < length (calls sc)"
  shows "callerOf (calls sc' ! i) \<noteq> Answered q"
  using assms
  by (cases e) (auto simp: endSender_def updateCall_def nth_append less_Suc_eq split: option.splits if_splits list.splits)

lemma stuck_run:
  assumes "stuck c p sc" "runService es sc = Some sc'"
  shows "stuck c p sc' \<and> length (calls sc) \<le> length (calls sc')
    \<and> (\<forall>i < length (calls sc'). \<forall>q. callerOf (calls sc' ! i) = Answered q
         \<longrightarrow> i < length (calls sc) \<and> callerOf (calls sc ! i) = Answered q)"
  using assms
proof (induction es arbitrary: sc)
  case (Cons e es)
  then obtain s1 where s1: "serviceStep e sc = Some s1" "runService es s1 = Some sc'" by (auto split: option.splits)
  have c: "c < length (calls sc)" using Cons.prems(1) by (simp add: stuck_def)
  have st: "stuck c p s1" "length (calls sc) \<le> length (calls s1)"
    using stuck_step [OF Cons.prems(1) s1(1) c] by simp_all
  show ?case
    using Cons.IH [OF st(1) s1(2)] st(2) stuck_step [OF Cons.prems(1) s1(1)] new_unanswered [OF s1(1)]
    by (meson dual_order.trans less_le_trans)
qed simp

end
