(* ===== verification/Replies.thy ===== *)
theory Replies
  imports Service
begin

text \<open>
  Properties of the client for requests of the cluster itself: an answer reaches the one who asked, and
  what a second answer does.
\<close>

section \<open>Answers\<close>


text \<open>The request and its answers in the example: a lookup, and the packet that comes back.\<close>

definition askLookup :: packet where
  "askLookup = Lookup (FromString ''name'') (FromString []) []"

definition lookupReply :: packet where
  "lookupReply = Send (FromString ''me'') (FromString ''name'') ''yes'' [(''sessionKey'', ''k'')]"

definition answeredEvents :: "serviceEvent list" where
  "answeredEvents = [Ask ''k'' askLookup, HandUp 0, Arrive lookupReply, Arrive lookupReply, DispatchHead, Deliver]"

definition answeredService :: ServiceContact where
  "answeredService = the (runService answeredEvents (newServiceContact ''me''))"

lemma answered_run: "runService answeredEvents (newServiceContact ''me'') = Some answeredService"
  and answered_state: "calls answeredService ! 0 = \<lparr>callKey = ''k'',
      request = Lookup (FromString ''name'') (FromString ''me'') (SetOption ''sessionKey'' ''k'' []),
      callerOf = Answered lookupReply, senderOf = Waiting\<rparr>"
    "length (calls answeredService) = 1" "packetsChan answeredService = [lookupReply]"
    "delivering answeredService = None" "key2channel answeredService ''k'' = Some 0"
  by (simp_all add: answeredService_def answeredEvents_def newServiceContact_def askLookup_def lookupReply_def
      updateCall_def dispatchReply_def packetsCapacity_def GetOption_def om_get_def)


text \<open>A second answer to one call stops the service for good. If the answer is dispatched while the key is
  still in the map but the caller has its answer already, or has given up, the dispatching goroutine
  waits for that caller for ever: whatever happens later, no call is answered any more that was not
  answered before.\<close>

theorem second_reply_stops_the_service:
  assumes "reachedService sc" "delivering sc = None" "packetsChan sc = p # ps"
    and "GetOption (packetOptions p) ''sessionKey'' = (key, True)" "key2channel sc key = Some c"
    and "callerOf (calls sc ! c) \<noteq> Asking" "runService (DispatchHead # es) sc = Some sc'"
  shows "delivering sc' = Some (c, p)
    \<and> (\<forall>i < length (calls sc'). \<forall>q. callerOf (calls sc' ! i) = Answered q
         \<longrightarrow> i < length (calls sc) \<and> callerOf (calls sc ! i) = Answered q)"
proof -
  have d: "dispatchReply sc p = Some (c, p)" using assms(4,5) by (simp add: dispatchReply_def)
  define s1 where "s1 = sc\<lparr>packetsChan := ps, delivering := dispatchReply sc p\<rparr>"
  have "runService es s1 = Some sc'" using assms(2,3,7) by (simp add: s1_def)
  moreover have "c < length (calls sc)" using reachedService_ok [OF assms(1)] assms(5) by (simp add: service_ok_def)
  then have "stuck c p s1" using d assms(6) by (simp add: stuck_def s1_def)
  ultimately have "stuck c p sc' \<and> (\<forall>i < length (calls sc'). \<forall>q. callerOf (calls sc' ! i) = Answered q
      \<longrightarrow> i < length (calls s1) \<and> callerOf (calls s1 ! i) = Answered q)"
    using stuck_run by blast
  then show ?thesis by (simp add: stuck_def s1_def)
qed

theorem second_reply_stops_the_service_witness:
  "\<exists>sc'. runService [DispatchHead, Ask ''l'' askLookup, HandUp 1] answeredService = Some sc'
    \<and> delivering sc' = Some (0, lookupReply)"
proof -
  obtain sc' where r: "runService [DispatchHead, Ask ''l'' askLookup, HandUp 1] answeredService = Some sc'"
    using answered_state by (simp add: askLookup_def nth_append)
  have "GetOption (packetOptions lookupReply) ''sessionKey'' = (''k'', True)"
    by (simp add: lookupReply_def GetOption_def om_get_def)
  then show ?thesis
    using second_reply_stops_the_service [OF run_reached [OF Started answered_run] answered_state(4,3) _ answered_state(5) _ r]
      answered_state(1) r by simp
qed

text \<open>An answer that arrives at an idle service is given to the caller.\<close>

lemma reply_is_delivered:
  assumes "delivering sc = None" "packetsChan sc = p # ps" "GetOption (packetOptions p) ''sessionKey'' = (key, True)"
    and "key2channel sc key = Some c" "c < length (calls sc)" "callerOf (calls sc ! c) = Asking"
  shows "\<exists>sc'. runService [DispatchHead, Deliver] sc = Some sc' \<and> callerOf (calls sc' ! c) = Answered p
    \<and> delivering sc' = None \<and> packetsChan sc' = ps"
  using assms by (simp add: dispatchReply_def updateCall_def)

section \<open>The TCP link\<close>

lemma broken_writer:
  assumes "isBroken l" "linkErr l = None"
  shows "writerRun over bs l \<in> {None, Some Panic}
    \<or> (\<exists>l'. writerRun over bs l = Some (Ret (l', True)) \<and> list_all (\<lambda>b. b = PickPacket True) bs)"
  using assms
proof (induction bs arbitrary: l)
  case (Cons b bs)
  show ?case
  proof (cases "b = PickPacket True \<and> outgoing l \<noteq> []")
    case True
    then obtain p ps where "outgoing l = p # ps" "b = PickPacket True" by (cases "outgoing l") auto
    then show ?thesis using Cons.IH [of "l\<lparr>outgoing := ps, written := written l @ [p]\<rparr>"] Cons.prems by simp
  next
    case False
    then show ?thesis using Cons.prems
      by (cases b) (auto split: list.splits)
  qed
qed simp

text \<open>A write that fails brings the process down: the writer never returns after it, and panics with the
  first branch it takes that is not a successful write: the closed \<open>isBroken\<close> prints a nil error, another
  failed write and a closed service close \<open>isBroken\<close> again.\<close>

theorem failed_write_panics:
  assumes "outgoing l = p # ps" "\<not> isBroken l" "linkErr l = None" "\<not> list_all (\<lambda>b. b = PickPacket True) bs"
  shows "writerRun over (PickPacket False # bs) l \<in> {None, Some Panic}"
  using broken_writer [of "l\<lparr>outgoing := ps, isBroken := True\<rparr>" over bs] assms by simp

theorem failed_write_panics_witness:
  "writerRun False [PickPacket False, PickBroken] \<lparr>outgoing = [askLookup], isBroken = False, linkErr = None, written = []\<rparr>
    = Some Panic"
  using failed_write_panics [of "\<lparr>outgoing = [askLookup], isBroken = False, linkErr = None, written = []\<rparr>"
      askLookup "[]" "[PickBroken]" False] by simp

end
