(* ===== verification/Subdomain.thy ===== *)
theory Subdomain
  imports Packets GoStrings
begin

text \<open>
  Web pages of things (\<open>iot/sub-domain-server.go\<close>): a request for \<open>name.host\<close> is looked up, turned into one
  \<open>Send\<close> to the topic \<open>name\<close>, and the reply comes back as several \<open>Send\<close> packets, numbered by the option
  \<open>indx\<close>, which are put together and written to the browser. Modelled are the decision what to do with a
  request, the bytes and options that are sent, and the loop that receives the reply, one step per event.
  Lookups, sockets and files are arguments. Positions are Go's \<open>int\<close>, slices out of bounds are \<open>Panic\<close>.
\<close>

section \<open>Strings and numbers\<close>

text \<open>\<open>strconv.Atoi\<close> with its error flag: a syntax error gives 0, a number out of range the nearest one.\<close>

fun parseUint :: "nat \<Rightarrow> string \<Rightarrow> bool + nat" where
  "parseUint acc [] = Inr acc"
| "parseUint acc (c # cs) =
     (if \<not> is_digit c then Inl False
      else let n = 10 * acc + (byte_val c - 48) in if 2 ^ 64 \<le> n then Inl True else parseUint n cs)"

definition Atoi :: "string \<Rightarrow> int \<times> bool" where
  "Atoi s =
     (let (neg, ds) = (case s of [] \<Rightarrow> (False, [])
                       | c # r \<Rightarrow> if c = CHR ''-'' then (True, r) else if c = CHR ''+'' then (False, r) else (False, s))
      in if ds = [] then (0, False)
         else case parseUint 0 ds of
                Inl False \<Rightarrow> (0, False)
              | Inl True \<Rightarrow> (if neg then - (2 ^ 63) else 2 ^ 63 - 1, False)
              | Inr n \<Rightarrow>
                  if neg then (if 2 ^ 63 < n then (- (2 ^ 63), False) else (- int n, True))
                  else (if 2 ^ 63 \<le> n then (2 ^ 63 - 1, False) else (int n, True)))"

text \<open>What is left of a sum in Go's \<open>int\<close>.\<close>

definition goInt :: "int \<Rightarrow> int" where
  "goInt n = (n + 2 ^ 63) mod 2 ^ 64 - 2 ^ 63"

lemma goInt_small: "- (2 ^ 63) \<le> n \<Longrightarrow> n < 2 ^ 63 \<Longrightarrow> goInt n = n"
  by (simp add: goInt_def)

definition trimSpaces :: "string \<Rightarrow> string" where
  "trimSpaces s = rev (dropWhile (\<lambda>c. c = CHR '' '') (rev (dropWhile (\<lambda>c. c = CHR '' '') s)))"

definition trimSuffixSlash :: "string \<Rightarrow> string" where
  "trimSuffixSlash s = (if s \<noteq> [] \<and> last s = CHR ''/'' then butlast s else s)"

section \<open>What becomes of a request\<close>

record ProxyStatus =
  psExists :: bool
  psOnline :: bool
  psStatic :: string
  psProxy :: string

datatype decision = Refuse string nat | ServeStatic string | Forward

text \<open>The answer to \<open>proxy-status\<close> decides, which has to be a \<open>Send\<close>, then the length of the body; one of
  unknown length, -1, panics in \<open>make\<close>. \<open>bodyRead\<close> is whether one read gave the whole body without an
  error.\<close>

definition decideRequest :: "(bytes \<Rightarrow> string + ProxyStatus) \<Rightarrow> string \<Rightarrow> string + packet \<Rightarrow> string \<Rightarrow> int \<Rightarrow> bool \<Rightarrow>
    decision outcome" where
  "decideRequest unmarshal subDomain answer uri clen bodyRead =
     (case answer of
        Inl err \<Rightarrow> Ret (Refuse (''PacketService error '' @ err) 500)
      | Inr (Send a src payload opts) \<Rightarrow>
         (case unmarshal payload of
            Inl err \<Rightarrow> Ret (Refuse (''json unmarshal error '' @ err) 500)
          | Inr st \<Rightarrow>
              if \<not> psExists st then Ret (Refuse (''subdomain does not exist '' @ subDomain) 500)
              else if psStatic st \<noteq> [] then
                Ret (ServeStatic (trimSuffixSlash (psStatic st) @ (if uri = ''/'' then ''/index.html'' else uri)))
              else if \<not> psOnline st then Ret (Refuse (''subdomain is not online to reply '' @ subDomain) 404)
              else if 63 * 1024 < clen then Ret (Refuse ''http packet too long '' 500)
              else if clen < 0 then Panic
              else if 0 < clen \<and> \<not> bodyRead then Ret (Refuse ''http content read fail '' 500)
              else Ret Forward)
      | Inr p \<Rightarrow> Panic)"

definition requestLine :: "string \<Rightarrow> string \<Rightarrow> string \<Rightarrow> string" where
  "requestLine meth url proto = meth @ '' '' @ url @ '' '' @ proto @ [CHR 0x0A]"

text \<open>Headers that are not passed on.\<close>

definition dropsHeader :: "string \<Rightarrow> bool" where
  "dropsHeader key \<longleftrightarrow> key = ''Cookie'' \<or> has_prefix key ''X-'' \<or> has_prefix key ''Sec-'' \<or> has_prefix key ''User-Agent''"

definition headerLines :: "(string \<times> string list) list \<Rightarrow> string" where
  "headerLines headers =
     concat (map (\<lambda>(key, vals). if dropsHeader key then [] else concat (map (\<lambda>v. key @ '': '' @ v @ crlf) vals)) headers)"

definition requestBytes :: "string \<Rightarrow> (string \<times> string list) list \<Rightarrow> bytes \<Rightarrow> bytes" where
  "requestBytes firstLine headers theBody = firstLine @ headerLines headers @ crlf @ theBody"

text \<open>The arguments of the query become options of the packet.\<close>

definition queryOptions :: "string \<Rightarrow> options" where
  "queryOptions firstLine =
     (let parts = split_on (CHR ''?'') firstLine in
      if length parts \<le> 1 then []
      else fold (\<lambda>part opts. let kv = split_on (CHR ''='') part in
             if length kv = 2 then SetOption (kv ! 0) (kv ! 1) opts else opts)
           (split_on (CHR ''&'') (hd (split_on (CHR '' '') (parts ! 1)))) [])"

text \<open>A request of more than 60 KB is not sent at all.\<close>

definition requestPacket :: "string \<Rightarrow> AddressUnion \<Rightarrow> string \<Rightarrow> (string \<times> string list) list \<Rightarrow> bytes \<Rightarrow> packet option" where
  "requestPacket subDomain src firstLine headers theBody =
     (let buf = requestBytes firstLine headers theBody in
      if 60 * 1024 < length buf then None
      else Some (Send (EnsureAddressIsBinary (FromString subDomain)) src buf (queryOptions firstLine)))"

text \<open>The packets that the handler pushes up for its contact: the token, the subscription to a random name,
  after its acknowledgement the request, in the end the unsubscription. The debug option is passed on when
  the request has it.\<close>

definition isDebugLine :: "string \<Rightarrow> bool" where
  "isDebugLine firstLine \<longleftrightarrow> contains firstLine ''debg=12345678''"

definition debugOption :: "bool \<Rightarrow> options \<Rightarrow> options" where
  "debugOption isDebg opts = (if isDebg then SetOption ''debg'' ''12345678'' opts else opts)"

definition openingPackets :: "bytes \<Rightarrow> string \<Rightarrow> string \<Rightarrow> packet list" where
  "openingPackets token name firstLine =
     [Connect (debugOption (isDebugLine firstLine) (SetOption ''token'' token [])),
      Subscribe (EnsureAddressIsBinary (FromString name)) (debugOption (isDebugLine firstLine) [])]"

definition closingPacket :: "string \<Rightarrow> string \<Rightarrow> packet" where
  "closingPacket name firstLine = Unsubscribe (FromString name) (debugOption (isDebugLine firstLine) [])"

section \<open>The reply\<close>

record replyState =
  replyParts :: "bytes list"
  pastWrites :: nat
  lengthNeeded :: int
  amountGot :: int
  responseOut :: bytes
  replyRunning :: bool

definition newReply :: replyState where
  "newReply = \<lparr>replyParts = [], pastWrites = 0, lengthNeeded = 0, amountGot = 0, responseOut = [], replyRunning = True\<rparr>"

text \<open>The number of a part, without the brackets that some put around it.\<close>

definition partNumber :: "bytes \<Rightarrow> int outcome" where
  "partNumber s =
     (if s = [] then Panic
      else let s1 = (if hd s = CHR ''['' then tl s else s) in
        if s1 = [] then Panic
        else Ret (fst (Atoi (if last s1 = CHR '']'' then butlast s1 else s1))))"

text \<open>The options of the first part, as header lines after those of the part.\<close>

definition optionLines :: "options \<Rightarrow> string" where
  "optionLines opts =
     (let (keys, values) = GetOptionKeys opts;
          ls = map (\<lambda>(k, v). k @ '': '' @ v) (zip keys values)
      in if keys = [] then [] else crlf @ hd ls @ concat (map (\<lambda>l. crlf @ l) (tl ls)))"

text \<open>The first part with its header: the text after \<open>Content-Length:\<close>, to the end of its line, is the length of
  the body. If there is none, the text from the 15th byte is taken for it; if no line follows, the end
  is at -1.\<close>

definition lengthText :: "string \<Rightarrow> string outcome" where
  "lengthText header =
     (let start = (case index_of header ''Content-Length:'' of Some n \<Rightarrow> n + 15 | None \<Rightarrow> 14) in
      if length header < start then Panic
      else case index_of (drop start header) crlf of
             None \<Rightarrow> Panic
           | Some n \<Rightarrow> Ret (take n (drop start header)))"

definition firstReplyPart :: "bytes \<Rightarrow> options \<Rightarrow> (bytes \<times> int option) outcome" where
  "firstReplyPart payload opts =
     (case index_of payload (crlf @ crlf) of
        Some (Suc n) \<Rightarrow>
          let header = take (Suc n) payload in
          bind_out (lengthText header) (\<lambda>t.
            Ret (header @ optionLines opts @ drop (Suc n) payload,
                 Some (goInt (fst (Atoi (trimSpaces t)) + int (length header) + 4 + int (length (optionLines opts))))))
      | _ \<Rightarrow> Ret (payload, None))"

text \<open>Writing what is there from \<open>pastWrites\<close> on. \<open>writeOk i\<close> is whether the write of part \<open>i\<close> succeeds.\<close>

fun writeParts :: "(nat \<Rightarrow> bool) \<Rightarrow> bytes list \<Rightarrow> replyState \<Rightarrow> replyState" where
  "writeParts writeOk [] st = st"
| "writeParts writeOk (b # bs) st =
     (let st1 = st\<lparr>pastWrites := pastWrites st + 1, amountGot := amountGot st + int (length b)\<rparr> in
      if \<not> writeOk (pastWrites st) then st1\<lparr>replyRunning := False\<rparr>
      else let st2 = st1\<lparr>responseOut := responseOut st @ b\<rparr> in
        writeParts writeOk bs (if lengthNeeded st2 \<le> amountGot st2 then st2\<lparr>replyRunning := False\<rparr> else st2))"

definition padParts :: "nat \<Rightarrow> bytes list \<Rightarrow> bytes list" where
  "padParts i parts = parts @ replicate (Suc i - length parts) []"

text \<open>One part of the reply.\<close>

definition receivePart :: "(nat \<Rightarrow> bool) \<Rightarrow> bytes \<Rightarrow> options \<Rightarrow> replyState \<Rightarrow> replyState outcome" where
  "receivePart writeOk payload opts st =
     (if snd (GetOption opts ''of'') then Ret (st\<lparr>replyRunning := False\<rparr>)
      else
        let (count, ok) = GetOption opts ''indx'' in
        bind_out (partNumber (if ok then count else ''0'')) (\<lambda>i.
          if i < 0 then Panic
          else bind_out (if i = 0 then firstReplyPart payload opts else Ret (payload, None)) (\<lambda>(current, need).
            let st1 = st\<lparr>replyParts := (padParts (nat i) (replyParts st))[nat i := current],
                         lengthNeeded := (case need of Some n \<Rightarrow> n | None \<Rightarrow> lengthNeeded st)\<rparr>
            in Ret (writeParts writeOk (drop (pastWrites st1) (replyParts st1)) st1))))"

datatype replyEvent = ReplyClosed | ReplyPacket packet | ReplyTimeout string

text \<open>Waiting for the acknowledgement: \<open>Some True\<close> is to go on, \<open>Some False\<close> that it has timed out, \<open>None\<close> to
  wait for the next event. Any other packet is thrown away.\<close>

fun pageSuback :: "replyEvent \<Rightarrow> bool option" where
  "pageSuback ReplyClosed = Some True"
| "pageSuback (ReplyTimeout msg) = Some False"
| "pageSuback (ReplyPacket (Subscribe a opts)) = Some True"
| "pageSuback (ReplyPacket p) = None"

fun replyStep :: "(nat \<Rightarrow> bool) \<Rightarrow> replyEvent \<Rightarrow> replyState \<Rightarrow> replyState outcome" where
  "replyStep writeOk ReplyClosed st = Ret (st\<lparr>replyRunning := False\<rparr>)"
| "replyStep writeOk (ReplyTimeout msg) st = Ret (st\<lparr>responseOut := responseOut st @ msg, replyRunning := False\<rparr>)"
| "replyStep writeOk (ReplyPacket (Subscribe a opts)) st = Ret st"
| "replyStep writeOk (ReplyPacket (Send a src payload opts)) st = receivePart writeOk payload opts st"
| "replyStep writeOk (ReplyPacket p) st =
     Ret (st\<lparr>responseOut := responseOut st @ ''error got weird packet'', replyRunning := False\<rparr>)"

fun runReply :: "(nat \<Rightarrow> bool) \<Rightarrow> replyEvent list \<Rightarrow> replyState \<Rightarrow> replyState outcome" where
  "runReply writeOk [] st = Ret st"
| "runReply writeOk (e # es) st =
     (if \<not> replyRunning st then Ret st else bind_out (replyStep writeOk e st) (runReply writeOk es))"

end
