(* ===== verification/Pages.thy ===== *)
theory Pages
  imports Subdomain
begin

text \<open>
  Properties of the loop that puts a reply for a web page together: parts in order give the page, a part
  that overtakes the first is taken for the whole, and headers that stop the loop.
\<close>

section \<open>Numbers of parts\<close>

lemma parseUint_digits: "digits_value acc s = Some n \<Longrightarrow> n < 2 ^ 64 \<Longrightarrow> parseUint acc s = Inr n"
proof (induction acc s rule: digits_value.induct)
  case (2 acc c cs)
  have mono: "digits_value a xs = Some m \<Longrightarrow> a \<le> m" for a xs m
    by (induction a xs rule: digits_value.induct) (fastforce split: if_splits)+
  have d: "is_digit c" "digits_value (10 * acc + (byte_val c - 48)) cs = Some n"
    using 2 by (auto split: if_splits)
  then have "10 * acc + (byte_val c - 48) < 2 ^ 64" using mono [OF d(2)] 2 by linarith
  then show ?case using 2 d by (simp add: Let_def)
qed simp

lemma dec_nat_ends:
  "hd (dec_nat k) \<noteq> CHR ''-''" "hd (dec_nat k) \<noteq> CHR ''+''" "hd (dec_nat k) \<noteq> CHR ''[''"
  "last (dec_nat k) \<noteq> CHR '']''"
  using dec_nat_digits [of "hd (dec_nat k)" k] dec_nat_digits [of "last (dec_nat k)" k]
  by (auto simp: is_digit_def)

lemma Atoi_dec: "k < 2 ^ 63 \<Longrightarrow> Atoi (dec_nat k) = (int k, True)"
  using parseUint_digits [OF dec_nat_value, of k] dec_nat_ends(1,2) [of k]
  by (cases "dec_nat k") (auto simp: Atoi_def Let_def)

lemma partNumber_dec: "k < 2 ^ 63 \<Longrightarrow> partNumber (dec_nat k) = Ret (int k)"
  using Atoi_dec [of k] dec_nat_ends(3,4) [of k] by (simp add: partNumber_def Let_def)

lemma small_numbers: "dec_nat 0 = ''0''" "dec_nat 5 = ''5''"
  by code_simp+

section \<open>A page\<close>

definition partOf :: "nat \<Rightarrow> bytes \<Rightarrow> replyEvent" where
  "partOf k payload =
     ReplyPacket (Send (FromString []) (FromString []) payload (SetOption ''indx'' (dec_nat k) []))"

definition onlyIndex :: "nat \<Rightarrow> options" where
  "onlyIndex k = SetOption ''indx'' (dec_nat k) []"

lemma onlyIndex_get: "GetOption (onlyIndex k) ''of'' = ([], False)" "GetOption (onlyIndex k) ''indx'' = (dec_nat k, True)"
  by (simp_all add: onlyIndex_def opt_simps) (simp add: GetOption_def)

definition inOrder :: "bytes list \<Rightarrow> int \<Rightarrow> replyState \<Rightarrow> bool" where
  "inOrder parts need st \<longleftrightarrow> replyParts st = parts \<and> pastWrites st = length parts \<and> lengthNeeded st = need
     \<and> amountGot st = int (length (concat parts)) \<and> responseOut st = concat parts
     \<and> replyRunning st = (int (length (concat parts)) < need)"

lemma next_part:
  assumes "inOrder parts need st" "parts \<noteq> []" "length parts < 2 ^ 63" "replyRunning st"
  shows "\<exists>st'. replyStep (\<lambda>_. True) (partOf (length parts) payload) st = Ret st' \<and> inOrder (parts @ [payload]) need st'"
proof -
  have i: "0 < length parts" using assms(2) by simp
  have p: "(padParts (length parts) parts)[length parts := payload] = parts @ [payload]"
    by (simp add: padParts_def)
  have n: "partNumber (dec_nat (length parts)) = Ret (int (length parts))" using assms(3) by (rule partNumber_dec)
  show ?thesis
    using assms(1,2,4) i p n
    by (simp add: partOf_def receivePart_def Let_def onlyIndex_get [unfolded onlyIndex_def] inOrder_def)
qed

lemma later_parts:
  assumes "inOrder parts need st" "parts \<noteq> []" "length parts + length ps < 2 ^ 63"
    and "int (length (concat (parts @ ps))) = need"
  shows "\<exists>st'. runReply (\<lambda>_. True) (map (\<lambda>(k, p). partOf k p) (enumerate (length parts) ps)) st = Ret st'
    \<and> responseOut st' = concat (parts @ ps) \<and> \<not> replyRunning st'"
  using assms
proof (induction ps arbitrary: parts st)
  case Nil
  then show ?case by (simp add: inOrder_def)
next
  case (Cons p ps)
  show ?case
  proof (cases "replyRunning st")
    case True
    obtain st1 where st1: "replyStep (\<lambda>_. True) (partOf (length parts) p) st = Ret st1" "inOrder (parts @ [p]) need st1"
      using next_part [OF Cons.prems(1,2) _ True] Cons.prems(3) by auto
    show ?thesis using Cons.IH [OF st1(2)] Cons.prems(3,4) True st1(1) by simp
  next
    case False
    then have "need \<le> int (length (concat parts))" using Cons.prems(1) by (simp add: inOrder_def)
    moreover have "int (length (concat parts)) + int (length (concat (p # ps))) = need" using Cons.prems(4) by simp
    ultimately have "length (concat (p # ps)) = 0" by linarith
    then have "concat (p # ps) = []" by (simp only: length_0_conv)
    then show ?thesis using False Cons.prems(1) by (simp add: inOrder_def)
  qed
qed


definition samplePage :: bytes where
  "samplePage = ''HTTP/1.1 200 OK'' @ crlf @ ''Content-Length: 5'' @ crlf @ ''Server: x'' @ crlf @ crlf @ ''hel''"

lemma sample_header:
  "index_of samplePage (crlf @ crlf) = Some (Suc 44)" "lengthText (take (Suc 44) samplePage) = Ret '' 5''"
  "length (drop (Suc 44 + 4) samplePage) = 3"
  by code_simp+

lemma sample_length: "Atoi (trimSpaces '' 5'') = (5, True)"
  using Atoi_dec [of 5] by (simp add: small_numbers trimSpaces_def)


text \<open>A part that overtakes the first is taken for the whole page: until the first part has come no
  length is known and 0 bytes are enough, so the browser gets that part alone and the loop ends, whatever
  else arrives.\<close>

theorem overtaking_part_ends_the_reply:
  assumes "GetOption opts ''of'' = (v, False)" "GetOption opts ''indx'' = (s, True)" "partNumber s = Ret i" "0 < i"
  shows "\<exists>st. runReply (\<lambda>_. True) (ReplyPacket (Send a src payload opts) # es) newReply = Ret st
    \<and> responseOut st = payload \<and> \<not> replyRunning st"
proof -
  define k where "k = nat i"
  have k: "i = int k" "0 < k" using assms(4) by (simp_all add: k_def)
  let ?st = "newReply\<lparr>replyParts := (padParts k [])[k := payload]\<rparr>"
  have w: "responseOut (writeParts (\<lambda>_. True) bs st) = responseOut st @ concat bs"
    "bs \<noteq> [] \<Longrightarrow> lengthNeeded st \<le> amountGot st \<Longrightarrow> \<not> replyRunning (writeParts (\<lambda>_. True) bs st)" for bs st
  proof -
    show "responseOut (writeParts (\<lambda>_. True) bs st) = responseOut st @ concat bs"
      by (induction bs arbitrary: st) (simp_all add: Let_def)
    have stop: "\<not> replyRunning st \<Longrightarrow> \<not> replyRunning (writeParts (\<lambda>_. True) bs st)" for bs st
      by (induction bs arbitrary: st) (simp_all add: Let_def)
    show "bs \<noteq> [] \<Longrightarrow> lengthNeeded st \<le> amountGot st \<Longrightarrow> \<not> replyRunning (writeParts (\<lambda>_. True) bs st)"
      by (cases bs) (auto simp: Let_def intro!: stop)
  qed
  have "concat ((padParts k [])[k := payload]) = payload"
  proof -
    have "padParts k [] = replicate k [] @ [[]]" by (simp add: padParts_def flip: replicate_append_same)
    then show ?thesis by (simp add: list_update_append)
  qed
  then have "responseOut (writeParts (\<lambda>_. True) (replyParts ?st) ?st) = payload"
    by (simp add: w(1)) (simp add: newReply_def)
  moreover have "\<not> replyRunning (writeParts (\<lambda>_. True) (replyParts ?st) ?st)"
    by (rule w(2)) (simp_all add: newReply_def padParts_def split: nat.split)
  moreover have "replyStep (\<lambda>_. True) (ReplyPacket (Send a src payload opts)) newReply
      = Ret (writeParts (\<lambda>_. True) (replyParts ?st) ?st)"
    using assms(1-3) k by (simp add: receivePart_def newReply_def Let_def)
  ultimately show ?thesis
    by (cases es) (simp_all add: newReply_def)
qed

theorem overtaking_part_ends_the_reply_witness:
  "\<exists>st. runReply (\<lambda>_. True) [partOf 1 ''lo'', partOf 0 samplePage] newReply = Ret st \<and> responseOut st = ''lo''"
  using overtaking_part_ends_the_reply [OF onlyIndex_get, of 1 1] partNumber_dec [of 1]
  by (fastforce simp: partOf_def onlyIndex_def)

text \<open>A reply whose \<open>Content-Length\<close> is the last line of its header, or whose header is one line, panics:
  the end of the line is looked for in the header alone and the -1 for not found is used as a bound.\<close>

theorem last_header_panics:
  assumes "GetOption opts ''of'' = (v, False)" "GetOption opts ''indx'' = (w, False)"
    and "index_of payload (crlf @ crlf) = Some (Suc n)"
    and "header = take (Suc n) payload"
    and "start = (case index_of header ''Content-Length:'' of Some i \<Rightarrow> i + 15 | None \<Rightarrow> 14)"
    and "index_of (drop start header) crlf = None"
  shows "runReply writeOk (ReplyPacket (Send a src payload opts) # es) newReply = Panic"
proof -
  have "lengthText header = Panic" using assms(5,6) by (simp add: lengthText_def Let_def)
  then have "firstReplyPart payload opts = Panic" using assms(3,4) by (simp add: firstReplyPart_def Let_def)
  moreover have "partNumber ''0'' = Ret 0" using partNumber_dec [of 0] by (simp add: small_numbers)
  ultimately show ?thesis using assms(1,2) by (simp add: newReply_def receivePart_def)
qed

definition shortPage :: bytes where
  "shortPage = ''HTTP/1.1 200 OK'' @ crlf @ ''Content-Length: 5'' @ crlf @ crlf @ ''hello''"

lemma short_header:
  "index_of shortPage (crlf @ crlf) = Some (Suc 33)"
  "(case index_of (take (Suc 33) shortPage) ''Content-Length:'' of Some i \<Rightarrow> i + 15 | None \<Rightarrow> 14) = 32"
  "index_of (drop 32 (take (Suc 33) shortPage)) crlf = None"
  by code_simp+

theorem last_header_panics_witness:
  "runReply (\<lambda>_. True) [ReplyPacket (Send (FromString ''me'') (FromString []) shortPage [])] newReply = Panic"
  by (rule last_header_panics [OF _ _ short_header(1) refl short_header(2) [symmetric] short_header(3)])
    (simp_all add: GetOption_def)

end
