(* ===== verification/Server.thy ===== *)
theory Server
  imports Executive PacketText
begin

text \<open>
  The server of the packet protocol (\<open>iot/TCPUtil.go\<close>): the contact of a TCP connection, the loop that
  reads packets off it and pushes them up, writing downstream, and the requests that the operator makes
  over HTTP. A connection is the list of bytes that will arrive before it ends; the record \<open>line\<close> holds
  what the loop meets on its way: the environment and the length of the command queue for each packet,
  and what the other goroutines have made of the contact and the table by then.
\<close>

section \<open>The contact\<close>

definition localMakeTCPContact :: "u32 \<Rightarrow> contactConfig \<Rightarrow> session \<times> contactConfig" where
  "localMakeTCPContact now config =
     (let (ss, config') = AddContactStruct 0 now config in (ss\<lparr>hasReader := True, hasWriter := True\<rparr>, config'))"

text \<open>\<open>WriteDownstream\<close>: an error disconnects the client of an aide, a guru passes it on.\<close>

definition tcpWriteDownstream :: "bool \<Rightarrow> bool \<Rightarrow> session \<Rightarrow> packet \<Rightarrow> sessionEffect list \<times> string option" where
  "tcpWriteDownstream guru hasConn ss p =
     (if isClosedNow ss
      then ([], Some (''tcpContact closed and can'' @ CHR 0x27 # ''t writeDownstream''))
      else case HasError p of
             Some u \<Rightarrow>
               if \<not> guru then ([WriteDown u, CloseAfter (packetString \<lparr>body = u, backingUniversal = None\<rparr>)], None)
               else (if hasConn then [WriteDown p] else [], None)
           | None \<Rightarrow> (if hasConn then [WriteDown p] else [], None))"

section \<open>The read loop\<close>

record line =
  setupFails :: bool
  envAt :: "nat \<Rightarrow> sessionEnv"
  queuedAt :: "nat \<Rightarrow> nat"
  meanwhile :: "nat \<Rightarrow> session \<Rightarrow> looker \<Rightarrow> session \<times> looker"
  exClosedAt :: "nat \<Rightarrow> bool"
  deadlineFailsAt :: "nat \<Rightarrow> bool"

datatype lineEnd = SetupError | ExecutiveClosed | DeadlineError | ReadError wire_error

text \<open>One packet: its bytes are counted, then it is pushed up.\<close>

definition pushRead :: "line \<Rightarrow> nat \<Rightarrow> nat \<Rightarrow> packet \<Rightarrow> session \<Rightarrow> looker \<Rightarrow>
    (session \<times> looker \<times> sessionEffect list) outcome" where
  "pushRead cn k n p ss me =
     (let (ss1, me1) = meanwhile cn k ss me in
      bind_out (conRead n ss1) (\<lambda>ss2. PushPacketUpFromBottom (envAt cn k) (queuedAt cn k) me1 ss2 p))"

function (sequential) serveFrom :: "line \<Rightarrow> nat \<Rightarrow> bytes \<Rightarrow> session \<Rightarrow> looker \<Rightarrow>
    (session \<times> looker \<times> sessionEffect list \<times> lineEnd) outcome" where
  "serveFrom cn k bs ss me =
     (if exClosedAt cn k then Ret (ss, me, [], ExecutiveClosed)
      else if deadlineFailsAt cn k then Ret (ss, me, [], DeadlineError)
      else case ReadPacket bs of
             Inl e \<Rightarrow> Ret (ss, me, [], ReadError e)
           | Inr (p, r) \<Rightarrow>
               bind_out (pushRead cn k (length bs - length r) (body p) ss me) (\<lambda>(ss1, me1, effs).
               bind_out (serveFrom cn (Suc k) r ss1 me1) (\<lambda>(ss2, me2, effs', why).
                 Ret (ss2, me2, effs @ effs', why))))"
  by pat_completeness auto
termination
  by (relation "measure (\<lambda>(cn, k, bs, ss, me). length bs)") (auto dest: read_packet_consumes)

declare serveFrom.simps [simp del]

text \<open>The connection from its start to its end: the contact is closed however it ends, also when the options
  of the socket cannot be set.\<close>

definition handleConnection :: "line \<Rightarrow> u32 \<Rightarrow> contactConfig \<Rightarrow> bytes \<Rightarrow> looker \<Rightarrow>
    (session \<times> contactConfig \<times> looker \<times> sessionEffect list \<times> lineEnd) outcome" where
  "handleConnection cn now config bs me =
     (let (ss, config1) = localMakeTCPContact now config in
      bind_out (if setupFails cn then Ret (ss, me, [], SetupError) else serveFrom cn 0 bs ss me) (\<lambda>(ss1, me1, effs, why).
        let (ss2, config2) = DoClose ss1 config1 in Ret (ss2, config2, me1, effs, why)))"

section \<open>What is written is served\<close>

definition wire :: "pkt \<Rightarrow> bytes" where
  "wire p = fst (snd (packetWrite p))"

definition writable :: "pkt \<Rightarrow> bool" where
  "writable p \<longleftrightarrow> packet_wf (body p) \<and> backingUniversal p = None \<and> args_fit (uArgs (toUniversal (body p)))"

lemma read_wire: "writable p \<Longrightarrow> ReadPacket (wire p @ r) = Inr (p, r)"
  by (simp add: wire_def writable_def read_packet_write)

text \<open>The specification: the packets pushed up one after the other.\<close>

fun pushAll :: "line \<Rightarrow> nat \<Rightarrow> pkt list \<Rightarrow> session \<Rightarrow> looker \<Rightarrow> (session \<times> looker \<times> sessionEffect list) outcome" where
  "pushAll cn k [] ss me = Ret (ss, me, [])"
| "pushAll cn k (p # ps) ss me =
     bind_out (pushRead cn k (length (wire p)) (body p) ss me) (\<lambda>(ss1, me1, effs).
     bind_out (pushAll cn (Suc k) ps ss1 me1) (\<lambda>(ss2, me2, effs'). Ret (ss2, me2, effs @ effs')))"

lemma serve_written:
  assumes "\<forall>p \<in> set ps. writable p" "ReadPacket rest = Inl e"
    and "\<forall>j \<in> {k..k + length ps}. \<not> exClosedAt cn j \<and> \<not> deadlineFailsAt cn j"
  shows "serveFrom cn k (concat (map wire ps) @ rest) ss me
    = bind_out (pushAll cn k ps ss me) (\<lambda>(ss', me', effs). Ret (ss', me', effs, ReadError e))"
  using assms(1,3)
proof (induction ps arbitrary: k ss me)
  case Nil
  then show ?case using assms(2) by (simp add: serveFrom.simps)
next
  case (Cons p ps)
  have r: "ReadPacket (concat (map wire (p # ps)) @ rest) = Inr (p, concat (map wire ps) @ rest)"
    using Cons.prems(1) read_wire [of p] by simp
  have ih: "serveFrom cn (Suc k) (concat (map wire ps) @ rest) ss me
      = bind_out (pushAll cn (Suc k) ps ss me) (\<lambda>(ss', me', effs). Ret (ss', me', effs, ReadError e))" for ss me
    using Cons.prems by (intro Cons.IH) auto
  have s: "serveFrom cn k (concat (map wire (p # ps)) @ rest) ss me
      = bind_out (pushRead cn k (length (wire p)) (body p) ss me) (\<lambda>(ss1, me1, effs).
          bind_out (serveFrom cn (Suc k) (concat (map wire ps) @ rest) ss1 me1) (\<lambda>(ss2, me2, effs', why).
            Ret (ss2, me2, effs @ effs', why)))"
    using Cons.prems(2) by (subst serveFrom.simps) (simp add: r [simplified])
  show ?case unfolding s ih by (simp add: bind_out_assoc split_def)
qed

section \<open>The line between an aide and a guru\<close>

text \<open>What an aide writes to the guru (\<open>dialGuruAndServe\<close>): \<open>Connect\<close> with its token, then the packets of
  the channel \<open>up\<close>.\<close>

definition guruStream :: "bytes \<Rightarrow> pkt list \<Rightarrow> bytes" where
  "guruStream token ps =
     concat (map wire (\<lparr>body = Connect (SetOption ''token'' token []), backingUniversal = None\<rparr> # ps))"

text \<open>Without TCP (\<open>dialGuru\<close>) each packet is written to a buffer and read again, so that the guru has
  its own copy, and pushed up there.\<close>

definition relayUp :: "sessionEnv \<Rightarrow> nat \<Rightarrow> pkt \<Rightarrow> session \<Rightarrow> looker \<Rightarrow>
    (session \<times> looker \<times> sessionEffect list) outcome" where
  "relayUp se waiting p ss me =
     (if isClosedNow ss then Ret (ss, me, [])
      else case ReadPacket (wire p) of
             Inl e \<Rightarrow> Panic
           | Inr (p2, r) \<Rightarrow> PushPacketUpFromBottom se waiting me ss (body p2))"

lemma relayUp_same:
  "writable p \<Longrightarrow> \<not> isClosedNow ss \<Longrightarrow> relayUp se waiting p ss me = PushPacketUpFromBottom se waiting me ss (body p)"
  using read_wire [of p "[]"] by (simp add: relayUp_def)

section \<open>Requests of the operator\<close>

text \<open>The handler of \<open>/api2/\<close>: the stats of this node, new names of gurus, the stats of the cluster. What JSON
  decodes a body to is an argument; \<open>None\<close> stands for its error.\<close>

record apiState =
  apiExec :: executive
  clusterStats :: "ExecutiveStats list"
  clusterStatsString :: bytes

datatype apiRequest =
    GetStatsRequest
  | SetNamesRequest "(string list \<times> string list) option"
  | ClusterStatsRequest "(bytes \<times> ExecutiveStats list option) option"
  | OtherRequest

datatype apiReply = StatsReply ExecutiveStats | EmptyReply | HttpError string | NotFoundReply

fun apiServe :: "u32 \<Rightarrow> apiRequest \<Rightarrow> apiState \<Rightarrow> (apiState \<times> apiReply) outcome" where
  "apiServe now GetStatsRequest st = Ret (st, StatsReply (GetExecutiveStats now (apiExec st)))"
| "apiServe now (SetNamesRequest None) st = Ret (st, HttpError ''decode error'')"
| "apiServe now (SetNamesRequest (Some (names, addresses))) st =
     (if names \<noteq> [] \<and> length names = length addresses
      then (case SetUpstreamNames (exLooker (apiExec st)) names addresses of
              (me, Ret u) \<Rightarrow> Ret (st\<lparr>apiExec := (apiExec st)\<lparr>exLooker := me\<rparr>\<rparr>, EmptyReply)
            | (me, Panic) \<Rightarrow> Panic
            | (me, Hang) \<Rightarrow> Hang)
      else Ret (st, EmptyReply))"
| "apiServe now (ClusterStatsRequest None) st = Ret (st, HttpError ''read error 2'')"
| "apiServe now (ClusterStatsRequest (Some (dat, None))) st = Ret (st, HttpError ''decode error 2'')"
| "apiServe now (ClusterStatsRequest (Some (dat, Some stats'))) st =
     Ret (st\<lparr>clusterStats := stats', clusterStatsString := dat\<rparr>, EmptyReply)"
| "apiServe now OtherRequest st = Ret (st, NotFoundReply)"

text \<open>\<open>GetServerStats\<close>: the reply is its status and its body, or the error of the client. A status other than
  200 gives empty stats and no error.\<close>

definition emptyStats :: ExecutiveStats where
  "emptyStats = \<lparr>exStats = zero_stats, Buffers = f_zero, statName = [], TCPAddress = [], statGuru = False\<rparr>"

definition GetServerStats :: "(string \<Rightarrow> string + nat \<times> bytes) \<Rightarrow> (bytes \<Rightarrow> string + ExecutiveStats) \<Rightarrow> string \<Rightarrow>
    ExecutiveStats \<times> string option" where
  "GetServerStats httpGet unmarshal addr =
     (if length addr < 4 then (emptyStats, Some ''missing stats address'')
      else if has_prefix addr '':'' then (emptyStats, Some ''only port'')
      else case httpGet (''http://'' @ addr @ ''/api2/getstats'') of
             Inl err \<Rightarrow> (emptyStats, Some err)
           | Inr (status, reply) \<Rightarrow>
               if status \<noteq> 200 then (emptyStats, None)
               else (case unmarshal reply of Inl err \<Rightarrow> (emptyStats, Some err) | Inr st \<Rightarrow> (st, None)))"

text \<open>Clients of the other two requests: the body is what JSON makes of the argument, \<open>httpPost\<close> gives the
  status of the reply or an error.\<close>

definition PostUpstreamNames :: "(string list \<times> string list \<Rightarrow> bytes) \<Rightarrow> (string \<Rightarrow> bytes \<Rightarrow> string + nat) \<Rightarrow>
    string list \<Rightarrow> string list \<Rightarrow> string \<Rightarrow> string option" where
  "PostUpstreamNames marshal httpPost guruList addressList addr =
     (if length guruList \<noteq> length addressList then Some ''PostUpstreamNames len(guruList) != len(addressList)''
      else case httpPost (''http://'' @ addr @ ''/api2/set'') (marshal (guruList, addressList)) of
             Inl err \<Rightarrow> Some err
           | Inr status \<Rightarrow> if status \<noteq> 200 then Some ''upstreamNamesArg not 200'' else None)"

definition PostClusterStats :: "(ExecutiveStats list \<Rightarrow> bytes option) \<Rightarrow> (string \<Rightarrow> bytes \<Rightarrow> string + nat) \<Rightarrow>
    ExecutiveStats list \<Rightarrow> string \<Rightarrow> string option" where
  "PostClusterStats marshal httpPost stats' addr =
     (case marshal stats' of
        None \<Rightarrow> Some ''PostClusterStats marshal fail''
      | Some b \<Rightarrow>
          (case httpPost (''http://'' @ addr @ ''/api2/clusterstats'') b of
             Inl err \<Rightarrow> Some err
           | Inr status \<Rightarrow> if status \<noteq> 200 then Some ''PostClusterStats not 200'' else None))"

text \<open>A request of the operator is refused before its lengths can make \<open>SetUpstreamNames\<close> panic.\<close>

lemma mismatched_names_are_ignored:
  "length names \<noteq> length addresses \<Longrightarrow> apiServe now (SetNamesRequest (Some (names, addresses))) st = Ret (st, EmptyReply)"
  by simp

end
