(* ===== verification/Links.thy ===== *)
theory Links
  imports Server Sessions
begin

text \<open>
  Properties of connections: what one side writes, the other side serves.
\<close>


definition quietLine :: line where
  "quietLine = \<lparr>setupFails = False, envAt = (\<lambda>k. sampleSessionEnv), queuedAt = (\<lambda>k. 0), meanwhile = (\<lambda>k ss me. (ss, me)),
     exClosedAt = (\<lambda>k. False), deadlineFailsAt = (\<lambda>k. False)\<rparr>"

definition pingPkt :: pkt where
  "pingPkt = \<lparr>body = Ping [], backingUniversal = None\<rparr>"

lemma ping_writable: "writable pingPkt"
  by (simp add: pingPkt_def writable_def opts_wf_def args_fit_def packOptions_eq)


text \<open>So a guru serves what an aide writes to it: the \<open>Connect\<close> and the packets of the channel.\<close>

lemma guru_serves_its_aide:
  assumes "\<forall>p \<in> set ps. writable p" "ReadPacket rest = Inl e" "token \<noteq> []"
    and "args_fit (uArgs (toUniversal (Connect (SetOption ''token'' token []))))"
    and "\<forall>j \<le> Suc (length ps). \<not> exClosedAt cn j \<and> \<not> deadlineFailsAt cn j"
  shows "serveFrom cn 0 (guruStream token ps @ rest) ss me
    = bind_out (pushAll cn 0 (\<lparr>body = Connect (SetOption ''token'' token []), backingUniversal = None\<rparr> # ps) ss me)
        (\<lambda>(ss', me', effs). Ret (ss', me', effs, ReadError e))"
proof -
  have "writable \<lparr>body = Connect (SetOption ''token'' token []), backingUniversal = None\<rparr>"
    using assms(4) by (simp add: writable_def opts_wf_def SetOption_def om_ok_def)
  then show ?thesis using assms(1,2,5) unfolding guruStream_def by (intro serve_written) auto
qed

end
