(* ===== verification/GoNet.thy ===== *)
theory GoNet
  imports GoEncoding GoStrings "HOL-Library.List_Lexorder" "HOL-Library.Char_ord"
begin

text \<open>
  Addresses of the internet as Go's package \<open>net\<close> reads them: \<open>ParseIP\<close>, \<open>To4\<close>, \<open>IsGlobalUnicast\<close>. An
  address is its 16 bytes; an IPv4 address has ten zero bytes and two of 255 before its four.
\<close>

section \<open>IPv4\<close>

definition octetOf :: "string \<Rightarrow> nat option" where
  "octetOf s =
     (if s = [] \<or> hd s = CHR ''0'' \<and> tl s \<noteq> [] then None
      else case digits_value 0 s of None \<Rightarrow> None | Some n \<Rightarrow> if 255 < n then None else Some n)"

definition parseIPv4 :: "string \<Rightarrow> bytes option" where
  "parseIPv4 s =
     (let fields = map octetOf (split_on (CHR ''.'') s) in
      if length fields = 4 \<and> None \<notin> set fields then Some (map (\<lambda>f. byte_of (the f)) fields) else None)"

definition mapped4 :: "bytes \<Rightarrow> bytes" where
  "mapped4 four = replicate 10 (byte_of 0) @ [byte_of 255, byte_of 255] @ four"

section \<open>IPv6\<close>

text \<open>The hex digits at the front, their value and what follows; four at most.\<close>

fun hexRun :: "nat \<Rightarrow> string \<Rightarrow> nat \<times> string" where
  "hexRun acc [] = (acc, [])"
| "hexRun acc (c # cs) = (case hex_value c of None \<Rightarrow> (acc, c # cs) | Some d \<Rightarrow> hexRun (16 * acc + d) cs)"

lemma hexRun_shorter: "length (snd (hexRun acc s)) \<le> length s"
  by (induction acc s rule: hexRun.induct) (auto split: option.splits intro: le_SucI)

text \<open>The loop over the groups: the bytes so far, the position of the double colon if there was one, the
  text that is left. It ends after 16 bytes, with the text, or with an error.\<close>

function groups6 :: "bytes \<Rightarrow> nat option \<Rightarrow> string \<Rightarrow> (bytes \<times> nat option) option" where
  "groups6 ip ellipsis s =
     (if 16 \<le> length ip then (if s = [] then Some (ip, ellipsis) else None)
      else case hexRun 0 s of (acc, r) \<Rightarrow>
        let off = length s - length r in
        if off = 0 \<or> 4 < off then None
        else if r \<noteq> [] \<and> hd r = CHR ''.'' then
          (if ellipsis = None \<and> length ip \<noteq> 12 \<or> 16 < length ip + 4 then None
           else case parseIPv4 s of None \<Rightarrow> None | Some four \<Rightarrow> Some (ip @ four, ellipsis))
        else
          let ip' = ip @ [byte_of (acc div 256), byte_of (acc mod 256)] in
          (case r of
             [] \<Rightarrow> Some (ip', ellipsis)
           | c # r1 \<Rightarrow>
               if c \<noteq> CHR '':'' \<or> r1 = [] then None
               else if hd r1 = CHR '':'' then
                 (if ellipsis \<noteq> None then None
                  else if tl r1 = [] then Some (ip', Some (length ip'))
                  else groups6 ip' (Some (length ip')) (tl r1))
               else groups6 ip' ellipsis r1))"
  by pat_completeness auto
termination
  by (relation "measure (\<lambda>(ip, e, s). 16 - length ip)") auto

declare groups6.simps [simp del]

definition parseIPv6 :: "string \<Rightarrow> bytes option" where
  "parseIPv6 s =
     (if s = ''::'' then Some (replicate 16 (byte_of 0))
      else case (if has_prefix s ''::'' then groups6 [] (Some 0) (drop 2 s) else groups6 [] None s) of
             None \<Rightarrow> None
           | Some (ip, None) \<Rightarrow> if length ip < 16 then None else Some ip
           | Some (ip, Some e) \<Rightarrow>
               if 16 \<le> length ip then None
               else Some (take e ip @ replicate (16 - length ip) (byte_of 0) @ drop e ip))"

text \<open>The first of the three characters decides; a zone makes the result nil.\<close>

definition ParseIP :: "string \<Rightarrow> bytes option" where
  "ParseIP s =
     (if CHR ''%'' \<in> set s then None
      else case dropWhile (\<lambda>c. c \<noteq> CHR ''.'' \<and> c \<noteq> CHR '':'') s of
             [] \<Rightarrow> None
           | c # r \<Rightarrow> if c = CHR ''.'' then map_option mapped4 (parseIPv4 s) else parseIPv6 s)"

section \<open>Kinds of addresses\<close>

definition To4 :: "bytes \<Rightarrow> bytes option" where
  "To4 ip = (if length ip = 16 \<and> take 12 ip = mapped4 [] then Some (drop 12 ip) else None)"

definition IsGlobalUnicast :: "bytes option \<Rightarrow> bool" where
  "IsGlobalUnicast nip =
     (case nip of
        None \<Rightarrow> False
      | Some ip \<Rightarrow>
          (case To4 ip of
             Some b \<Rightarrow> b \<noteq> replicate 4 (byte_of 255) \<and> b \<noteq> replicate 4 (byte_of 0) \<and> byte_val (b ! 0) \<noteq> 127
               \<and> byte_val (b ! 0) div 16 \<noteq> 14 \<and> \<not> (byte_val (b ! 0) = 169 \<and> byte_val (b ! 1) = 254)
           | None \<Rightarrow> ip \<noteq> replicate 16 (byte_of 0) \<and> ip \<noteq> replicate 15 (byte_of 0) @ [byte_of 1]
               \<and> byte_val (ip ! 0) \<noteq> 255 \<and> \<not> (byte_val (ip ! 0) = 254 \<and> byte_val (ip ! 1) div 64 = 2)))"

lemma mapped4_To4: "length four = 4 \<Longrightarrow> To4 (mapped4 four) = Some four"
  by (simp add: To4_def mapped4_def)

lemma parseIPv4_length: "parseIPv4 s = Some b \<Longrightarrow> length b = 4"
  by (auto simp: parseIPv4_def Let_def split: if_splits)

end
