(* ===== verification/Minting.thy ===== *)
theory Minting
  imports Tokens GoNet
begin

text \<open>
  The making of tokens: the functions of \<open>tokens/tokens.go\<close> that sign a payload and keep the result, and
  the dispenser of free tokens (\<open>iot/misc.go\<close>). The signature, \<open>box.Seal\<close>, random names, the file with the
  private keys and the database are arguments. The dispenser reads the clock up to seven times while it
  serves one request; \<open>clock i\<close> is its \<open>i\<close>th reading, in seconds.
\<close>

section \<open>Signing\<close>

type_synonym signature = "KnotFreeTokenPayload \<Rightarrow> bytes \<Rightarrow> string + bytes"

definition MakeToken :: "signature \<Rightarrow> KnotFreeTokenPayload \<Rightarrow> bytes \<Rightarrow> bytes \<times> string option" where
  "MakeToken sign data privateKey =
     (case sign data privateKey of Inl err \<Rightarrow> ([], Some err) | Inr token \<Rightarrow> (token, None))"

text \<open>The types of tokens are powers of two.\<close>

definition TinyX4 :: nat where "TinyX4 = 2"
definition Medium :: nat where "Medium = 5"
definition GiantX32 :: nat where "GiantX32 = 18"

record tokenStore =
  publicKeys :: "string list"
  signingKeys :: privateKeys
  giantToken :: bytes
  giantTokenLocal :: bytes
  giantTokenLocalPayload :: "KnotFreeTokenPayload option"
  aTest32xToken :: bytes

text \<open>What these functions ask for: the built-in public keys, the file of private keys, the signature, a
  random name and the time.\<close>

record mint =
  builtin :: string
  keyFile :: "string option"
  jwtSign :: signature
  freshId :: string
  timeSec :: u32

definition loadKeys :: "mint \<Rightarrow> tokenStore \<Rightarrow> tokenStore outcome" where
  "loadKeys mt ts =
     bind_out (LoadPublicKeys (builtin mt) (publicKeys ts)) (\<lambda>ks.
       Ret (ts\<lparr>publicKeys := ks, signingKeys := LoadPrivateKeys (keyFile mt) (signingKeys ts)\<rparr>))"

definition GetSampleTokenFromStats :: "mint \<Rightarrow> tokenStore \<Rightarrow> string \<Rightarrow> KnotFreeContactStats \<Rightarrow>
    KnotFreeTokenPayload outcome" where
  "GetSampleTokenFromStats mt ts serviceUrl st =
     bind_out (GetPrivateKeyPrefix (LoadPrivateKeys (keyFile mt) (signingKeys ts)) 0) (\<lambda>prefix.
       Ret \<lparr>ExpirationTime = timeSec mt + 60 * 60 * 24 * 365, Issuer = prefix, JWTID = freshId mt, tokenStats = st,
            URL = serviceUrl, Pubk = []\<rparr>)"

definition GetSampleBigToken :: "mint \<Rightarrow> tokenStore \<Rightarrow> string \<Rightarrow> KnotFreeTokenPayload outcome" where
  "GetSampleBigToken mt ts serviceUrl =
     GetSampleTokenFromStats mt ts serviceUrl (priceStats (GetTokenStatsAndPrice GiantX32))"

text \<open>A token that is made is kept; an error of the signature leaves an empty one, which is made again.\<close>

definition GetImpromptuGiantToken :: "mint \<Rightarrow> tokenStore \<Rightarrow> (tokenStore \<times> bytes) outcome" where
  "GetImpromptuGiantToken mt ts =
     (if giantToken ts \<noteq> [] then Ret (ts, giantToken ts)
      else bind_out (loadKeys mt ts) (\<lambda>ts1.
        bind_out (GetSampleBigToken mt ts1 ''knotfree.net/mqtt'') (\<lambda>payload.
        bind_out (GetPrivateKeyWhole (signingKeys ts1) 0) (\<lambda>signingKey.
          let bbb = fst (MakeToken (jwtSign mt) payload signingKey) in Ret (ts1\<lparr>giantToken := bbb\<rparr>, bbb)))))"

text \<open>The local variant tests \<open>giantTokenLocal\<close> and stores into \<open>giantToken\<close>.\<close>

definition GetImpromptuGiantTokenLocal :: "mint \<Rightarrow> tokenStore \<Rightarrow> string \<Rightarrow> string \<Rightarrow>
    (tokenStore \<times> bytes \<times> KnotFreeTokenPayload option) outcome" where
  "GetImpromptuGiantTokenLocal mt ts personPubk jwtid =
     (if giantTokenLocal ts \<noteq> [] then Ret (ts, giantTokenLocal ts, giantTokenLocalPayload ts)
      else bind_out (loadKeys mt ts) (\<lambda>ts1.
        bind_out (GetSampleBigToken mt ts1 ''knotfree.dog:8085/mqtt'') (\<lambda>payload0.
          let payload1 = (if personPubk \<noteq> [] then payload0\<lparr>Pubk := personPubk\<rparr> else payload0);
              payload = (if jwtid \<noteq> [] then payload1\<lparr>JWTID := jwtid\<rparr> else payload1)
          in bind_out (GetPrivateKeyWhole (signingKeys ts1) 0) (\<lambda>signingKey.
            let bbb = fst (MakeToken (jwtSign mt) payload signingKey) in
            Ret (ts1\<lparr>giantToken := bbb, giantTokenLocalPayload := Some payload\<rparr>, bbb, Some payload)))))"

definition GetTest32xTokenwjwtid :: "mint \<Rightarrow> tokenStore \<Rightarrow> string \<Rightarrow> string \<Rightarrow> (tokenStore \<times> bytes) outcome" where
  "GetTest32xTokenwjwtid mt ts owner jwtid =
     (if aTest32xToken ts \<noteq> [] then Ret (ts, aTest32xToken ts)
      else bind_out (loadKeys mt ts) (\<lambda>ts1.
        bind_out (GetSampleTokenFromStats mt ts1 ''knotfree.dog:8085/mqtt''
            (priceStats (GetTokenStatsAndPrice Medium))) (\<lambda>payload0.
          let payload1 = (if owner \<noteq> [] then payload0\<lparr>Pubk := owner\<rparr> else payload0);
              payload = (if jwtid \<noteq> [] then payload1\<lparr>JWTID := jwtid\<rparr> else payload1)
          in bind_out (GetPrivateKeyWhole (signingKeys ts1) 0) (\<lambda>signingKey.
            let bbb = fst (MakeToken (jwtSign mt) payload signingKey) in Ret (ts1\<lparr>aTest32xToken := bbb\<rparr>, bbb)))))"

definition GetTest32xToken :: "mint \<Rightarrow> tokenStore \<Rightarrow> (tokenStore \<times> bytes) outcome" where
  "GetTest32xToken mt ts =
     (if aTest32xToken ts \<noteq> [] then Ret (ts, aTest32xToken ts)
      else bind_out (loadKeys mt ts) (\<lambda>ts1.
        bind_out (GetSampleTokenFromStats mt ts1 ''knotfree.dog:8085/mqtt''
            (priceStats (GetTokenStatsAndPrice Medium))) (\<lambda>payload.
        bind_out (GetPrivateKeyWhole (signingKeys ts1) 0) (\<lambda>signingKey.
          let bbb = fst (MakeToken (jwtSign mt) payload signingKey) in Ret (ts1\<lparr>aTest32xToken := bbb\<rparr>, bbb)))))"

text \<open>Without the public keys.\<close>

definition Get32xTokenLocal :: "mint \<Rightarrow> tokenStore \<Rightarrow> (tokenStore \<times> bytes) outcome" where
  "Get32xTokenLocal mt ts =
     (if aTest32xToken ts \<noteq> [] then Ret (ts, aTest32xToken ts)
      else let ts1 = ts\<lparr>signingKeys := LoadPrivateKeys (keyFile mt) (signingKeys ts)\<rparr> in
        bind_out (GetSampleTokenFromStats mt ts1 ''knotfree.dog:8085/mqtt''
            (priceStats (GetTokenStatsAndPrice Medium))) (\<lambda>payload.
        bind_out (GetPrivateKeyWhole (signingKeys ts1) 0) (\<lambda>signingKey.
          let bbb = fst (MakeToken (jwtSign mt) payload signingKey) in Ret (ts1\<lparr>aTest32xToken := bbb\<rparr>, bbb))))"

text \<open>A random phrase: the words at the positions that \<open>mathrand\<close> picks below the number of words.\<close>

definition MakeRandomPhrase :: "(nat \<Rightarrow> nat \<Rightarrow> nat) \<Rightarrow> string \<Rightarrow> nat \<Rightarrow> string" where
  "MakeRandomPhrase intn english amount =
     (let e_words = split_on (CHR 0x0A) english in
      join_with (CHR ''-'') (map (\<lambda>i. e_words ! intn i (length e_words)) [0..<amount]))"

section \<open>Where a request comes from\<close>

definition inRange :: "bytes \<times> bytes \<Rightarrow> bytes \<Rightarrow> bool" where
  "inRange r ipAddress \<longleftrightarrow> fst r \<le> ipAddress \<and> ipAddress < snd r"

definition privateRanges :: "(bytes \<times> bytes) list" where
  "privateRanges = map (\<lambda>(a, b). (mapped4 (map byte_of a), mapped4 (map byte_of b)))
     [([10, 0, 0, 0], [10, 255, 255, 255]), ([100, 64, 0, 0], [100, 127, 255, 255]),
      ([172, 16, 0, 0], [172, 31, 255, 255]), ([192, 0, 0, 0], [192, 0, 0, 255]),
      ([192, 168, 0, 0], [192, 168, 255, 255]), ([198, 18, 0, 0], [198, 19, 255, 255])]"

definition isPrivateSubnet :: "bytes \<Rightarrow> bool" where
  "isPrivateSubnet ipAddress \<longleftrightarrow> To4 ipAddress \<noteq> None \<and> (\<exists>r \<in> set privateRanges. inRange r ipAddress)"

definition publicAddress :: "string \<Rightarrow> bool" where
  "publicAddress ip \<longleftrightarrow> IsGlobalUnicast (ParseIP ip) \<and> \<not> isPrivateSubnet (the (ParseIP ip))"

text \<open>The values of the two headers, each searched from its right end.\<close>

definition GetIPAdress :: "string \<Rightarrow> string \<Rightarrow> string" where
  "GetIPAdress forwardedFor realIp =
     (let candidates = concat (map (\<lambda>h. map TrimSpace (rev (split_on (CHR '','') h))) [forwardedFor, realIp]) in
      case List.find publicAddress candidates of Some ip \<Rightarrow> ip | None \<Rightarrow> [])"

section \<open>The dispenser\<close>

record SavedToken =
  savedPayload :: KnotFreeTokenPayload
  IpAddress :: string

record dispenser =
  bootTimeSec :: int
  tokensServed :: int
  savedTokens :: "SavedToken list"

record TokenRequest =
  reqClientKey :: string
  reqComment :: string

record TokenReply =
  replyKey :: string
  replyPayload :: string
  replyNonce :: string

record tokenCall =
  remoteAddr :: string
  forwardedFor :: string
  realIp :: string
  hostName :: string
  requestBody :: "string + TokenRequest"

text \<open>The surroundings: the clock, the keys, \<open>box.Seal\<close> for the key of the node, its public key, and the
  errors of the database, if any.\<close>

record dispenserEnv =
  clock :: "nat \<Rightarrow> int"
  dispenserKeys :: privateKeys
  dispenserSign :: signature
  boxSeal :: "bytes \<Rightarrow> bytes \<Rightarrow> bytes \<Rightarrow> bytes"
  boxPublic :: bytes
  newId :: string
  connectFails :: bool
  findFails :: "string option"
  insertFails :: "string option"

datatype tokenAnswer = Dispensed TokenReply | TokenRefused string | NothingWritten

text \<open>Go's division of signed integers.\<close>

definition goDiv :: "int \<Rightarrow> int \<Rightarrow> int" where
  "goDiv a b = (if a < 0 then - ((- a) div b) else a div b)"

definition unix32 :: "int \<Rightarrow> u32" where
  "unix32 t = word_of_int t"

text \<open>A newer token first.\<close>

definition byExpiration :: "SavedToken list \<Rightarrow> SavedToken list" where
  "byExpiration ts = sort_key (\<lambda>t. - int (unat (ExpirationTime (savedPayload t)))) ts"

definition signAndReturnToken :: "dispenserEnv \<Rightarrow> dispenser \<Rightarrow> KnotFreeTokenPayload \<Rightarrow> string \<Rightarrow> string \<Rightarrow>
    (dispenser \<times> (string + TokenReply)) outcome" where
  "signAndReturnToken de st payload nonce clientPublicKey =
     bind_out (GetPrivateKeyWhole (dispenserKeys de) 0) (\<lambda>signingKey.
       case MakeToken (dispenserSign de) payload signingKey of
         (tokenString, Some err) \<Rightarrow> Ret (st, Inl err)
       | (tokenString, None) \<Rightarrow>
           let temp = fst (b64_decode clientPublicKey) in
           if length temp \<noteq> 32 then Ret (st, Inl ''bad size, need 32 has'')
           else let jwtid = take 24 (nonce @ replicate 24 (CHR 0x00)) in
             Ret (st\<lparr>tokensServed := tokensServed st + 1\<rparr>,
                  Inr \<lparr>replyKey = hex_encode (boxPublic de),
                       replyPayload = hex_encode (boxSeal de tokenString jwtid temp), replyNonce = nonce\<rparr>))"

text \<open>The site of the token: the last two parts of the host.\<close>

definition targetSite :: "string \<Rightarrow> string" where
  "targetSite host =
     (let parts0 = split_on (CHR ''.'') host;
          parts = (if length parts0 < 2 then split_on (CHR ''.'') ''local.localhost'' else parts0)
      in parts ! (length parts - 2) @ ''.'' @ parts ! (length parts - 1))"

definition withoutPort :: "string \<Rightarrow> string" where
  "withoutPort addr = join_with (CHR '':'') (butlast (split_on (CHR '':'') addr))"

definition requester :: "dispenserEnv \<Rightarrow> tokenCall \<Rightarrow> string" where
  "requester de rq =
     (let addr0 = withoutPort (remoteAddr rq);
          tmp = GetIPAdress (forwardedFor rq) (realIp rq);
          addr = (if tmp \<noteq> [] then tmp else addr0)
      in if addr = ''127.0.0.1'' then addr @ ''+'' @ dec_nat (nat (clock de 1 mod 10)) else addr)"

definition newTokenPayload :: "dispenserEnv \<Rightarrow> tokenCall \<Rightarrow> string \<Rightarrow> KnotFreeTokenPayload outcome" where
  "newTokenPayload de rq clientKey =
     bind_out (GetPrivateKeyPrefix (dispenserKeys de) 0) (\<lambda>prefix.
       Ret \<lparr>ExpirationTime = unix32 (clock de 4) + 60 * 60 * 24 * 90, Issuer = prefix, JWTID = newId de,
            tokenStats = priceStats (GetTokenStatsAndPrice TinyX4), URL = targetSite (hostName rq),
            Pubk = clientKey\<rparr>)"

text \<open>A request for which no token is reused: the rate is limited, then a token is made and saved.\<close>

definition dispenseNew :: "dispenserEnv \<Rightarrow> tokenCall \<Rightarrow> string \<Rightarrow> string \<Rightarrow> dispenser \<Rightarrow>
    (dispenser \<times> tokenAnswer) outcome" where
  "dispenseNew de rq addr clientKey st =
     (let now = clock de 3;
          passed = goDiv (now - bootTimeSec st) 6
      in if passed < tokensServed st then Ret (st, TokenRefused ''Token dispenser is too busy now.'')
         else let st1 = (if 60 < passed then st\<lparr>bootTimeSec := now, tokensServed := 0\<rparr> else st) in
           bind_out (newTokenPayload de rq clientKey) (\<lambda>payload.
           bind_out (signAndReturnToken de st1 payload (JWTID payload) clientKey) (\<lambda>(st2, r).
             case r of
               Inl err \<Rightarrow> Ret (st2, NothingWritten)
             | Inr reply \<Rightarrow>
                 Ret (if insertFails de = None
                      then st2\<lparr>savedTokens := savedTokens st2 @ [\<lparr>savedPayload = payload, IpAddress = addr\<rparr>]\<rparr> else st2,
                      Dispensed reply))))"

definition ServeMakeToken :: "dispenserEnv \<Rightarrow> tokenCall \<Rightarrow> dispenser \<Rightarrow> (dispenser \<times> tokenAnswer) outcome" where
  "ServeMakeToken de rq st0 =
     (let st = (if bootTimeSec st0 = 0 then st0\<lparr>bootTimeSec := clock de 0\<rparr> else st0) in
      case requestBody rq of
        Inl err \<Rightarrow> Ret (st, TokenRefused err)
      | Inr treq \<Rightarrow>
          let clientKey = reqClientKey treq in
          if length clientKey < 43 then Ret (st, TokenRefused ''bad client key'')
          else
            let addr = requester de rq in
            if connectFails de then Ret (st, TokenRefused ''bad mongo.Connect'')
            else case findFails de of
                   Some err \<Rightarrow> Ret (st, TokenRefused err)
                 | None \<Rightarrow>
                     (case byExpiration (filter (\<lambda>t. IpAddress t = addr) (savedTokens st)) of
                        [] \<Rightarrow> dispenseNew de rq addr clientKey st
                      | t # ts \<Rightarrow>
                          if unix32 (clock de 2) + 60 * 60 * 24 * 90 < ExpirationTime (savedPayload t)
                          then bind_out (signAndReturnToken de st (savedPayload t) (JWTID (savedPayload t)) clientKey)
                                 (\<lambda>(st1, r). Ret (st1, case r of Inl err \<Rightarrow> NothingWritten | Inr reply \<Rightarrow> Dispensed reply))
                          else dispenseNew de rq addr clientKey st))"

end
