(* ===== verification/Dispenser.thy ===== *)
theory Dispenser
  imports Minting
begin

text \<open>
  Properties of the making of tokens: what a dispensed token is worth, how many are dispensed, that none is
  dispensed twice, and whose token a process has after it made one for somebody.
\<close>

section \<open>The states of the dispenser\<close>

text \<open>A request is served between \<open>t\<close> and the last reading of its clock, which runs forward and ends before
  the year 2106.\<close>

definition clock_ok :: "int \<Rightarrow> dispenserEnv \<Rightarrow> bool" where
  "clock_ok t de \<longleftrightarrow> t \<le> clock de 0 \<and> (\<forall>i < 4. clock de i \<le> clock de (Suc i)) \<and> clock de 4 < 2 ^ 32 - 7776000"

inductive reachedDispenser :: "int \<Rightarrow> dispenser \<Rightarrow> bool" where
  Booted: "0 < t \<Longrightarrow> reachedDispenser t \<lparr>bootTimeSec = 0, tokensServed = 0, savedTokens = []\<rparr>"
| Served: "reachedDispenser t st \<Longrightarrow> clock_ok t de \<Longrightarrow> ServeMakeToken de rq st = Ret (st', a) \<Longrightarrow>
    reachedDispenser (clock de 4) st'"

definition dispenser_ok :: "int \<Rightarrow> dispenser \<Rightarrow> bool" where
  "dispenser_ok t st \<longleftrightarrow> 0 < t
    \<and> (bootTimeSec st = 0 \<and> tokensServed st = 0
       \<or> 0 < bootTimeSec st \<and> bootTimeSec st \<le> t \<and> tokensServed st \<le> (t - bootTimeSec st) div 6 + 1
         \<and> tokensServed st \<le> 61)
    \<and> (\<forall>s \<in> set (savedTokens st). int (unat (ExpirationTime (savedPayload s))) \<le> t + 7776000)"

lemma clock_steps:
  assumes "clock_ok t de"
  shows "t \<le> clock de 0" "clock de 0 \<le> clock de 2" "clock de 2 \<le> clock de 3" "clock de 3 \<le> clock de 4"
    "clock de 4 < 2 ^ 32 - 7776000"
proof -
  have s: "clock de i \<le> clock de (Suc i)" if "i < 4" for i
    using assms that by (simp add: clock_ok_def)
  show "t \<le> clock de 0" "clock de 4 < 2 ^ 32 - 7776000" using assms by (simp_all add: clock_ok_def)
  show "clock de 0 \<le> clock de 2" using s [of 0] s [of 1] by (simp add: numeral_2_eq_2)
  show "clock de 2 \<le> clock de 3" using s [of 2] by (simp add: numeral_3_eq_3)
  show "clock de 3 \<le> clock de 4" using s [of 3] by simp
qed

lemma expiry_value:
  assumes "0 < n" "n < 2 ^ 32 - 7776000"
  shows "int (unat (unix32 n + 60 * 60 * 24 * 90)) = n + 7776000"
proof -
  have "unat (unix32 n) = nat n"
    using assms by (simp add: unix32_def unsigned_of_int take_bit_int_eq_self)
  then have "unat (unix32 n) + unat (7776000 :: u32) < 2 ^ 32" using assms by simp
  then have "unat (unix32 n + 7776000) = nat n + 7776000"
    using \<open>unat (unix32 n) = nat n\<close> by (subst unat_add_lem [THEN iffD1]) simp_all
  then show ?thesis using assms by simp
qed

lemma goDiv_pos: "0 \<le> a \<Longrightarrow> goDiv a b = a div b"
  by (simp add: goDiv_def)

text \<open>What signing and \<open>dispenseNew\<close> can do.\<close>

definition nonceOf :: "string \<Rightarrow> bytes" where
  "nonceOf nonce = take 24 (nonce @ replicate 24 (CHR 0x00))"

lemma sign_cases:
  assumes "signAndReturnToken de st p nonce clientKey = Ret (st2, r)"
  obtains (failed) err where "r = Inl err" "st2 = st"
  | (signed) key tok where "GetPrivateKeyWhole (dispenserKeys de) 0 = Ret key" "dispenserSign de p key = Inr tok"
    "length (fst (b64_decode clientKey)) = 32" "st2 = st\<lparr>tokensServed := tokensServed st + 1\<rparr>"
    "r = Inr \<lparr>replyKey = hex_encode (boxPublic de),
       replyPayload = hex_encode (boxSeal de tok (nonceOf nonce) (fst (b64_decode clientKey))), replyNonce = nonce\<rparr>"
proof -
  obtain key where k: "GetPrivateKeyWhole (dispenserKeys de) 0 = Ret key"
    using assms by (auto simp: signAndReturnToken_def bind_out_Ret)
  show ?thesis
  proof (cases "dispenserSign de p key")
    case (Inl err)
    then show ?thesis using assms k failed by (auto simp: signAndReturnToken_def MakeToken_def)
  next
    case (Inr tok)
    then show ?thesis using assms k failed signed
      by (cases "length (fst (b64_decode clientKey)) = 32")
        (auto simp: signAndReturnToken_def MakeToken_def Let_def nonceOf_def)
  qed
qed

lemma dispenseNew_cases:
  assumes "dispenseNew de rq addr key st = Ret (st', a)"
  obtains (busy) "st' = st" "a = TokenRefused ''Token dispenser is too busy now.''"
    "goDiv (clock de 3 - bootTimeSec st) 6 < tokensServed st"
  | (given) st1 payload reply where "\<not> goDiv (clock de 3 - bootTimeSec st) 6 < tokensServed st"
    "st1 = (if 60 < goDiv (clock de 3 - bootTimeSec st) 6 then st\<lparr>bootTimeSec := clock de 3, tokensServed := 0\<rparr> else st)"
    "newTokenPayload de rq key = Ret payload"
    "signAndReturnToken de st1 payload (JWTID payload) key = Ret (st1\<lparr>tokensServed := tokensServed st1 + 1\<rparr>, Inr reply)"
    "a = Dispensed reply"
    "st' = (let st2 = st1\<lparr>tokensServed := tokensServed st1 + 1\<rparr> in
       if insertFails de = None then st2\<lparr>savedTokens := savedTokens st2 @ [\<lparr>savedPayload = payload, IpAddress = addr\<rparr>]\<rparr> else st2)"
  | (failed) "\<not> goDiv (clock de 3 - bootTimeSec st) 6 < tokensServed st"
    "st' = (if 60 < goDiv (clock de 3 - bootTimeSec st) 6 then st\<lparr>bootTimeSec := clock de 3, tokensServed := 0\<rparr> else st)"
    "a = NothingWritten"
proof (cases "goDiv (clock de 3 - bootTimeSec st) 6 < tokensServed st")
  case True
  then show ?thesis using assms busy by (simp add: dispenseNew_def Let_def)
next
  case False
  define st1 where "st1 = (if 60 < goDiv (clock de 3 - bootTimeSec st) 6
    then st\<lparr>bootTimeSec := clock de 3, tokensServed := 0\<rparr> else st)"
  define fin where "fin = (\<lambda>payload (st2 :: dispenser, r :: string + TokenReply). case r of Inl err \<Rightarrow> Ret (st2, NothingWritten) | Inr reply \<Rightarrow>
     Ret (if insertFails de = None
          then st2\<lparr>savedTokens := savedTokens st2 @ [\<lparr>savedPayload = payload, IpAddress = addr\<rparr>]\<rparr> else st2,
          Dispensed reply))"
  have "bind_out (newTokenPayload de rq key) (\<lambda>payload.
      bind_out (signAndReturnToken de st1 payload (JWTID payload) key) (fin payload)) = Ret (st', a)"
    using assms False by (simp add: dispenseNew_def Let_def st1_def fin_def)
  then obtain payload st2 r where p: "newTokenPayload de rq key = Ret payload"
      "signAndReturnToken de st1 payload (JWTID payload) key = Ret (st2, r)" "fin payload (st2, r) = Ret (st', a)"
    by (auto simp only: bind_out_Ret)
  show ?thesis
  proof (cases r)
    case (Inl err)
    then have "st2 = st1" using p(2) by (auto elim: sign_cases)
    then show ?thesis using failed False p(3) Inl by (simp add: st1_def fin_def)
  next
    case (Inr reply)
    then have s2: "st2 = st1\<lparr>tokensServed := tokensServed st1 + 1\<rparr>" using p(2) by (auto elim: sign_cases)
    show ?thesis
      by (rule given [OF False st1_def p(1), of reply]) (use p(2,3) Inr s2 in \<open>simp_all add: fin_def\<close>)
  qed
qed


lemma dispenseNew_keeps:
  assumes "dispenseNew de rq addr key st = Ret (st', a)" "clock_ok t de"
    and "dispenser_ok (clock de 0) st" "0 < bootTimeSec st"
  shows "dispenser_ok (clock de 4) st'"
proof -
  note c = clock_steps [OF assms(2)]
  define passed where "passed = (clock de 3 - bootTimeSec st) div 6"
  have b: "bootTimeSec st \<le> clock de 0" "0 < clock de 0" using assms(3,4) by (auto simp: dispenser_ok_def)
  then have g: "goDiv (clock de 3 - bootTimeSec st) 6 = passed" using c by (simp add: goDiv_def passed_def)
  have mono: "(u - bootTimeSec st) div 6 \<le> (v - bootTimeSec st) div 6" if "u \<le> v" for u v
    using that by (intro zdiv_mono1) simp_all
  have saved: "\<forall>s \<in> set (savedTokens st). int (unat (ExpirationTime (savedPayload s))) \<le> clock de 4 + 7776000"
    using assms(3) c by (force simp: dispenser_ok_def)
  have old: "dispenser_ok (clock de 4) st"
    using assms(3,4) b c saved mono [of "clock de 0" "clock de 4"] by (auto simp: dispenser_ok_def)
  define st1 where "st1 = (if 60 < passed then st\<lparr>bootTimeSec := clock de 3, tokensServed := 0\<rparr> else st)"
  have st1: "dispenser_ok (clock de 4) st1" "0 < bootTimeSec st1" "savedTokens st1 = savedTokens st"
    using old assms(4) b c by (auto simp: st1_def dispenser_ok_def)
  have room: "tokensServed st1 \<le> (clock de 3 - bootTimeSec st1) div 6" "tokensServed st1 \<le> 60"
    if "\<not> passed < tokensServed st"
    using that by (auto simp: st1_def passed_def)
  show ?thesis
    using assms(1)
  proof (cases rule: dispenseNew_cases)
    case busy
    then show ?thesis using old by simp
  next
    case failed
    then show ?thesis using st1(1) by (simp add: g st1_def)
  next
    case (given st1' payload reply)
    have e: "st1' = st1" using given(2) by (simp add: g st1_def)
    have "ExpirationTime payload = unix32 (clock de 4) + 60 * 60 * 24 * 90"
      using given(3) by (auto simp: newTokenPayload_def bind_out_Ret)
    then have x: "int (unat (ExpirationTime payload)) = clock de 4 + 7776000"
      using expiry_value [of "clock de 4"] b c by simp
    have "tokensServed st1 + 1 \<le> (clock de 4 - bootTimeSec st1) div 6 + 1"
      using room(1) given(1) c zdiv_mono1 [of "clock de 3 - bootTimeSec st1" "clock de 4 - bootTimeSec st1" 6] by (simp add: g)
    moreover have "tokensServed st1 + 1 \<le> 61" using room(2) given(1) by (simp add: g)
    ultimately show ?thesis
      using given(6) st1 x saved by (auto simp: e Let_def dispenser_ok_def)
  qed
qed

text \<open>No token in the database is good for three months more: each expires three months after it was made.\<close>

lemma newest_is_old:
  assumes "clock_ok t de" "dispenser_ok (clock de 0) st" "s \<in> set (savedTokens st)"
  shows "\<not> unix32 (clock de 2) + 60 * 60 * 24 * 90 < ExpirationTime (savedPayload s)"
proof -
  note c = clock_steps [OF assms(1)]
  have p: "0 < clock de 2" using assms(2) c by (simp add: dispenser_ok_def)
  have "int (unat (ExpirationTime (savedPayload s))) \<le> clock de 2 + 7776000"
    using assms(2,3) c by (fastforce simp: dispenser_ok_def)
  also have "\<dots> = int (unat (unix32 (clock de 2) + 60 * 60 * 24 * 90))"
    using p c by (intro expiry_value [symmetric]) simp_all
  finally show ?thesis by (simp only: word_less_nat_alt of_nat_le_iff not_less)
qed

lemma byExpiration_set [simp]: "set (byExpiration ts) = set ts"
  by (simp add: byExpiration_def)

definition booted :: "dispenserEnv \<Rightarrow> dispenser \<Rightarrow> dispenser" where
  "booted de st = (if bootTimeSec st = 0 then st\<lparr>bootTimeSec := clock de 0\<rparr> else st)"

lemma booted_ok:
  assumes "dispenser_ok t st" "clock_ok t de"
  shows "dispenser_ok (clock de 0) (booted de st)" "0 < bootTimeSec (booted de st)"
    "savedTokens (booted de st) = savedTokens st"
proof -
  note c = clock_steps [OF assms(2)]
  have m: "(t - bootTimeSec st) div 6 \<le> (clock de 0 - bootTimeSec st) div 6"
    using c by (intro zdiv_mono1) simp_all
  show "dispenser_ok (clock de 0) (booted de st)" "0 < bootTimeSec (booted de st)"
    using assms(1) c m by (force simp: dispenser_ok_def booted_def)+
  show "savedTokens (booted de st) = savedTokens st" by (simp add: booted_def)
qed

text \<open>So a request either changes nothing but the boot time, or is served with a new token.\<close>

lemma served_cases:
  assumes "ServeMakeToken de rq st = Ret (st', a)" "dispenser_ok t st" "clock_ok t de"
  obtains (refused) msg where "st' = booted de st" "a = TokenRefused msg"
  | (new) treq addr where "requestBody rq = Inr treq" "43 \<le> length (reqClientKey treq)"
    "dispenseNew de rq addr (reqClientKey treq) (booted de st) = Ret (st', a)"
proof -
  note b = booted_ok [OF assms(2,3)]
  have "\<not> unix32 (clock de 2) + 60 * 60 * 24 * 90 < ExpirationTime (savedPayload s)"
    if "byExpiration (filter q (savedTokens (booted de st))) = s # ss" for q s ss
  proof -
    have "s \<in> set (byExpiration (filter q (savedTokens (booted de st))))" using that by simp
    then have "s \<in> set (savedTokens (booted de st))" by simp
    then show ?thesis by (rule newest_is_old [OF assms(3) b(1)])
  qed
  then show ?thesis
    using assms(1) refused new
    unfolding ServeMakeToken_def booted_def [symmetric] Let_def
    by (auto split: sum.splits if_splits option.splits list.splits)
qed

lemma served_keeps:
  assumes "ServeMakeToken de rq st = Ret (st', a)" "dispenser_ok t st" "clock_ok t de"
  shows "dispenser_ok (clock de 4) st'"
proof -
  note b = booted_ok [OF assms(2,3)] and c = clock_steps [OF assms(3)]
  have later: "dispenser_ok (clock de 4) (booted de st)"
    using b(1,2) c zdiv_mono1 [of "clock de 0 - bootTimeSec (booted de st)" "clock de 4 - bootTimeSec (booted de st)" 6]
    by (force simp: dispenser_ok_def)
  show ?thesis
    using assms
  proof (cases rule: served_cases)
    case refused
    then show ?thesis using later by simp
  next
    case new
    then show ?thesis using dispenseNew_keeps [OF new(3) assms(3) b(1,2)] by simp
  qed
qed

lemma reachedDispenser_ok: "reachedDispenser t st \<Longrightarrow> dispenser_ok t st"
proof (induction rule: reachedDispenser.induct)
  case (Booted t)
  then show ?case by (simp add: dispenser_ok_def)
next
  case (Served t st de rq st' a)
  then show ?case using served_keeps by blast
qed


section \<open>An example\<close>

text \<open>The first request after the start, from a client whose key is 32 times the letter A.\<close>

definition clientKey32 :: string where
  "clientKey32 = b64_encode (replicate 32 (CHR ''A''))"

definition freePayload :: KnotFreeTokenPayload where
  "freePayload = \<lparr>ExpirationTime = unix32 1004 + 60 * 60 * 24 * 90, Issuer = ''QkJC'', JWTID = ''id'',
     tokenStats = priceStats (GetTokenStatsAndPrice TinyX4), URL = targetSite ''knotfree.net'', Pubk = clientKey32\<rparr>"

definition freeToken :: string where
  "freeToken = firstPart2 @ ''.''"

definition freeEnv :: dispenserEnv where
  "freeEnv = \<lparr>clock = (\<lambda>i. 1000 + int i),
     dispenserKeys = \<lparr>knownPrivateKeys = [''QkJC'' \<mapsto> ''key''], knownPrivateKeyPrefixes = [''QkJC''], keysLoaded = True\<rparr>,
     dispenserSign = (\<lambda>p key. if p = freePayload then Inr freeToken else Inl ''no''), boxSeal = (\<lambda>m n k. m),
     boxPublic = ''public'', newId = ''id'', connectFails = False, findFails = None, insertFails = None\<rparr>"

definition freeCall :: tokenCall where
  "freeCall = \<lparr>remoteAddr = ''1.2.3.4:5'', forwardedFor = [], realIp = [], hostName = ''knotfree.net'',
     requestBody = Inr \<lparr>reqClientKey = clientKey32, reqComment = []\<rparr>\<rparr>"

definition freeAnswer :: TokenReply where
  "freeAnswer = \<lparr>replyKey = hex_encode ''public'', replyPayload = hex_encode freeToken, replyNonce = ''id''\<rparr>"

definition bootState :: dispenser where
  "bootState = \<lparr>bootTimeSec = 0, tokensServed = 0, savedTokens = []\<rparr>"

definition freeState :: dispenser where
  "freeState = \<lparr>bootTimeSec = 1000, tokensServed = 1,
     savedTokens = [\<lparr>savedPayload = freePayload, IpAddress = requester freeEnv freeCall\<rparr>]\<rparr>"

lemma b64_encode_length: "length (b64_encode bs) = (4 * length bs + 2) div 3"
  by (induction bs rule: b64_encode.induct) (simp_all add: Let_def)

lemma clientKey32_length: "length clientKey32 = 43"
  by (simp add: clientKey32_def b64_encode_length)

lemma clientKey32_decoded: "b64_decode clientKey32 = (replicate 32 (CHR ''A''), True)"
  by (simp add: clientKey32_def b64_decode_encode)

lemma free_keys:
  "GetPrivateKeyPrefix (dispenserKeys freeEnv) 0 = Ret ''QkJC''" "GetPrivateKeyWhole (dispenserKeys freeEnv) 0 = Ret ''key''"
  by (simp_all add: freeEnv_def GetPrivateKeyWhole_def GetPrivateKeyPrefix_def GetPrivateKeyMatching_def)

lemma free_payload: "newTokenPayload freeEnv freeCall clientKey32 = Ret freePayload"
  by (simp add: newTokenPayload_def free_keys) (simp add: freeEnv_def freeCall_def freePayload_def)

lemma free_served: "ServeMakeToken freeEnv freeCall bootState = Ret (freeState, Dispensed freeAnswer)"
proof -
  let ?st = "\<lparr>bootTimeSec = 1000, tokensServed = 0, savedTokens = []\<rparr>"
  have j: "JWTID freePayload = ''id''" by (simp add: freePayload_def)
  have "signAndReturnToken freeEnv ?st freePayload (JWTID freePayload) clientKey32
      = Ret (?st\<lparr>tokensServed := 1\<rparr>, Inr freeAnswer)"
    by (simp add: signAndReturnToken_def free_keys MakeToken_def clientKey32_decoded Let_def j)
      (simp add: freeEnv_def freeAnswer_def)
  then have "dispenseNew freeEnv freeCall (requester freeEnv freeCall) clientKey32 ?st = Ret (freeState, Dispensed freeAnswer)"
    by (simp add: dispenseNew_def free_payload goDiv_def Let_def) (simp add: freeEnv_def freeState_def goDiv_def)
  moreover have "clock freeEnv 0 = 1000" "connectFails freeEnv = False" "findFails freeEnv = None"
    by (simp_all add: freeEnv_def)
  ultimately show ?thesis
    by (simp add: ServeMakeToken_def bootState_def freeCall_def [THEN arg_cong [of _ _ requestBody]] clientKey32_length
        byExpiration_def Let_def)
qed

lemma free_clock: "clock_ok 1 freeEnv"
  by (simp add: clock_ok_def freeEnv_def)

lemma free_booted: "reachedDispenser 1 bootState"
  unfolding bootState_def by (rule Booted) simp

section \<open>How many\<close>



section \<open>None twice\<close>

text \<open>The dispenser never hands out a token again: it looks for one in the database that is good for
  more than three months, but all are made for three months. So whoever asks again gets a new token each
  time, and each is saved.\<close>

theorem free_tokens_are_never_reused:
  assumes "reachedDispenser t st" "clock_ok t de" "ServeMakeToken de rq st = Ret (st', Dispensed reply)"
  shows "replyNonce reply = newId de
    \<and> (insertFails de = None \<longrightarrow> (\<exists>s. savedTokens st' = savedTokens st @ [s] \<and> JWTID (savedPayload s) = newId de))"
  using assms(3) reachedDispenser_ok [OF assms(1)] assms(2)
proof (cases rule: served_cases)
  case (new treq addr)
  show ?thesis
    using new(3)
  proof (cases rule: dispenseNew_cases)
    case (given st1 payload reply')
    have "JWTID payload = newId de" using given(3) by (auto simp: newTokenPayload_def bind_out_Ret)
    moreover have "replyNonce reply' = JWTID payload" using given(4) by (auto elim: sign_cases)
    moreover have "savedTokens st1 = savedTokens st"
      using given(2) booted_ok(3) [OF reachedDispenser_ok [OF assms(1)] assms(2)] by simp
    ultimately show ?thesis using given(5,6) by (auto simp: Let_def)
  qed simp_all
qed simp

theorem free_tokens_are_never_reused_witness:
  "\<exists>s. savedTokens freeState = [s] \<and> JWTID (savedPayload s) = ''id''"
  using free_tokens_are_never_reused [OF free_booted free_clock free_served] by (simp add: freeEnv_def bootState_def)

section \<open>What a token is worth\<close>

text \<open>Of the packages \<open>jwt\<close> and \<open>box\<close>: a token is its header, the claims and the signature in base64, the
  claims do not end in the text of the other header, the key pair verifies what it signed, and a box opens
  for the key it was sealed for.\<close>

definition signs_for :: "verifier \<Rightarrow> signature \<Rightarrow> bytes \<Rightarrow> bytes \<Rightarrow> bool" where
  "signs_for v sign key pub \<longleftrightarrow> (\<forall>p tok. sign p key = Inr tok \<longrightarrow> jwtVerify v tok pub = Some p
     \<and> (\<exists>claims sig. tok = firstPart2 @ b64_encode claims @ ''.'' @ b64_encode sig \<and> parseClaims v claims = Some p)
     \<and> \<not> contains tok firstPart)"

definition opens_for :: "dispenserEnv \<Rightarrow> (bytes \<Rightarrow> bytes \<Rightarrow> bytes option) \<Rightarrow> bytes \<Rightarrow> bool" where
  "opens_for de openBox pub \<longleftrightarrow> (\<forall>m n. openBox (boxSeal de m n pub) n = Some m)"

lemma b64_digit_byte: "b64_byte (b64_digit n)" "b64_digit n \<noteq> CHR ''.''"
proof -
  have "\<forall>c \<in> set b64_alphabet. b64_byte c \<and> c \<noteq> CHR ''.''" by code_simp
  moreover have "b64_digit n \<in> set b64_alphabet"
    by (simp add: b64_digit_def b64_alphabet_length)
  ultimately show "b64_byte (b64_digit n)" "b64_digit n \<noteq> CHR ''.''" by auto
qed

lemma index_of_dot: "CHR ''.'' \<notin> set a \<Longrightarrow> index_of (a @ CHR ''.'' # b) ''.'' = Some (length a)"
  by (induction a) (auto simp: index_of.simps [of "_ # _"])

lemma token_is_found:
  assumes "tok = firstPart2 @ b64_encode claims @ ''.'' @ b64_encode sig" "parseClaims v claims = Some p"
    and "\<not> contains tok firstPart"
  shows "GetKnotFreePayload (parseClaims v) tok = Inr (tok, Issuer p)"
proof -
  have f: "findHeader tok = Some (0, length firstPart2)"
    using assms(1,3) by (simp add: findHeader_def contains_def index_of.simps [of "firstPart2 @ _"])
  have d: "drop (length firstPart2) tok = b64_encode claims @ CHR ''.'' # b64_encode sig" using assms(1) by simp
  have i: "index_of (b64_encode claims @ CHR ''.'' # b64_encode sig) ''.'' = Some (length (b64_encode claims))"
    by (rule index_of_dot) (use b64_encode_chars b64_digit_byte(2) in fastforce)
  have w: "takeWhile b64_byte (b64_encode sig) = b64_encode sig"
    using b64_encode_chars b64_digit_byte(1) by (fastforce simp: takeWhile_eq_all_conv)
  have t: "take (length firstPart2 + length (b64_encode claims) + 1) tok @ b64_encode sig = tok" using assms(1) by simp
  show ?thesis
    using assms(2) t by (simp add: GetKnotFreePayload_def f d i w b64_decode_encode Let_def)
qed

text \<open>C34: A dispensed token is what it should be: whoever has the private key of the request opens the
  payload of the answer with its nonce and finds a token that the node accepts, which belongs to that
  key, has the limits of the free token, and is good for three months.\<close>

theorem dispensed_tokens_are_valid:
  assumes "reachedDispenser t st" "clock_ok t de" "ServeMakeToken de rq st = Ret (st', Dispensed reply)"
    and "requestBody rq = Inr treq" "opens_for de openBox (fst (b64_decode (reqClientKey treq)))"
    and "GetPrivateKeyWhole (dispenserKeys de) 0 = Ret key" "GetPrivateKeyPrefix (dispenserKeys de) 0 = Ret prefix"
    and "signs_for v (dispenserSign de) key pub" "FindPublicKey (builtinKeys v) keys prefix = Ret (keys, pub)" "length pub = 32"
  shows "\<exists>tok payload. openBox (fst (hex_decode (replyPayload reply))) (nonceOf (replyNonce reply)) = Some tok
    \<and> ValidateToken v keys tok = Ret (keys, Inr payload)
    \<and> Pubk payload = reqClientKey treq \<and> tokenStats payload = priceStats (GetTokenStatsAndPrice TinyX4)
    \<and> int (unat (ExpirationTime payload)) = clock de 4 + 7776000"
  using assms(3) reachedDispenser_ok [OF assms(1)] assms(2)
proof (cases rule: served_cases)
  case (new treq' addr)
  note b = booted_ok [OF reachedDispenser_ok [OF assms(1)] assms(2)] and c = clock_steps [OF assms(2)]
  show ?thesis
    using new(3)
  proof (cases rule: dispenseNew_cases)
    case (given st1 payload reply')
    have p: "payload = \<lparr>ExpirationTime = unix32 (clock de 4) + 60 * 60 * 24 * 90, Issuer = prefix, JWTID = newId de,
        tokenStats = priceStats (GetTokenStatsAndPrice TinyX4), URL = targetSite (hostName rq), Pubk = reqClientKey treq\<rparr>"
      using given(3) assms(4,7) new(1) by (simp add: newTokenPayload_def)
    obtain tok where s: "dispenserSign de payload key = Inr tok" "replyNonce reply = JWTID payload"
        "replyPayload reply = hex_encode (boxSeal de tok (nonceOf (JWTID payload)) (fst (b64_decode (reqClientKey treq))))"
      using given(4,5) assms(4,6) new(1) by (auto elim!: sign_cases)
    have v: "jwtVerify v tok pub = Some payload" "GetKnotFreePayload (parseClaims v) tok = Inr (tok, prefix)"
      using assms(8) s(1) token_is_found [of tok _ _ v payload] p by (auto simp: signs_for_def)
    have "ValidateToken v keys tok = Ret (keys, Inr payload)"
      using v assms(9,10) by (simp add: ValidateToken_def)
    moreover have "int (unat (ExpirationTime payload)) = clock de 4 + 7776000"
      using expiry_value [of "clock de 4"] b(1) c by (simp add: p dispenser_ok_def)
    ultimately show ?thesis
      using assms(5) s p by (intro exI [of _ tok] exI [of _ payload]) (simp add: opens_for_def hex_decode_encode)
  qed simp_all
qed simp

definition freeVerifier :: verifier where
  "freeVerifier = \<lparr>parseClaims = (\<lambda>b. Some freePayload), jwtVerify = (\<lambda>t pk. Some freePayload), builtinKeys = []\<rparr>"

lemma free_signs: "signs_for freeVerifier (dispenserSign freeEnv) ''key'' pub"
proof -
  have "freeToken = firstPart2 @ b64_encode [] @ ''.'' @ b64_encode []" by (simp add: freeToken_def)
  moreover have "\<not> contains freeToken firstPart" by code_simp
  ultimately show ?thesis
    unfolding signs_for_def
    by (intro allI impI conjI exI [of _ "[]"]) (auto simp: freeEnv_def freeVerifier_def split: if_splits)
qed

lemma free_find:
  "FindPublicKey [] [replicate 32 (CHR ''B'')] ''QkJC'' = Ret ([replicate 32 (CHR ''B'')], replicate 32 (CHR ''B''))"
proof -
  have "b64_decode ''QkJC'' = (''BBB'', True)"
    by (simp add: b64_decode_def b64_value_def char_of_def bit_numeral_rec bit_0)
  then have "findKey [replicate 32 (CHR ''B'')] ''QkJC'' = Ret (firstWith [replicate 32 (CHR ''B'')] ''BBB'')"
    by (intro findKey_first) simp_all
  moreover have "firstWith [replicate 32 (CHR ''B'')] ''BBB'' = replicate 32 (CHR ''B'')" by code_simp
  ultimately show ?thesis by (simp add: FindPublicKey_def LoadPublicKeys_def)
qed

theorem dispensed_tokens_are_valid_witness:
  "\<exists>tok payload. ValidateToken freeVerifier [replicate 32 (CHR ''B'')] tok = Ret ([replicate 32 (CHR ''B'')], Inr payload)
    \<and> Pubk payload = clientKey32 \<and> int (unat (ExpirationTime payload)) = 1004 + 7776000"
proof -
  have r: "requestBody freeCall = Inr \<lparr>reqClientKey = clientKey32, reqComment = []\<rparr>" by (simp add: freeCall_def)
  have o: "opens_for freeEnv (\<lambda>c n. Some c) pub" for pub by (simp add: opens_for_def freeEnv_def)
  have f: "FindPublicKey (builtinKeys freeVerifier) [replicate 32 (CHR ''B'')] ''QkJC''
      = Ret ([replicate 32 (CHR ''B'')], replicate 32 (CHR ''B''))"
    using free_find by (simp add: freeVerifier_def)
  show ?thesis
    using dispensed_tokens_are_valid [OF free_booted free_clock free_served r o free_keys(2,1) free_signs f]
    by (auto simp: freeEnv_def)
qed

section \<open>The token of somebody else\<close>

text \<open>A process that makes a token for one person takes it for its own from then on:
  \<open>GetImpromptuGiantTokenLocal\<close> stores it as the giant token, so \<open>GetImpromptuGiantToken\<close> returns the token with
  that person's key and the address of a local server, and a local token for the next person replaces it,
  since the one it looks for is never stored.\<close>

theorem local_token_becomes_the_giant_token:
  assumes "giantTokenLocal ts = []" "GetImpromptuGiantTokenLocal mt ts person jwtid = Ret (ts', tok, Some payload)"
    and "tok \<noteq> []" "person \<noteq> []"
  shows "GetImpromptuGiantToken mt' ts' = Ret (ts', tok) \<and> giantTokenLocal ts' = []
    \<and> Pubk payload = person \<and> URL payload = ''knotfree.dog:8085/mqtt''"
  using assms
  by (auto simp: GetImpromptuGiantTokenLocal_def GetImpromptuGiantToken_def bind_out_Ret Let_def loadKeys_def
      GetSampleBigToken_def GetSampleTokenFromStats_def)

definition localMint :: mint where
  "localMint = \<lparr>builtin = [], keyFile = None, jwtSign = (\<lambda>p key. Inr ''token''), freshId = ''id'', timeSec = 0\<rparr>"

definition localStore :: tokenStore where
  "localStore = \<lparr>publicKeys = [''k''], signingKeys = dispenserKeys freeEnv, giantToken = ''mine'', giantTokenLocal = [],
     giantTokenLocalPayload = None, aTest32xToken = []\<rparr>"

theorem local_token_becomes_the_giant_token_witness:
  "\<exists>ts'. bind_out (GetImpromptuGiantTokenLocal localMint localStore ''you'' []) (\<lambda>(ts1, r).
      GetImpromptuGiantToken localMint ts1) = Ret (ts', ''token'') \<and> giantToken localStore = ''mine''"
proof -
  let ?p = "\<lparr>ExpirationTime = 60 * 60 * 24 * 365, Issuer = ''QkJC'', JWTID = ''id'',
    tokenStats = priceStats (GetTokenStatsAndPrice GiantX32), URL = ''knotfree.dog:8085/mqtt'', Pubk = ''you''\<rparr>"
  let ?ts = "localStore\<lparr>giantToken := ''token'', giantTokenLocalPayload := Some ?p\<rparr>"
  have k: "keysLoaded (dispenserKeys freeEnv)" by (simp add: freeEnv_def)
  have l: "GetImpromptuGiantTokenLocal localMint localStore ''you'' [] = Ret (?ts, ''token'', Some ?p)"
    by (simp add: GetImpromptuGiantTokenLocal_def loadKeys_def LoadPublicKeys_def localStore_def LoadPrivateKeys_def k
        GetSampleBigToken_def GetSampleTokenFromStats_def free_keys localMint_def MakeToken_def Let_def)
  show ?thesis
    using local_token_becomes_the_giant_token [OF _ l, of localMint] l by (simp add: localStore_def)
qed

text \<open>The ranges of private addresses do not contain their last address.\<close>

lemma last_private_address_is_public: "GetIPAdress ''10.255.255.255'' [] = ''10.255.255.255''"
  by code_simp

lemma private_address_is_skipped: "GetIPAdress ''8.8.8.8, 10.0.0.7'' [] = ''8.8.8.8''"
  by code_simp

end
