(* ===== verification/TextLines.thy ===== *)
theory TextLines
  imports Server Sessions
begin

text \<open>
  The server of the text protocol (\<open>iot/text-protocol.go\<close>): one packet per line. The loop can run for ever, so
  it takes the number of its rounds; the record \<open>line\<close> holds what it meets, twice per round: before the
  contact is looked at, and before a packet is pushed.
\<close>

section \<open>The loop\<close>

definition localMakeTextContact :: "u32 \<Rightarrow> contactConfig \<Rightarrow> session \<times> contactConfig" where
  "localMakeTextContact now config = localMakeTCPContact now config"

text \<open>\<open>ReadString\<close> and the cut of the last byte: the line, what follows it, and whether the stream ended before
  the end of the line. Lines are read from the socket itself, so their bytes are not counted.\<close>

definition readLine :: "bytes \<Rightarrow> string \<times> bytes \<times> bool" where
  "readLine bs =
     (let l = takeWhile (\<lambda>c. c \<noteq> CHR 0x0A) bs in
      if length l < length bs then (l, drop (Suc (length l)) bs, False) else (butlast bs, [], True))"

datatype textEnd = TextExecutiveClosed | TextContactClosed | TextDeadlineError | TextReadError | TextParseError | TextRunning

fun textLoop :: "nat \<Rightarrow> line \<Rightarrow> nat \<Rightarrow> bytes \<Rightarrow> session \<Rightarrow> looker \<Rightarrow>
    (session \<times> looker \<times> sessionEffect list \<times> textEnd) outcome" where
  "textLoop 0 cn k bs ss me = Ret (ss, me, [], TextRunning)"
| "textLoop (Suc n) cn k bs ss me =
     (if exClosedAt cn k then Ret (ss, me, [], TextExecutiveClosed)
      else let (ss1, me1) = meanwhile cn (2 * k) ss me in
        if isClosedNow ss1 then Ret (ss1, me1, [], TextContactClosed)
        else if deadlineFailsAt cn k then Ret (ss1, me1, [], TextDeadlineError)
        else case readLine bs of (str, rest, failed) \<Rightarrow>
          if str = [] then textLoop n cn (Suc k) rest ss1 me1
          else if failed then Ret (ss1, me1, [], TextReadError)
          else bind_out (Text2Packet str) (\<lambda>r. case r of
            Inl e \<Rightarrow> Ret (ss1, me1, [], TextParseError)
          | Inr p \<Rightarrow>
              let (ss2, me2) = meanwhile cn (2 * k + 1) ss1 me1 in
              bind_out (PushPacketUpFromBottom (envAt cn k) (queuedAt cn k) me2 ss2 (body p)) (\<lambda>(ss3, me3, effs).
              bind_out (textLoop n cn (Suc k) rest ss3 me3) (\<lambda>(ss4, me4, effs', why).
                Ret (ss4, me4, effs @ effs', why)))))"

definition textConnection :: "nat \<Rightarrow> line \<Rightarrow> u32 \<Rightarrow> contactConfig \<Rightarrow> bytes \<Rightarrow> looker \<Rightarrow>
    (session \<times> contactConfig \<times> looker \<times> sessionEffect list \<times> textEnd) option outcome" where
  "textConnection rounds cn now config bs me =
     (let (ss, config1) = localMakeTextContact now config in
      if setupFails cn then (let (ss2, config2) = DoClose ss config1 in Ret (Some (ss2, config2, me, [], TextReadError)))
      else bind_out (textLoop rounds cn 0 bs ss me) (\<lambda>(ss1, me1, effs, why).
        if why = TextRunning then Ret None
        else let (ss2, config2) = DoClose ss1 config1 in Ret (Some (ss2, config2, me1, effs, why))))"

section \<open>Lines are served\<close>

definition lineOf :: "pkt \<Rightarrow> bytes" where
  "lineOf p = packetString p @ [CHR 0x0A]"

definition printable :: "pkt \<Rightarrow> bool" where
  "printable p \<longleftrightarrow> packet_wf (body p) \<and> backingUniversal p = None \<and> text_ok (toUniversal (body p))
     \<and> length (uArgs (toUniversal (body p))) \<le> 11 \<and> CHR 0x0A \<notin> set (packetString p)"

lemma printable_parses: "printable p \<Longrightarrow> Text2Packet (packetString p) = Ret (Inr p)"
  using text_packet [of p] by (cases p) (simp add: printable_def)

lemma readLine_line:
  assumes "CHR 0x0A \<notin> set s"
  shows "readLine (s @ CHR 0x0A # r) = (s, r, False)"
proof -
  have "takeWhile (\<lambda>c. c \<noteq> CHR 0x0A) (s @ CHR 0x0A # r) = s"
    using assms by (subst takeWhile_append2) auto
  then show ?thesis by (simp add: readLine_def Let_def)
qed

lemma packetString_nonempty: "packetString p \<noteq> []"
  by (simp add: packetString_def ToJSON_def packetWrite_def Let_def UniversalToJSON_def split: option.splits)

text \<open>The specification: the packets pushed up one after the other, until the contact is closed.\<close>

fun pushLines :: "line \<Rightarrow> nat \<Rightarrow> pkt list \<Rightarrow> session \<Rightarrow> looker \<Rightarrow>
    (session \<times> looker \<times> sessionEffect list \<times> bool) outcome" where
  "pushLines cn k [] ss me = Ret (ss, me, [], True)"
| "pushLines cn k (p # ps) ss me =
     (let (ss1, me1) = meanwhile cn (2 * k) ss me in
      if isClosedNow ss1 then Ret (ss1, me1, [], False)
      else let (ss2, me2) = meanwhile cn (2 * k + 1) ss1 me1 in
        bind_out (PushPacketUpFromBottom (envAt cn k) (queuedAt cn k) me2 ss2 (body p)) (\<lambda>(ss3, me3, effs).
        bind_out (pushLines cn (Suc k) ps ss3 me3) (\<lambda>(ss4, me4, effs', more).
          Ret (ss4, me4, effs @ effs', more))))"

lemma bind_out_if: "bind_out (if c then a else b) f = (if c then bind_out a f else bind_out b f)"
  by simp

lemma lines_are_served:
  assumes "\<forall>p \<in> set ps. printable p" "\<forall>j. \<not> exClosedAt cn j \<and> \<not> deadlineFailsAt cn j"
  shows "textLoop (length ps + n) cn k (concat (map lineOf ps) @ rest) ss me
    = bind_out (pushLines cn k ps ss me) (\<lambda>(ss', me', effs, alive).
        if \<not> alive then Ret (ss', me', effs, TextContactClosed)
        else bind_out (textLoop n cn (k + length ps) rest ss' me') (\<lambda>(ss2, me2, effs', why).
          Ret (ss2, me2, effs @ effs', why)))"
  using assms(1)
proof (induction ps arbitrary: k ss me)
  case Nil
  then show ?case by (simp add: split_def)
next
  case (Cons p ps)
  have p: "printable p" "\<forall>q \<in> set ps. printable q" using Cons.prems by auto
  have l: "readLine (concat (map lineOf (p # ps)) @ rest) = (packetString p, concat (map lineOf ps) @ rest, False)"
    using readLine_line [of "packetString p" "concat (map lineOf ps) @ rest"] p(1)
    by (simp add: lineOf_def printable_def)
  obtain ss1 me1 ss2 me2 where m: "meanwhile cn (2 * k) ss me = (ss1, me1)"
      "meanwhile cn (2 * k + 1) ss1 me1 = (ss2, me2)"
    by (metis surj_pair)
  show ?case
  proof (cases "isClosedNow ss1")
    case True
    then show ?thesis using assms(2) m by simp
  next
    case False
    have s: "textLoop (length (p # ps) + n) cn k (concat (map lineOf (p # ps)) @ rest) ss me
        = bind_out (PushPacketUpFromBottom (envAt cn k) (queuedAt cn k) me2 ss2 (body p)) (\<lambda>(ss3, me3, effs).
          bind_out (textLoop (length ps + n) cn (Suc k) (concat (map lineOf ps) @ rest) ss3 me3) (\<lambda>(ss4, me4, effs', why).
            Ret (ss4, me4, effs @ effs', why)))"
      using assms(2) m False by (simp add: l [simplified] packetString_nonempty printable_parses [OF p(1)])
    show ?thesis
      unfolding s Cons.IH [OF p(2)] using m False
      by (simp add: bind_out_assoc split_def bind_out_if cong: if_cong)
  qed
qed

section \<open>The end of a text connection\<close>

text \<open>Nobody else closes the contact.\<close>

definition staysOpen :: "line \<Rightarrow> bool" where
  "staysOpen cn \<longleftrightarrow> (\<forall>j ss me. \<not> isClosedNow ss \<longrightarrow> \<not> isClosedNow (fst (meanwhile cn j ss me)))"

lemma end_spins:
  assumes "staysOpen cn" "\<forall>j. \<not> exClosedAt cn j \<and> \<not> deadlineFailsAt cn j" "\<not> isClosedNow ss"
  shows "\<exists>ss' me'. textLoop n cn k [] ss me = Ret (ss', me', [], TextRunning)"
  using assms(3)
proof (induction n arbitrary: k ss me)
  case (Suc n)
  obtain ss1 me1 where m: "meanwhile cn (2 * k) ss me = (ss1, me1)" by fastforce
  then have o: "\<not> isClosedNow ss1" using assms(1) Suc.prems by (metis fst_conv staysOpen_def)
  show ?case using Suc.IH [OF o] assms(2) m o by (simp add: readLine_def)
qed simp

text \<open>A text connection whose client is gone is never given up: after the last line every read fails, but an
  empty line is skipped before the error is looked at, so the loop goes round and round, without a pause,
  until somebody else closes the contact or the node.\<close>

theorem ended_text_connection_spins:
  assumes "\<forall>p \<in> set ps. printable p" "localMakeTextContact now config = (ss, config1)" "\<not> setupFails cn"
    and "\<forall>j. \<not> exClosedAt cn j \<and> \<not> deadlineFailsAt cn j" "staysOpen cn"
    and "pushLines cn 0 ps ss me = Ret (ss', me', effs, True)" "\<not> isClosedNow ss'"
  shows "textConnection (length ps + n) cn now config (concat (map lineOf ps)) me = Ret None"
proof -
  obtain ss2 me2 where e: "textLoop n cn (length ps) [] ss' me' = Ret (ss2, me2, [], TextRunning)"
    using end_spins [OF assms(5,4,7)] by blast
  have "textLoop (length ps + n) cn 0 (concat (map lineOf ps)) ss me = Ret (ss2, me2, effs, TextRunning)"
    using lines_are_served [OF assms(1,4), of n 0 "[]" ss me] e assms(6) by simp
  then show ?thesis using assms(2,3) by (simp add: textConnection_def)
qed

definition deadLine :: line where
  "deadLine = \<lparr>setupFails = False, envAt = (\<lambda>k. sampleSessionEnv), queuedAt = (\<lambda>k. 0), meanwhile = (\<lambda>k ss me. (ss, me)),
     exClosedAt = (\<lambda>k. False), deadlineFailsAt = (\<lambda>k. False)\<rparr>"

theorem ended_text_connection_spins_witness:
  "textConnection 1000000 deadLine 0 (NewContactStructConfig (Hash 0 0 0)) [] sampleGuru = Ret None"
proof -
  obtain ss config1 where l: "localMakeTextContact 0 (NewContactStructConfig (Hash 0 0 0)) = (ss, config1)" by fastforce
  then have "\<not> isClosedNow ss"
    by (auto simp: localMakeTextContact_def localMakeTCPContact_def AddContactStruct_def Let_def split_def)
  then show ?thesis
    using ended_text_connection_spins [OF _ l, of "[]" deadLine sampleGuru ss sampleGuru "[]" 1000000]
    by (simp add: deadLine_def staysOpen_def)
qed

end
