(* ===== verification/Relay.thy ===== *)
theory Relay
  imports Server Sessions
begin

text \<open>
  Packets that are read from one connection and written to another, as an aide does with what its clients
  send: an address is made binary on the way, the rest is kept.
\<close>

section \<open>Sizes\<close>

definition argsSize :: "bytes list \<Rightarrow> nat" where
  "argsSize args = sum_list (map length args)"

definition optionsSize :: "options \<Rightarrow> nat" where
  "optionsSize opts = sum_list (map (\<lambda>(k, v). length k + length v) opts)"

lemma optionsSize_put: "optionsSize (om_put k v m) \<le> optionsSize m + length k + length v"
  by (induction k v m rule: om_put.induct) (auto simp: optionsSize_def)

lemma length_put: "length (om_put k v m) \<le> Suc (length m)"
  by (induction k v m rule: om_put.induct) auto

lemma unpackLoop_size:
  "optionsSize (unpackLoop i key args opts) \<le> optionsSize opts + (if odd i then length key else 0) + argsSize args"
proof (induction i key args opts rule: unpackLoop.induct)
  case (2 i key arg args opts)
  show ?case
    using 2 optionsSize_put [of key arg opts] by (auto simp: SetOption_def argsSize_def)
qed simp

lemma unpackLoop_count:
  "2 * length (unpackLoop i key args opts) \<le> 2 * length opts + (if odd i then 1 else 0) + length args"
proof (induction i key args opts rule: unpackLoop.induct)
  case (2 i key arg args opts)
  show ?case
    using 2 length_put [of key arg opts] by (auto simp: SetOption_def)
qed simp

lemma packOptions_size:
  "argsSize (packOptions opts args) = argsSize args + optionsSize opts"
  "length (packOptions opts args) = length args + 2 * length opts"
proof -
  have "argsSize (concat (map (\<lambda>(k, v). [k, v]) opts)) = optionsSize opts"
    "length (concat (map (\<lambda>(k, v). [k, v]) opts)) = 2 * length opts"
    by (induction opts) (auto simp: argsSize_def optionsSize_def)
  then show "argsSize (packOptions opts args) = argsSize args + optionsSize opts"
    "length (packOptions opts args) = length args + 2 * length opts"
    by (simp_all add: packOptions_eq argsSize_def)
qed

lemma unpack_size:
  "optionsSize (unpackOptions args []) \<le> argsSize args" "2 * length (unpackOptions args []) \<le> length args"
  using unpackLoop_size [of 0 "''none''" args "[]"] unpackLoop_count [of 0 "''none''" args "[]"]
  by (simp_all add: unpackOptions_def optionsSize_def)

section \<open>What is relayed\<close>

fun normalized :: "packet \<Rightarrow> packet" where
  "normalized (Subscribe a opts) = Subscribe (EnsureAddressIsBinary a) opts"
| "normalized (Unsubscribe a opts) = Unsubscribe (EnsureAddressIsBinary a) opts"
| "normalized (Lookup a s opts) = Lookup (EnsureAddressIsBinary a) s opts"
| "normalized (Send a s payload opts) = Send (EnsureAddressIsBinary a) s payload opts"
| "normalized p = p"

fun sources :: "packet \<Rightarrow> AddressUnion list" where
  "sources (Lookup a s opts) = [s]"
| "sources (Send a s payload opts) = [s]"
| "sources p = []"

definition relayed :: "pkt \<Rightarrow> pkt" where
  "relayed p = \<lparr>body = normalized (body p), backingUniversal = None\<rparr>"

lemma key_bytes: "length (ToBytes (EnsureAddressIsBinary a)) = 25"
  using ensure_is_key [of a] by (simp add: is_key_def ToBytes_def HashTypeLen_def)

lemma source_bytes: "length (ToBytes (FromBytes s)) \<le> length s"
  by (simp add: to_from_bytes split: list.split)

lemma fill_relayed:
  assumes "fillBody u = Inr b" "\<forall>s \<in> set (sources b). addr_wf s"
  shows "packet_wf (normalized b)"
    "length (uArgs (toUniversal (normalized b))) \<le> length (uArgs u)"
    "argsSize (uArgs (toUniversal (normalized b))) \<le> argsSize (uArgs u) + 25"
proof -
  have k: "addr_wf (EnsureAddressIsBinary a)" for a by (rule key_wf) simp
  have w: "opts_wf (unpackOptions r [])" for r by (rule unpack_wf)
  show "packet_wf (normalized b)"
    using assms k w by (auto simp: fill_defs split: if_splits list.splits)
  show "length (uArgs (toUniversal (normalized b))) \<le> length (uArgs u)"
    using assms unpack_size(2) by (auto simp: fill_defs packOptions_size split: if_splits list.splits)
  have e: "argsSize (x # xs) = length x + argsSize xs" "argsSize [] = 0" for x xs by (simp_all add: argsSize_def)
  have o: "optionsSize (unpackOptions r []) \<le> x + argsSize r" "optionsSize (unpackOptions r []) \<le> argsSize r + x"
    "length (ToBytes (FromBytes q)) + optionsSize (unpackOptions r []) \<le> x + (length q + argsSize r)"
    "length (ToBytes (FromBytes q)) + (y + optionsSize (unpackOptions r [])) \<le> x + (length q + (y + argsSize r))" for r q x y
    using unpack_size(1) [of r] source_bytes [of q] by linarith+
  show "argsSize (uArgs (toUniversal (normalized b))) \<le> argsSize (uArgs u) + 25"
    using assms by (auto simp: fill_defs packOptions_size e key_bytes o split: if_splits list.splits)
qed


lemma read_array_size: "ReadArrayOfByteArray bs = Inr (args, r) \<Longrightarrow> length r + argsSize args \<le> length bs"
proof -
  assume "ReadArrayOfByteArray bs = Inr (args, r)"
  then obtain c r1 ls r2 where bs: "bs = c # r1" "readLengths (byte_val c) r1 = Inr (ls, r2)" "sum_list ls \<le> length r2"
      and a: "args = sliceArgs ls (take (sum_list ls) r2)" "r = drop (sum_list ls) r2"
    by (auto simp: ReadArrayOfByteArray_def readFull_def split: list.splits sum.splits prod.splits if_splits)
  have "map length args = ls" unfolding a using bs(3) by (intro slice_lengths) simp
  then have "argsSize args = sum_list ls" by (simp add: argsSize_def)
  then show ?thesis using readLengths_shorter [OF bs(2)] bs(1,3) by (simp add: a(2))
qed

lemma read_packet_parts:
  assumes "ReadPacket bs = Inr (p, r)"
  obtains u where "fillBody u = Inr (body p)" "backingUniversal p = None" "args_fit (uArgs u)"
    "length r + argsSize (uArgs u) < length bs"
proof -
  obtain u where u: "ReadUniversal bs = Inr (u, r)" "FillPacket u = Inr p"
    using assms by (auto simp: ReadPacket_def split: sum.splits prod.splits)
  have "length r + argsSize (uArgs u) < length bs"
    using u(1) by (auto simp: ReadUniversal_def less_Suc_eq_le split: list.splits sum.splits prod.splits dest: read_array_size)
  then show ?thesis
    using that [of u] u read_universal_consumes [OF u(1)] by (auto simp: FillPacket_def split: sum.splits)
qed

text \<open>C27: Whatever bytes a packet is read from, it is well formed: with its address made binary it can be
  written again, and whoever reads that gets the same packet, provided that its source is not one of the
  ambiguous texts and that 25 more bytes for the address do not make it too long.\<close>

theorem read_packets_can_be_relayed:
  assumes "ReadPacket bs = Inr (p, r)" "\<forall>s \<in> set (sources (body p)). addr_wf s"
    and "length bs - length r + 25 \<le> 8000000"
  shows "ReadPacket (wire (relayed p) @ rest) = Inr (relayed p, rest)"
proof -
  obtain u where u: "fillBody u = Inr (body p)" "args_fit (uArgs u)" "length r + argsSize (uArgs u) < length bs"
    using read_packet_parts [OF assms(1)] by blast
  note f = fill_relayed [OF u(1) assms(2)]
  have "args_fit (uArgs (toUniversal (normalized (body p))))"
    using f(2,3) u(2,3) assms(3) by (simp add: args_fit_def argsSize_def)
  then show ?thesis
    using f(1) by (intro read_wire) (simp add: writable_def relayed_def)
qed

lemma short_varlen: "byte_val b < 128 \<Longrightarrow> ReadVarLenInt (b # r) = Inr (byte_val b, r)"
  using varLenLoop.simps(3) [of 3 0 b r] by (simp add: ReadVarLenInt_def)

definition subscribeBytes :: bytes where
  "subscribeBytes = [CHR ''S'', byte_of 1, byte_of 1, CHR ''a'']"

theorem read_packets_can_be_relayed_witness:
  "\<exists>p. ReadPacket subscribeBytes = Inr (p, []) \<and> body p = Subscribe (FromString ''a'') []
    \<and> ReadPacket (wire (relayed p)) = Inr (relayed p, [])"
proof -
  have "readLengths (Suc 0) [byte_of 1, CHR ''a''] = Inr ([1], ''a'')" by (simp add: short_varlen)
  then have "ReadPacket subscribeBytes = Inr (\<lparr>body = Subscribe (FromString ''a'') [], backingUniversal = None\<rparr>, [])"
    by (simp add: subscribeBytes_def ReadPacket_def ReadUniversal_def ReadArrayOfByteArray_def readFull_def
        FillPacket_def fill_defs unpackOptions_def FromString_def)
  then show ?thesis
    using read_packets_can_be_relayed [of subscribeBytes _ "[]" "[]"] by (simp add: subscribeBytes_def)
qed

section \<open>What is not\<close>

text \<open>A source that is spelled as a text of a tag and a key comes out as that key at the next node.\<close>

lemma ambiguous_source_changes:
  "length k = 32 \<Longrightarrow> FromBytes (ToBytes (FromBytes (Utf8Address # CHR ''='' # k))) \<noteq> FromBytes (Utf8Address # CHR ''='' # k)"
  by (simp add: FromBytes_def ToBytes_def)

lemma read_too_long:
  assumes "length args < 128" "8000000 \<le> sum_list (map length args)" "\<forall>a \<in> set args. length a < 2 ^ 28"
  shows "WriteArrayOfByteArray args = Inr w \<Longrightarrow> ReadArrayOfByteArray (w @ r) = Inl PacketTooLong"
  using read_lengths_write [of args "concat args @ r"] assms
  by (auto simp: WriteArrayOfByteArray_def ReadArrayOfByteArray_def)

text \<open>A publication that just fits to an aide does not fit from the aide to the guru: with a short address
  and a payload of 7,999,975 bytes or more it is read, but with its address made binary it is too long,
  the guru gives an error instead of the packet, and closes the line to the aide. Any client can send it.\<close>

theorem full_packets_cut_the_line:
  assumes "a \<noteq> Utf8Address" "7999975 \<le> length payload" "length payload < 7999999"
    and "\<not> exClosedAt cn k" "\<not> deadlineFailsAt cn k"
  shows "\<exists>p. (\<forall>r. ReadPacket (wire \<lparr>body = Send (FromString [a]) (FromString []) payload [], backingUniversal = None\<rparr> @ r) = Inr (p, r))
    \<and> serveFrom cn k (wire (relayed p) @ rest) ss me = Ret (ss, me, [], ReadError PacketTooLong)"
proof -
  let ?p = "\<lparr>body = Send (FromString [a]) (FromString []) payload [], backingUniversal = None\<rparr> :: pkt"
  have f: "FromString [a] = \<lparr>addrType = Utf8Address, addrBytes = [a]\<rparr>" "FromString [] = \<lparr>addrType = Utf8Address, addrBytes = []\<rparr>"
    using assms(1) by (simp_all add: FromString_def FromBytes_def)
  have w: "writable ?p"
    using assms(1-3) by (simp add: writable_def f addr_wf_def opts_wf_def args_fit_def packOptions_eq ToBytes_def)
      (simp add: FromBytes_def)
  let ?args = "[ToBytes (EnsureAddressIsBinary (FromString [a])), [], payload]"
  have u: "uArgs (toUniversal (body (relayed ?p))) = ?args" "uCmd (toUniversal (body (relayed ?p))) = CHR ''P''"
    by (simp_all add: relayed_def packOptions_eq f ToBytes_def)
  obtain x where x: "WriteArrayOfByteArray ?args = Inr x" by (simp add: WriteArrayOfByteArray_def)
  have "ReadArrayOfByteArray (x @ rest) = Inl PacketTooLong"
    using assms(2,3) x by (intro read_too_long [of ?args]) (simp_all add: key_bytes)
  then have "ReadPacket (wire (relayed ?p) @ rest) = Inl PacketTooLong"
    using x u by (simp add: wire_def packetWrite_def relayed_def Let_def universalWrite_def ReadPacket_def ReadUniversal_def)
  then have "serveFrom cn k (wire (relayed ?p) @ rest) ss me = Ret (ss, me, [], ReadError PacketTooLong)"
    using assms(4,5) by (simp add: serveFrom.simps)
  then show ?thesis using read_wire [OF w] by blast
qed

definition calmLine :: line where
  "calmLine = \<lparr>setupFails = False, envAt = (\<lambda>k. sampleSessionEnv), queuedAt = (\<lambda>k. 0), meanwhile = (\<lambda>k ss me. (ss, me)),
     exClosedAt = (\<lambda>k. False), deadlineFailsAt = (\<lambda>k. False)\<rparr>"

definition bigPayload :: bytes where
  "bigPayload = replicate 7999980 (CHR ''x'')"

theorem full_packets_cut_the_line_witness:
  "\<exists>p. ReadPacket (wire \<lparr>body = Send (FromString ''t'') (FromString []) bigPayload [],
      backingUniversal = None\<rparr>) = Inr (p, [])
    \<and> serveFrom calmLine 0 (wire (relayed p)) sampleSession sampleGuru = Ret (sampleSession, sampleGuru, [], ReadError PacketTooLong)"
proof -
  have n: "length bigPayload = 7999980" unfolding bigPayload_def by (rule length_replicate)
  have t: "CHR ''t'' \<noteq> Utf8Address" by simp
  obtain p where p: "\<forall>r. ReadPacket (wire \<lparr>body = Send (FromString ''t'') (FromString []) bigPayload [],
      backingUniversal = None\<rparr> @ r) = Inr (p, r)"
    "serveFrom calmLine 0 (wire (relayed p) @ []) sampleSession sampleGuru = Ret (sampleSession, sampleGuru, [], ReadError PacketTooLong)"
    using full_packets_cut_the_line [OF t, of bigPayload calmLine 0 "[]" sampleSession sampleGuru]
    unfolding n by (auto simp: calmLine_def)
  show ?thesis using p(1) [THEN spec, of "[]"] p(2) by (intro exI [of _ p]) simp
qed

end
