(* ===== verification/WebApi.thy ===== *)
theory WebApi
  imports Subdomain LookMsg Minting
begin

text \<open>
  The public HTTP server (\<open>iot/servers.go\<close>) and the name service (\<open>iot/nameServices.go\<close>): which host and path
  go where, the commands that a host name stands for, and the requests that are answered by lookups or
  from the database. The other handlers, \<open>box.Open\<close> and \<open>box.Seal\<close> with the key of the node, the database
  and the service that asks the cluster (\<open>GetPacketReply\<close>) are arguments. A panic within a handler ends the
  request only: \<open>net/http\<close> recovers it.
\<close>

section \<open>Text\<close>

text \<open>\<open>strings.ReplaceAll\<close> for a pattern that is not empty.\<close>

function replaceAll :: "string \<Rightarrow> string \<Rightarrow> string \<Rightarrow> string" where
  "replaceAll s pat rep =
     (if pat = [] then s
      else case index_of s pat of
             None \<Rightarrow> s
           | Some i \<Rightarrow> take i s @ rep @ replaceAll (drop (i + length pat) s) pat rep)"
  by pat_completeness auto
termination
proof (relation "measure (\<lambda>(s, p, r). length s)")
  fix s pat rep :: string and i
  assume "pat \<noteq> []" "index_of s pat = Some i"
  then show "((drop (i + length pat) s, pat, rep), s, pat, rep) \<in> measure (\<lambda>(s, p, r). length s)"
    using index_of_found [of s pat i] by (cases "s = []") (auto simp: length_greater_0_conv)
qed simp

declare replaceAll.simps [simp del]

text \<open>\<open>strings.Split\<close> at a text of two bytes and more.\<close>

function splitAt :: "string \<Rightarrow> string \<Rightarrow> string list" where
  "splitAt s sep =
     (if sep = [] then [s]
      else case index_of s sep of
             None \<Rightarrow> [s]
           | Some i \<Rightarrow> take i s # splitAt (drop (i + length sep) s) sep)"
  by pat_completeness auto
termination
proof (relation "measure (\<lambda>(s, p). length s)")
  fix s pat :: string and i
  assume "pat \<noteq> []" "index_of s pat = Some i"
  then show "((drop (i + length pat) s, pat), s, pat) \<in> measure (\<lambda>(s, p). length s)"
    using index_of_found [of s pat i] by (cases "s = []") (auto simp: length_greater_0_conv)
qed simp

declare splitAt.simps [simp del]

text \<open>An HTTP message: its first line, its headers by name, its body.\<close>

definition ParsePayload :: "string \<Rightarrow> string \<times> (string \<rightharpoonup> string) \<times> string" where
  "ParsePayload httpBytes =
     (case index_of httpBytes (crlf @ crlf) of
        Some (Suc p) \<Rightarrow>
          let headerParts = splitAt (take (Suc p) httpBytes) crlf in
          (hd headerParts,
           fold (\<lambda>head m. case index_of head '':'' of
               Some (Suc q) \<Rightarrow> if 3 < length head
                 then m(trimSpaces (take (Suc q) head) \<mapsto> trimSpaces (drop (Suc q + 1) head)) else m
             | _ \<Rightarrow> m) (tl headerParts) Map.empty,
           drop (Suc p + 4) httpBytes)
      | _ \<Rightarrow> ([], Map.empty, []))"

section \<open>Hosts\<close>

text \<open>Top-level domains that stand for names of things.\<close>

definition sites :: "(string \<times> string) list" where
  "sites = [(''xyz'', ''_xyz''), (''iot'', ''_iot''), (''vr'', ''_vr''), (''pod'', ''_pod''), (''test'', ''_iot'')]"

fun rewriteSite :: "string \<times> string \<Rightarrow> string \<Rightarrow> string" where
  "rewriteSite (tld, site) h =
     (if contains h (CHR ''.'' # tld) then replaceAll h (CHR ''.'' # tld) (site @ ''.knotfree.net'') else h)"

definition rewriteHost :: "string \<Rightarrow> string" where
  "rewriteHost host = fold rewriteSite sites (hd (split_on (CHR '':'') host))"

definition isApiRequest :: "string \<Rightarrow> bool" where
  "isApiRequest uri \<longleftrightarrow> has_prefix uri ''/api1/'' \<or> uri = ''/mqtt'' \<or> uri = ''/healthz'' \<or> uri = ''/livez''"

datatype route = ToApi | ToPage string string | ToCommand string string

definition routeRequest :: "string \<Rightarrow> string \<Rightarrow> route" where
  "routeRequest host uri =
     (if isApiRequest uri then ToApi
      else
        let theHost = rewriteHost host;
            parts = butlast (split_on (CHR ''.'') theHost)
        in if length parts = 2 \<and> hd parts \<noteq> ''www'' then ToPage (hd parts) theHost
           else if 2 < length parts
             then ToCommand (parts ! (length parts - 2)) (join_with (CHR '' '') (take (length parts - 2) parts))
           else ToApi)"

section \<open>Questions to the cluster\<close>

definition zeroAddress :: AddressUnion where
  "zeroAddress = \<lparr>addrType = CHR 0x00, addrBytes = []\<rparr>"

text \<open>A body, or the text and status of an error.\<close>

type_synonym webAnswer = "(string \<times> nat) + bytes"

definition commandPacket :: "string \<Rightarrow> string \<Rightarrow> packet" where
  "commandPacket subDomain command = Lookup (FromString subDomain) zeroAddress (SetOption ''cmd'' command [])"

definition commandAnswer :: "(packet \<Rightarrow> string + packet) \<Rightarrow> string \<Rightarrow> string \<Rightarrow> webAnswer" where
  "commandAnswer ask subDomain command =
     (case ask (commandPacket subDomain command) of
        Inr (Send a s payload opts) \<Rightarrow> Inr payload
      | _ \<Rightarrow> Inl (''404 page not found'', 404))"

text \<open>An answer that is no \<open>Send\<close> panics.\<close>

definition nameStatusAnswer :: "(packet \<Rightarrow> string + packet) \<Rightarrow> string \<Rightarrow> webAnswer outcome" where
  "nameStatusAnswer ask name =
     (case ask (commandPacket name ''exists'') of
        Inl err \<Rightarrow> Ret (Inl (err, 500))
      | Inr (Send a s payload opts) \<Rightarrow> Ret (Inr payload)
      | Inr p \<Rightarrow> Panic)"

text \<open>The name service: a command, in the clear and sealed, becomes a lookup of the name.\<close>

record nameQuery =
  qCmd :: string
  qSealed :: string
  qNonce :: string
  qPubk :: string
  qName :: string

definition nameServicePacket :: "nameQuery \<Rightarrow> bytes \<Rightarrow> packet" where
  "nameServicePacket q binSealed =
     Lookup (FromString (qName q)) zeroAddress
       (SetOption ''sealed'' binSealed (SetOption ''nonc'' (qNonce q)
         (SetOption ''pubk'' (qPubk q) (SetOption ''cmd'' (qCmd q) []))))"

definition NameService :: "(string \<Rightarrow> string) \<Rightarrow> (packet \<Rightarrow> string + packet) \<Rightarrow> nameQuery \<Rightarrow> webAnswer outcome" where
  "NameService b64err ask q =
     (if qName q = [] then Ret (Inl (''no name provided'', 500))
      else case b64_decode (qSealed q) of (binSealed, ok) \<Rightarrow>
        if \<not> ok then Ret (Inl (b64err (qSealed q), 500))
        else case ask (nameServicePacket q binSealed) of
               Inl err \<Rightarrow> Ret (Inl (''nameservice:'' @ err, 500))
             | Inr (Send a s payload opts) \<Rightarrow> Ret (Inr payload)
             | Inr p \<Rightarrow> Panic)"

section \<open>The names of an owner\<close>

text \<open>The list of names as JSON comes from the database; the answer is sealed for the one who asks.\<close>

record namesQuery =
  nCmd :: string
  nNonce :: string
  nPubk :: string

definition getNames :: "services \<Rightarrow> (bytes \<Rightarrow> bytes \<Rightarrow> bytes \<Rightarrow> bytes) \<Rightarrow> (string \<Rightarrow> string + bytes) \<Rightarrow> namesQuery \<Rightarrow>
    webAnswer" where
  "getNames sv seal listNames q =
     (case b64_decode (nCmd q) of (bincmd, ok) \<Rightarrow>
        if \<not> ok then Inl (base64Error sv (nCmd q), 500)
        else case b64_decode (nPubk q) of (pk, ok2) \<Rightarrow>
          if \<not> ok2 then Inl (base64Error sv (nPubk q), 500)
          else
            let nonce = fitBytes 24 (nNonce q); pubk = fitBytes 32 pk in
            case boxOpen sv bincmd nonce pubk of
              None \<Rightarrow> Inl (''box open failed'', 500)
            | Some opened \<Rightarrow>
                let parts = split_on (CHR ''#'') opened in
                if length parts \<noteq> 2 then Inl (''parts len != 2'', 500)
                else if parts ! 0 \<noteq> nPubk q then Inl (''pubk not match'', 500)
                else case parse_int 64 (parts ! 1) of
                       None \<Rightarrow> Inl (''time not int'', 500)
                     | Some seconds \<Rightarrow>
                         if \<not> timeIsNear (wallSeconds sv) seconds then Inl (''time not match'', 500)
                         else case listNames (nPubk q) of
                                Inl err \<Rightarrow> Inl (err, 500)
                              | Inr payload \<Rightarrow> Inr (b64_encode (seal payload nonce pubk)))"

section \<open>Paths\<close>

datatype apiAction =
    ProxyGithub string bool | AllStats | OwnStats | DispenseToken | NodePublicKey | GiantPassword | ApiHelp | Alive
  | NameStatus | NamesOfOwner | NameServiceRequest | IndexHtml | StaticStuff

definition rawProxyPath :: string where
  "rawProxyPath = ''/api1/rawgithubusercontentproxy/''"

definition has_suffix :: "string \<Rightarrow> string \<Rightarrow> bool" where
  "has_suffix s p = has_prefix (rev s) (rev p)"

definition apiRoute :: "string \<Rightarrow> apiAction" where
  "apiRoute uri =
     (if has_prefix uri rawProxyPath
      then (let path = drop (length rawProxyPath) uri in
        ProxyGithub (''https://raw.githubusercontent.com/'' @ path) (has_suffix path ''.png'' \<or> has_suffix path ''.jpg''))
      else
        let path = hd (split_on (CHR ''?'') uri) in
        case map_of
          [(''/api1/getallstats'', AllStats), (''/api1/getstats'', OwnStats), (''/api1/getToken'', DispenseToken),
           (''/api1/getPublicKey'', NodePublicKey), (''/api1/getGiantPassword'', GiantPassword), (''/api1/help'', ApiHelp),
           (''/healthz'', Alive), (''/livez'', Alive), (''/api1/getNameStatus'', NameStatus),
           (''/api1/getNames'', NamesOfOwner), (''/api1/nameService'', NameServiceRequest)] path of
          Some a \<Rightarrow> a
        | None \<Rightarrow> if uri = ''/index.html'' \<or> uri = ''/'' then IndexHtml else StaticStuff)"

section \<open>The server\<close>

text \<open>What a request carries besides host and path, and what the handlers use: the texts of the statistics, the
  key of the node, the words and the random numbers of phrases, the dispenser and the cluster.\<close>

record webQuery =
  tokenPart :: tokenCall
  statusName :: string
  namesPart :: namesQuery
  serviceQuery :: nameQuery

record webServer =
  webServices :: services
  askCluster :: "packet \<Rightarrow> string + packet"
  sealFor :: "bytes \<Rightarrow> bytes \<Rightarrow> bytes \<Rightarrow> bytes"
  namesInDb :: "string \<Rightarrow> string + bytes"
  clusterStatsText :: string
  ownStatsJson :: string
  nodeKey :: bytes
  pickWord :: "nat \<Rightarrow> nat \<Rightarrow> nat"
  wordList :: string
  tokenMaker :: dispenserEnv

datatype webResult =
    Written webAnswer | TokenWritten tokenAnswer | Fetched string bool | IndexPage | StaticPage | ThingPage string string
  | MqttSocket

definition apiHelpText :: string where
  "apiHelpText = concat (map (\<lambda>p. ''/api1/'' @ p @ [CHR 0x0A])
     [''getallstats'', ''getstats'', ''getToken'', ''getPublicKey'', ''getGiantPassword'', ''getNames'', ''getNameStatus'',
      ''getNameDetail''])"

definition apiHandle :: "webServer \<Rightarrow> string \<Rightarrow> webQuery \<Rightarrow> dispenser \<Rightarrow> (dispenser \<times> webResult) outcome" where
  "apiHandle w uri q st =
     (let text = (\<lambda>t. Ret (st, Written (Inr t))) in
      case apiRoute uri of
        ProxyGithub url picture \<Rightarrow> Ret (st, Fetched url picture)
      | AllStats \<Rightarrow> text (clusterStatsText w)
      | OwnStats \<Rightarrow> text (ownStatsJson w)
      | DispenseToken \<Rightarrow> bind_out (ServeMakeToken (tokenMaker w) (tokenPart q) st) (\<lambda>(st', a). Ret (st', TokenWritten a))
      | NodePublicKey \<Rightarrow> text (b64_encode (nodeKey w))
      | GiantPassword \<Rightarrow> text (MakeRandomPhrase (pickWord w) (wordList w) 14)
      | ApiHelp \<Rightarrow> text apiHelpText
      | Alive \<Rightarrow> text ''ok''
      | NameStatus \<Rightarrow> bind_out (nameStatusAnswer (askCluster w) (statusName q)) (\<lambda>a. Ret (st, Written a))
      | NamesOfOwner \<Rightarrow> Ret (st, Written (getNames (webServices w) (sealFor w) (namesInDb w) (namesPart q)))
      | NameServiceRequest \<Rightarrow>
          bind_out (NameService (base64Error (webServices w)) (askCluster w) (serviceQuery q)) (\<lambda>a. Ret (st, Written a))
      | IndexHtml \<Rightarrow> Ret (st, IndexPage)
      | StaticStuff \<Rightarrow> Ret (st, StaticPage))"

text \<open>The inner mux knows one path besides the rest, by the path without the query (what it redirects because it
  is not in its clean form is left out).\<close>

definition webServe :: "webServer \<Rightarrow> string \<Rightarrow> string \<Rightarrow> webQuery \<Rightarrow> dispenser \<Rightarrow> (dispenser \<times> webResult) outcome" where
  "webServe w host uri q st =
     (case routeRequest host uri of
        ToApi \<Rightarrow> if hd (split_on (CHR ''?'') uri) = ''/mqtt'' then Ret (st, MqttSocket) else apiHandle w uri q st
      | ToPage subDomain theHost \<Rightarrow> Ret (st, ThingPage subDomain theHost)
      | ToCommand subDomain command \<Rightarrow> Ret (st, Written (commandAnswer (askCluster w) subDomain command)))"

end
