(* ===== verification/WebNames.thy ===== *)
theory WebNames
  imports WebApi Samples
begin

text \<open>
  Properties of the public HTTP server: which name a host stands for, and who gets a list of names.
\<close>

section \<open>Labels\<close>

lemma index_of_dotted: "index_of (CHR ''.'' # s) (CHR ''.'' # q) = (if has_prefix s q then Some 0 else map_option Suc (index_of s (CHR ''.'' # q)))"
  by (simp add: index_of.simps [of "CHR ''.'' # s"])

lemma index_of_empty: "index_of [] (c # q) = None"
  by (simp add: index_of.simps)

lemma has_prefix_before:
  "has_prefix (x @ c # s) q \<Longrightarrow> c \<notin> set q \<Longrightarrow> has_prefix x q"
proof (induction x q rule: has_prefix.induct)
  case (2 p ps)
  then show ?case by (cases "c = p") auto
qed auto

text \<open>A dot and \<open>q\<close> are found in a host only where a label starts with \<open>q\<close>.\<close>

lemma labels_free:
  assumes "\<forall>l \<in> set ls. CHR ''.'' \<notin> set l" "\<forall>l \<in> set (tl ls). \<not> has_prefix l q" "CHR ''.'' \<notin> set q"
  shows "index_of (join_with (CHR ''.'') ls) (CHR ''.'' # q) = None"
  using assms(1,2)
proof (induction ls rule: induct_list012)
  case (2 x)
  then show ?case using index_of_skip [of "CHR ''.''" x "[]" q] by (simp add: index_of_empty)
next
  case (3 x y zs)
  have "\<not> has_prefix (join_with (CHR ''.'') (y # zs)) q"
  proof (cases zs)
    case Nil
    then show ?thesis using "3.prems"(2) by simp
  next
    case (Cons z zs')
    then show ?thesis using "3.prems"(2) has_prefix_before [of y "CHR ''.''"] assms(3) by auto
  qed
  moreover have "index_of (join_with (CHR ''.'') (y # zs)) (CHR ''.'' # q) = None"
    using "3.prems" by (intro "3.IH"(2)) (auto dest: list.set_sel(2))
  ultimately show ?case
    using "3.prems"(1) by (simp add: index_of_skip index_of_dotted)
qed (simp add: index_of_empty)

lemma labels_last:
  assumes "\<forall>l \<in> set ls. CHR ''.'' \<notin> set l" "\<forall>l \<in> set (tl ls). \<not> has_prefix l q" "CHR ''.'' \<notin> set q" "ls \<noteq> []"
  shows "index_of (join_with (CHR ''.'') (ls @ [q])) (CHR ''.'' # q) = Some (length (join_with (CHR ''.'') ls))"
  using assms(1,2,4)
proof (induction ls rule: induct_list012)
  case (2 x)
  then show ?case by (simp add: index_of_skip index_of_dotted has_prefix_append [of q "[]", simplified])
next
  case (3 x y zs)
  have "\<not> has_prefix (join_with (CHR ''.'') (y # zs @ [q])) q"
    using "3.prems"(2) has_prefix_before [of y "CHR ''.''"] assms(3) by (cases zs) auto
  moreover have "index_of (join_with (CHR ''.'') ((y # zs) @ [q])) (CHR ''.'' # q) = Some (length (join_with (CHR ''.'') (y # zs)))"
    using "3.prems" by (intro "3.IH"(2)) (auto dest: list.set_sel(2))
  ultimately show ?case
    using "3.prems"(1) by (simp add: index_of_skip index_of_dotted)
qed simp

lemma rewrite_miss:
  assumes "\<forall>l \<in> set ls. CHR ''.'' \<notin> set l" "\<forall>l \<in> set (tl ls). \<not> has_prefix l tld" "CHR ''.'' \<notin> set tld"
  shows "rewriteSite (tld, site) (join_with (CHR ''.'') ls) = join_with (CHR ''.'') ls"
  using labels_free [OF assms] by (simp add: contains_def)

lemma join_snoc: "ls \<noteq> [] \<Longrightarrow> join_with c (ls @ [q]) = join_with c ls @ c # q"
  by (induction ls rule: induct_list012) auto

lemma join_last: "join_with c (ls @ [x]) @ y = join_with c (ls @ [x @ y])"
  by (induction ls rule: induct_list012) auto

lemma rewrite_hit:
  assumes "\<forall>l \<in> set (ls @ [x]). CHR ''.'' \<notin> set l" "\<forall>l \<in> set (tl (ls @ [x])). \<not> has_prefix l tld" "CHR ''.'' \<notin> set tld"
  shows "rewriteSite (tld, site) (join_with (CHR ''.'') (ls @ [x, tld]))
    = join_with (CHR ''.'') (ls @ [x @ site, ''knotfree'', ''net''])"
proof -
  have e: "join_with (CHR ''.'') (ls @ [x, tld]) = join_with (CHR ''.'') (ls @ [x]) @ CHR ''.'' # tld"
    using join_snoc [of "ls @ [x]"] by simp
  have i: "index_of (join_with (CHR ''.'') (ls @ [x, tld])) (CHR ''.'' # tld) = Some (length (join_with (CHR ''.'') (ls @ [x])))"
    using labels_last [OF assms] by simp
  have "replaceAll (join_with (CHR ''.'') (ls @ [x, tld])) (CHR ''.'' # tld) (site @ ''.knotfree.net'')
      = join_with (CHR ''.'') (ls @ [x]) @ site @ ''.knotfree.net''"
    using i by (simp add: replaceAll.simps [of "join_with _ _"] e) (simp add: replaceAll.simps index_of_empty)
  also have "\<dots> = join_with (CHR ''.'') (ls @ [x @ site, ''knotfree'', ''net''])"
    using join_snoc [of "ls @ [x @ site]" "CHR ''.''" "''knotfree''"] join_snoc [of "ls @ [x @ site, ''knotfree'']" "CHR ''.''" "''net''"]
      join_last [of "CHR ''.''" ls x site] by simp
  finally show ?thesis using i by (simp add: contains_def)
qed

section \<open>Hosts\<close>

definition label_ok :: "string \<Rightarrow> bool" where
  "label_ok l \<longleftrightarrow> CHR ''.'' \<notin> set l \<and> CHR '':'' \<notin> set l \<and> (\<forall>(tld, site) \<in> set sites. \<not> has_prefix l tld)"

lemma sites_facts:
  "\<forall>(tld, site) \<in> set sites. CHR ''.'' \<notin> set tld \<and> CHR '':'' \<notin> set tld \<and> CHR ''_'' \<notin> set tld \<and> CHR ''.'' \<notin> set site
    \<and> site = CHR ''_'' # tl site \<and> \<not> has_prefix ''knotfree'' tld \<and> \<not> has_prefix ''net'' tld
    \<and> (\<forall>(tld', site') \<in> set sites. tld' \<noteq> tld \<longrightarrow> \<not> has_prefix tld' tld)"
  "distinct (map fst sites)"
  by code_simp+

lemma site_facts:
  assumes "(tld, site) \<in> set sites"
  shows "CHR ''.'' \<notin> set tld" "CHR '':'' \<notin> set tld" "CHR ''_'' \<notin> set tld" "CHR ''.'' \<notin> set site"
    "\<exists>r. site = CHR ''_'' # r" "\<not> has_prefix ''knotfree'' tld" "\<not> has_prefix ''net'' tld"
    "(q, z) \<in> set sites \<Longrightarrow> q \<noteq> tld \<Longrightarrow> \<not> has_prefix q tld"
proof -
  note b = bspec [OF sites_facts(1) assms, unfolded prod.case]
  show "CHR ''.'' \<notin> set tld" "CHR '':'' \<notin> set tld" "CHR ''_'' \<notin> set tld" "CHR ''.'' \<notin> set site"
    "\<not> has_prefix ''knotfree'' tld" "\<not> has_prefix ''net'' tld"
    by (rule b [THEN conjunct1] b [THEN conjunct2, THEN conjunct1] b [THEN conjunct2, THEN conjunct2, THEN conjunct1]
        b [THEN conjunct2, THEN conjunct2, THEN conjunct2, THEN conjunct1]
        b [THEN conjunct2, THEN conjunct2, THEN conjunct2, THEN conjunct2, THEN conjunct2, THEN conjunct1]
        b [THEN conjunct2, THEN conjunct2, THEN conjunct2, THEN conjunct2, THEN conjunct2, THEN conjunct2, THEN conjunct1])+
  show "\<exists>r. site = CHR ''_'' # r"
    by (rule exI, rule b [THEN conjunct2, THEN conjunct2, THEN conjunct2, THEN conjunct2, THEN conjunct1])
  have "\<forall>(q, z) \<in> set sites. q \<noteq> tld \<longrightarrow> \<not> has_prefix q tld" using b by (elim conjE)
  then show "(q, z) \<in> set sites \<Longrightarrow> q \<noteq> tld \<Longrightarrow> \<not> has_prefix q tld" by blast
qed

lemma fold_miss:
  assumes "\<forall>l \<in> set ls. CHR ''.'' \<notin> set l"
    and "\<forall>(tld, site) \<in> set rules. CHR ''.'' \<notin> set tld \<and> (\<forall>l \<in> set (tl ls). \<not> has_prefix l tld)"
  shows "fold rewriteSite rules (join_with (CHR ''.'') ls) = join_with (CHR ''.'') ls"
  using assms(2)
proof (induction rules)
  case (Cons r rules)
  obtain tld site where r: "r = (tld, site)" by fastforce
  show ?case using Cons rewrite_miss [OF assms(1), of tld site] by (simp add: r del: rewriteSite.simps)
qed simp

lemma fold_keeps:
  assumes "set rules \<subseteq> set sites" "\<forall>l \<in> set ls. CHR ''.'' \<notin> set l"
    and "\<forall>(q, z) \<in> set rules. \<forall>l \<in> set ls. \<not> has_prefix l q"
  shows "fold rewriteSite rules (join_with (CHR ''.'') ls) = join_with (CHR ''.'') ls"
proof (rule fold_miss [OF assms(2)])
  have "CHR ''.'' \<notin> set q" if "(q, z) \<in> set rules" for q z
    using site_facts(1) [of q z] that assms(1) by blast
  then show "\<forall>(tld, site) \<in> set rules. CHR ''.'' \<notin> set tld \<and> (\<forall>l \<in> set (tl ls). \<not> has_prefix l tld)"
    using assms(3) list.set_sel(2) [of ls] by (cases ls) auto
qed

lemma join_member: "c \<in> set (join_with d ls) \<Longrightarrow> c = d \<or> (\<exists>l \<in> set ls. c \<in> set l)"
  by (induction ls rule: induct_list012) auto

lemma sited_label:
  assumes "label_ok name" "(tld, site) \<in> set sites" "(q, z) \<in> set sites"
  shows "\<not> has_prefix (name @ site) q"
proof -
  obtain r where "site = CHR ''_'' # r" using site_facts(5) [OF assms(2)] by blast
  moreover have "\<not> has_prefix name q" using assms(1,3) by (auto simp: label_ok_def)
  ultimately show ?thesis
    using has_prefix_before [of name "CHR ''_''" r q] site_facts(3) [OF assms(3)] by blast
qed

lemma rewritten_host:
  assumes "\<forall>l \<in> set (args @ [name]). label_ok l" "(tld, site) \<in> set sites"
  shows "rewriteHost (join_with (CHR ''.'') (args @ [name, tld]))
    = join_with (CHR ''.'') (args @ [name @ site, ''knotfree'', ''net''])"
proof -
  let ?from = "args @ [name, tld]" and ?to = "args @ [name @ site, ''knotfree'', ''net'']"
  obtain r1 r2 where s: "sites = r1 @ (tld, site) # r2" using assms(2) by (meson split_list)
  note f = site_facts(1,2,4) [OF assms(2)]
  have sub: "set r1 \<subseteq> set sites" "set r2 \<subseteq> set sites" by (auto simp: s)
  have "tld \<notin> fst ` set r1" using sites_facts(2) by (simp add: s)
  then have other: "q \<noteq> tld" if "(q, z) \<in> set r1" for q z using that by force
  have lo: "CHR ''.'' \<notin> set l" "CHR '':'' \<notin> set l" "(q, z) \<in> set sites \<Longrightarrow> \<not> has_prefix l q"
    if "l \<in> set (args @ [name])" for l q z
    using assms(1) that by (auto simp: label_ok_def)
  have miss: "fold rewriteSite r1 (join_with (CHR ''.'') ?from) = join_with (CHR ''.'') ?from"
  proof (rule fold_keeps [OF sub(1)])
    show "\<forall>l \<in> set ?from. CHR ''.'' \<notin> set l" using lo(1) f by auto
    have "\<not> has_prefix l q" if "(q, z) \<in> set r1" "l \<in> set ?from" for q z l
      using that lo(3) [of l q z] sub(1) site_facts(8) [OF _ assms(2), of q z] other by auto
    then show "\<forall>(q, z) \<in> set r1. \<forall>l \<in> set ?from. \<not> has_prefix l q" by blast
  qed
  have hit: "rewriteSite (tld, site) (join_with (CHR ''.'') ?from) = join_with (CHR ''.'') ?to"
  proof (rule rewrite_hit)
    show "\<forall>l \<in> set (args @ [name]). CHR ''.'' \<notin> set l" using lo(1) by blast
    show "\<forall>l \<in> set (tl (args @ [name])). \<not> has_prefix l tld"
      using lo(3) [OF _ assms(2)] list.set_sel(2) [of "args @ [name]"] by blast
    show "CHR ''.'' \<notin> set tld" by (rule f)
  qed
  have keep: "fold rewriteSite r2 (join_with (CHR ''.'') ?to) = join_with (CHR ''.'') ?to"
  proof (rule fold_keeps [OF sub(2)])
    show "\<forall>l \<in> set ?to. CHR ''.'' \<notin> set l" using lo(1) f by auto
    have "\<not> has_prefix l q" if "(q, z) \<in> set r2" "l \<in> set ?to" for q z l
      using that lo(3) [of l q z] sub(2) site_facts(6,7) [of q z] sited_label [OF _ assms(2), of name q z] assms(1) by auto
    then show "\<forall>(q, z) \<in> set r2. \<forall>l \<in> set ?to. \<not> has_prefix l q" by blast
  qed
  have "CHR '':'' \<notin> set (join_with (CHR ''.'') ?from)"
    using join_member [of "CHR '':''" "CHR ''.''" ?from] lo(2) f by auto
  then have "rewriteHost (join_with (CHR ''.'') ?from) = fold rewriteSite sites (join_with (CHR ''.'') ?from)"
    by (simp add: rewriteHost_def split_on_free)
  also have "\<dots> = join_with (CHR ''.'') ?to"
    unfolding s using miss hit keep by (simp del: rewriteSite.simps)
  finally show ?thesis .
qed



section \<open>The names of an owner\<close>


definition ownerServices :: services where
  "ownerServices = sampleServices\<lparr>wallSeconds := 1000, boxOpen := (\<lambda>m n pk. Some ''QkI#1000'')\<rparr>"


end
