(* ===== verification/Things.thy ===== *)
theory Things
  imports WebApi Float64 "HOL-Library.AList"
begin

text \<open>
  The thing that the monitor pod runs (\<open>monitor_pod/serveThing.go\<close>) and its client: a thing subscribes to its
  name and answers each publication by a command's result. Commands come as text, as HTTP requests, or
  sealed for the thing by an administrator. \<open>box.Open\<close> and \<open>box.Seal\<close>, clocks, random numbers, the two
  measured values and the order of a range over the map of commands are in the record \<open>thingEnv\<close>. A panic in
  the loop of a thing stops its process.
\<close>

section \<open>Text\<close>

text \<open>\<open>strconv.FormatFloat\<close> with two decimals, rounded to even.\<close>

definition twoDigits :: "nat \<Rightarrow> string" where
  "twoDigits n = dec_nat (n div 10) @ dec_nat (n mod 10)"

fun formatFloat2 :: "f64 \<Rightarrow> string" where
  "formatFloat2 NaN = ''NaN''"
| "formatFloat2 (Infty neg) = (if neg then ''-Inf'' else ''+Inf'')"
| "formatFloat2 (Fin neg r) =
     (let n = nat (rne (r * 100)) in
      (if neg then ''-'' else []) @ dec_nat (n div 100) @ CHR ''.'' # twoDigits (n mod 100))"

definition degree :: string where
  "degree = [CHR 0xC2, CHR 0xB0]"

text \<open>A time is at most \<open>limit\<close> seconds off, in 64-bit arithmetic.\<close>

definition timeWithin :: "int \<Rightarrow> int \<Rightarrow> int \<Rightarrow> bool" where
  "timeWithin limit now t =
     (let diff = (word_of_int now - word_of_int t :: u64);
          diff' = (if sint diff < 0 then - diff else diff)
      in \<not> limit < sint diff')"

section \<open>The commands\<close>

datatype thingAction =
    TellTime | TellCelsius | TellFahrenheit | TellHumidity | TellRandom | TellCount | TellFails | TellPubk | TellAdminHint
  | TellShortName | TellLongName | TellIcon | TellText | StoreText | TellVersion | TellHelp | TellToken

record command =
  CommandString :: string
  Description :: string
  ArgCount :: nat
  Execute :: thingAction

record thingContext =
  Topic :: string
  Password :: string
  PubStr :: string
  PrivStr :: string
  AdminPubStr :: string
  AdminPrivStr :: string
  AdminPubStr2 :: string
  AdminPrivStr2 :: string
  dummyString :: string
  thingFails :: int
  thingCount :: int
  CommandMap :: "(string \<times> command) list"
  thingToken :: string
  LogMeVerbose :: bool

record thingEnv =
  thingClock :: "nat \<Rightarrow> int"
  thingOpen :: "bytes \<Rightarrow> bytes \<Rightarrow> bytes \<Rightarrow> bytes \<Rightarrow> bytes option"
  thingSeal :: "bytes \<Rightarrow> bytes \<Rightarrow> bytes \<Rightarrow> bytes \<Rightarrow> bytes"
  thingB64Error :: "string \<Rightarrow> string"
  thingIntError :: "string \<Rightarrow> string"
  rangeOrder :: "string list \<Rightarrow> string list"
  thingRandom :: u32
  TempInF :: f64
  Humidity :: f64

definition MakeCommand :: "string \<Rightarrow> string \<Rightarrow> nat \<Rightarrow> thingAction \<Rightarrow> (string \<times> command) list \<Rightarrow> (string \<times> command) list" where
  "MakeCommand commandString description argCount act ourMap =
     AList.update commandString
       \<lparr>CommandString = commandString, Description = description, ArgCount = argCount, Execute = act\<rparr> ourMap"

definition thingCommands :: "(string \<times> command) list" where
  "thingCommands = fold (\<lambda>(name, descr, n, act). MakeCommand name descr n act)
     [(''get time'', ''seconds since 1970'' @ open_lock, 0, TellTime),
      (''get c'', ''temperature in '' @ degree @ ''C'' @ open_lock, 0, TellCelsius),
      (''get f'', ''temperature in '' @ degree @ ''F'' @ open_lock, 0, TellFahrenheit),
      (''get humidity'', ''humidity in %'' @ open_lock, 0, TellHumidity),
      (''get random'', ''returns a random integer'', 0, TellRandom),
      (''get count'', ''how many served since reboot'', 0, TellCount),
      (''get fail'', ''how many requests were bad since reboot'', 0, TellFails),
      (''get pubk'', ''device public key '' @ open_lock, 0, TellPubk),
      (''get admin hint'', ''the first chars of the admin public keys'' @ open_lock, 0, TellAdminHint),
      (''get short name'', ''the local name'' @ open_lock, 0, TellShortName),
      (''get long name'', ''the global name'', 0, TellLongName),
      (''favicon.ico'', ''returns a green square png'' @ open_lock, 0, TellIcon),
      (''get some text'', ''return the saved text'', 0, TellText),
      (''set some text'', ''save some text'', 1, StoreText),
      (''version'', ''info about this thing'', 0, TellVersion),
      (''help'', ''lists all commands. '' @ open_lock @ '' means no encryption required'', 0, TellHelp),
      (''get token'', ''info about the token'', 0, TellToken)] []"

text \<open>The key pair of a phrase is an argument (\<open>GetBoxKeyPairFromPassphrase\<close>).\<close>

definition SetupKeys :: "(string \<Rightarrow> bytes \<times> bytes) \<Rightarrow> thingContext \<Rightarrow> thingContext" where
  "SetupKeys keyPair c =
     (let pass = ''testString123''; admin = ''myFamousOldeSaying''; admin2 = ''myFamousOldeSaying2'' in
      c\<lparr>Password := pass, PubStr := b64_encode (fst (keyPair pass)), PrivStr := b64_encode (snd (keyPair pass)),
        AdminPubStr := b64_encode (fst (keyPair admin)), AdminPrivStr := b64_encode (snd (keyPair admin)),
        AdminPubStr2 := b64_encode (fst (keyPair admin2)), AdminPrivStr2 := b64_encode (snd (keyPair admin2)),
        dummyString := ''none''\<rparr>)"

definition setupCommands :: "(string \<Rightarrow> bytes \<times> bytes) \<Rightarrow> thingContext \<Rightarrow> thingContext" where
  "setupCommands keyPair c = (SetupKeys keyPair c)\<lparr>CommandMap := thingCommands\<rparr>"

definition startThing :: "(string \<Rightarrow> bytes \<times> bytes) \<Rightarrow> thingContext \<Rightarrow> thingContext" where
  "startThing keyPair c = setupCommands keyPair (c\<lparr>thingCount := 0, thingFails := 0\<rparr>)"

definition GreenSquare :: bytes where
  "GreenSquare = map (\<lambda>n. char_of (n :: nat))
     [137, 80, 78, 71, 13, 10, 26, 10, 0, 0, 0, 13, 73, 72, 68,
      82, 0, 0, 0, 16, 0, 0, 0, 16, 8, 6, 0, 0, 0, 31, 243,
      255, 97, 0, 0, 0, 26, 73, 68, 65, 84, 120, 218, 99, 84, 106, 209,
      255, 207, 64, 1, 96, 28, 53, 96, 212, 128, 81, 3, 134, 139, 1, 0,
      239, 170, 29, 81, 139, 188, 27, 125, 0, 0, 0, 0, 73, 69, 78, 68,
      174, 66, 96, 130]"

definition thingHelp :: "(string \<times> command) list \<Rightarrow> string" where
  "thingHelp m = concat (map (\<lambda>k. case map_of m k of
       None \<Rightarrow> []
     | Some cmd \<Rightarrow> ''['' @ k @ '']'' @ (if 0 < ArgCount cmd then '' +'' @ dec_nat (ArgCount cmd) else [])
         @ '' '' @ Description cmd @ [CHR 0x0A]) (sort (map fst m)))"

definition tellToken :: "thingEnv \<Rightarrow> string \<Rightarrow> string" where
  "tellToken te token =
     (let parts = split_on (CHR ''.'') token in
      if length parts \<noteq> 3 then ''error: invalid token''
      else case b64_decode (parts ! 1) of (payload, ok) \<Rightarrow>
        if ok then payload else ''error: '' @ thingB64Error te (parts ! 1))"

text \<open>One command; the second reading of the clock is that of \<open>get time\<close>.\<close>

fun execute :: "thingEnv \<Rightarrow> thingAction \<Rightarrow> string \<Rightarrow> thingContext \<Rightarrow> (thingContext \<times> string) outcome" where
  "execute te TellTime msg c = Ret (c, format_int (thingClock te 1))"
| "execute te TellCelsius msg c =
     (let tmp = fdiv (fmul (fsub (TempInF te) (f_int 32)) (f_int 5)) (f_int 9) in
      Ret (c, formatFloat2 (fdiv (ffloor (fmul tmp (f_int 100))) (f_int 100)) @ degree @ ''C''))"
| "execute te TellFahrenheit msg c = Ret (c, formatFloat2 (TempInF te) @ degree @ ''F'')"
| "execute te TellHumidity msg c = Ret (c, formatFloat2 (Humidity te) @ ''%'')"
| "execute te TellRandom msg c = Ret (c, dec_nat (unat (thingRandom te)))"
| "execute te TellCount msg c = Ret (c, format_int (thingCount c))"
| "execute te TellFails msg c = Ret (c, format_int (thingFails c))"
| "execute te TellPubk msg c = Ret (c, PubStr c)"
| "execute te TellAdminHint msg c =
     (if length (AdminPubStr c) < 8 \<or> length (AdminPubStr2 c) < 8 then Panic
      else Ret (c, take 8 (AdminPubStr c) @ '' '' @ take 8 (AdminPubStr2 c)))"
| "execute te TellShortName msg c = Ret (c, ''time'')"
| "execute te TellLongName msg c = Ret (c, Topic c)"
| "execute te TellIcon msg c = Ret (c, GreenSquare)"
| "execute te TellText msg c = Ret (c, dummyString c)"
| "execute te StoreText msg c =
     (if length msg < length ''set some text'' then Panic
      else Ret (c\<lparr>dummyString := trimSpaces (drop (length ''set some text'') msg)\<rparr>, ''ok''))"
| "execute te TellVersion msg c = Ret (c, ''v0.1.5'')"
| "execute te TellHelp msg c = Ret (c, thingHelp (CommandMap c))"
| "execute te TellToken msg c = Ret (c, tellToken te (thingToken c))"

text \<open>The command of a message: of its whole text, else the first in the order of the map whose name it starts
  with, else \<open>help\<close>. Nothing stands for the zero value of a command, which has no function to call.\<close>

definition thingCommand :: "thingEnv \<Rightarrow> (string \<times> command) list \<Rightarrow> string \<Rightarrow> command option" where
  "thingCommand te m message =
     (case map_of m message of
        Some cmd \<Rightarrow> Some cmd
      | None \<Rightarrow> (case find (has_prefix message) (rangeOrder te (map fst m)) of
                  Some k \<Rightarrow> map_of m k
                | None \<Rightarrow> map_of m ''help''))"

definition isOpen :: "command option \<Rightarrow> bool" where
  "isOpen cmd = (case cmd of None \<Rightarrow> False | Some d \<Rightarrow> contains (Description d) open_lock)"

section \<open>Requests\<close>

definition failed :: "thingContext \<Rightarrow> thingContext" where
  "failed c = c\<lparr>thingFails := thingFails c + 1\<rparr>"

fun thingArgs :: "string \<Rightarrow> string list \<Rightarrow> options \<Rightarrow> string + options" where
  "thingArgs topic [] opts = Inr opts"
| "thingArgs topic (arg # args) opts =
     (let kv = split_on (CHR ''='') arg in
      if length kv \<noteq> 2 then Inl (''expected 2 parts to arg '' @ topic @ '' '' @ arg)
      else thingArgs topic args (SetOption (kv ! 0) (kv ! 1) opts))"

text \<open>Whether it is HTTP, the message, and the options with those of the query.\<close>

definition thingRequest :: "string \<Rightarrow> bytes \<Rightarrow> options \<Rightarrow> string + (bool \<times> string \<times> options)" where
  "thingRequest topic message opts =
     (if has_prefix message ''GET /'' then
        let getparts = split_on (CHR '' '') (hd (split_on (CHR 0x0A) message)) in
        if length getparts \<noteq> 3 then Inl (''expected 3 parts to http request '' @ topic)
        else
          let mparts = split_on (CHR ''?'') (getparts ! 1) in
          case (if 1 < length mparts then thingArgs topic (split_on (CHR ''&'') (mparts ! 1)) opts else Inr opts) of
            Inl err \<Rightarrow> Inl err
          | Inr opts1 \<Rightarrow> Inr (True, trimSpaces (replace_byte (CHR ''/'') (CHR '' '') (hd mparts)),
              SetOption ''monitorpod'' ''rocks'' opts1)
      else Inr (False, message, opts))"

section \<open>Sealed messages\<close>

text \<open>The key of the administrator who is hinted at; the empty hint fits the first.\<close>

definition chooseAdmin :: "thingContext \<Rightarrow> bytes \<Rightarrow> string option" where
  "chooseAdmin c admn =
     (if has_prefix (AdminPubStr c) admn then Some (AdminPubStr c)
      else if has_prefix (AdminPubStr2 c) admn then Some (AdminPubStr2 c) else None)"

text \<open>A key and the error so far. A key of another length than 32 panics: the error that is printed is nil then.\<close>

definition takeKey :: "thingEnv \<Rightarrow> string \<Rightarrow> string \<Rightarrow> (bytes \<times> string) outcome" where
  "takeKey te key err =
     (case b64_decode key of (bs, ok) \<Rightarrow>
        if \<not> ok then Ret (replicate 32 (CHR 0x00), thingB64Error te key)
        else if length bs \<noteq> 32 then Panic
        else Ret (bs, err))"

text \<open>The key pair for a hint and the error after it; without a matching key the search goes on with the
  text \<open>none\<close>.\<close>

definition thingKeys :: "thingEnv \<Rightarrow> thingContext \<Rightarrow> bytes \<Rightarrow> string \<Rightarrow> string \<Rightarrow>
    (thingContext \<times> bytes \<times> bytes \<times> string) outcome" where
  "thingKeys te c admn noMatch err =
     (case chooseAdmin c admn of
        None \<Rightarrow>
          bind_out (takeKey te ''none'' noMatch) (\<lambda>(pk, err1).
          bind_out (takeKey te (PrivStr c) err1) (\<lambda>(sk, err2). Ret (failed c, pk, sk, err2)))
      | Some key \<Rightarrow>
          bind_out (takeKey te key err) (\<lambda>(pk, err1).
          bind_out (takeKey te (PrivStr c) err1) (\<lambda>(sk, err2). Ret (c, pk, sk, err2))))"

text \<open>The message, whether it was sealed, and the error. Texts after a second \<open>#\<close> are ignored.\<close>

definition checkOpened :: "thingEnv \<Rightarrow> thingContext \<Rightarrow> string \<Rightarrow> string \<Rightarrow> thingContext \<times> string \<times> bool \<times> string" where
  "checkOpened te c opened err =
     (let mparts = split_on (CHR ''#'') opened in
      if length mparts \<le> 1 then (failed c, opened, True, ''missing timestamp'')
      else
        let message = replace_byte (CHR ''/'') (CHR '' '') (hd mparts) in
        case parse_int 64 (mparts ! 1) of
          None \<Rightarrow> (failed c, message, True, ''bad timestamp'')
        | Some t \<Rightarrow>
            if timeWithin 30 (thingClock te 0) t then (c, message, True, err)
            else (failed c, message, True, ''timestamp too old''))"

definition openMessage :: "thingEnv \<Rightarrow> thingContext \<Rightarrow> string \<Rightarrow> options \<Rightarrow>
    (thingContext \<times> string \<times> bool \<times> string) outcome" where
  "openMessage te c message opts =
     (if \<not> has_prefix message ''='' then Ret (c, message, False, [])
      else
        let (nonc, ok) = GetOption opts ''nonc''; (admn, ok2) = GetOption opts ''admn'' in
        if \<not> ok \<or> \<not> ok2 then Ret (failed c, message, False, ''no nonce or no admn'')
        else case b64_decode (tl message) of (sealed, ok3) \<Rightarrow>
          bind_out (thingKeys te c admn (''no matching admin key found'' @ Topic c)
              (if ok3 then [] else thingB64Error te (tl message))) (\<lambda>(c1, pk, sk, err).
            Ret (case thingOpen te sealed (fitBytes 24 nonc) pk sk of
                   None \<Rightarrow> (failed c1, message, False, ''failed to decrypt'')
                 | Some opened \<Rightarrow> checkOpened te c1 opened err)))"

section \<open>The answer\<close>

text \<open>The command that is taken, which is \<open>help\<close> after an error, and the reply.\<close>

definition runCommand :: "thingEnv \<Rightarrow> thingContext \<Rightarrow> string \<Rightarrow> bool \<Rightarrow> string \<Rightarrow>
    (thingContext \<times> command option \<times> string) outcome" where
  "runCommand te c message encrypted err =
     (if err \<noteq> [] then Ret (c, map_of (CommandMap c) ''help'', ''command Error: '' @ err)
      else
        let cmd = thingCommand te (CommandMap c) message in
        if \<not> isOpen cmd \<and> \<not> encrypted then Ret (failed c, cmd, ''Error: this command requires encryption'')
        else case cmd of
               None \<Rightarrow> Panic
             | Some d \<Rightarrow> bind_out (execute te (Execute d) message c) (\<lambda>(c1, reply). Ret (c1, cmd, reply)))"

text \<open>The reply to a command without a lock is sealed for the administrator, with the third reading of the clock.\<close>

definition sealAnswer :: "thingEnv \<Rightarrow> thingContext \<Rightarrow> command option \<Rightarrow> string \<Rightarrow> string \<Rightarrow> options \<Rightarrow>
    (thingContext \<times> string) outcome" where
  "sealAnswer te c cmd reply err opts =
     (let (nonc, ok) = GetOption opts ''nonc''; (admn, ok2) = GetOption opts ''admn'' in
      if err \<noteq> [] \<or> \<not> ok \<or> isOpen cmd then Ret (c, reply)
      else bind_out (thingKeys te c admn ''no matching admin key found'' (if ok2 then [] else ''Error: no admn''))
        (\<lambda>(c1, pk, sk, err1).
          let text = reply @ CHR ''#'' # format_int (thingClock te 2) in
          Ret (c1, if err1 \<noteq> [] then ''Error: '' @ err1
                   else CHR ''='' # b64_encode (thingSeal te text (fitBytes 24 nonc) pk sk))))"

fun digestPacket :: "thingEnv \<Rightarrow> packet \<Rightarrow> thingContext \<Rightarrow> (thingContext \<times> (string + packet)) outcome" where
  "digestPacket te (Send address source payload opts) c =
     (case thingRequest (Topic c) payload opts of
        Inl err \<Rightarrow> Ret (failed c, Inl err)
      | Inr (isHttp, message, opts1) \<Rightarrow>
          bind_out (openMessage te c message opts1) (\<lambda>(c1, message1, encrypted, err).
          bind_out (runCommand te c1 message1 encrypted err) (\<lambda>(c2, cmd, reply).
          bind_out (sealAnswer te c2 cmd reply err opts1) (\<lambda>(c3, reply1).
            Ret (c3, Inr (Send source address (if isHttp then httpReply reply1 else reply1) (CopyOptions [] opts1)))))))"
| "digestPacket te p c = Ret (failed c, Inl (''expected a send aka publish'' @ Topic c))"

section \<open>The loop\<close>

text \<open>What a thing writes first on a connection, and again to keep its subscription.\<close>

definition verboseOption :: "thingContext \<Rightarrow> options \<Rightarrow> options" where
  "verboseOption c opts = (if LogMeVerbose c then SetOption ''debg'' ''12345678'' opts else opts)"

definition thingConnect :: "bytes \<Rightarrow> thingContext \<Rightarrow> packet" where
  "thingConnect token c = Connect (verboseOption c (SetOption ''token'' token []))"

definition thingSubscribe :: "thingContext \<Rightarrow> packet" where
  "thingSubscribe c = packet.Subscribe (FromString (Topic c)) (verboseOption c [])"

text \<open>A packet that was read: an acknowledgement is passed over, an error closes the connection, as does one
  of the write.\<close>

datatype thingResult = PassedOver | AnsweredBy packet | ClosedAfter string

definition serveThing :: "thingEnv \<Rightarrow> bool \<Rightarrow> packet \<Rightarrow> thingContext \<Rightarrow> (thingContext \<times> thingResult) outcome" where
  "serveThing te writeOk p c =
     (case p of
        packet.Subscribe a opts \<Rightarrow> Ret (c, PassedOver)
      | _ \<Rightarrow> bind_out (digestPacket te p c) (\<lambda>(c1, r). case r of
               Inl err \<Rightarrow> Ret (failed c1, ClosedAfter err)
             | Inr q \<Rightarrow> if writeOk then Ret (c1\<lparr>thingCount := thingCount c1 + 1\<rparr>, AnsweredBy q)
                        else Ret (failed c1, ClosedAfter [])))"

text \<open>The packets of a connection, with the result of each write, and the answers.\<close>

fun thingLoop :: "(nat \<Rightarrow> thingEnv) \<Rightarrow> (packet \<times> bool) list \<Rightarrow> thingContext \<Rightarrow> (thingContext \<times> packet list) outcome" where
  "thingLoop te [] c = Ret (failed c, [])"
| "thingLoop te ((p, writeOk) # ps) c =
     bind_out (serveThing (te 0) writeOk p c) (\<lambda>(c1, r). case r of
       ClosedAfter err \<Rightarrow> Ret (c1, [])
     | PassedOver \<Rightarrow> thingLoop (\<lambda>i. te (Suc i)) ps c1
     | AnsweredBy q \<Rightarrow> bind_out (thingLoop (\<lambda>i. te (Suc i)) ps c1) (\<lambda>(c2, qs). Ret (c2, q # qs)))"

section \<open>The client\<close>

text \<open>\<open>http.Get\<close> is an argument: the argument \<open>nonc\<close> of the address that was answered, and the answer. The
  first reading of the clock stamps the request, the second checks the answer.\<close>

definition openAnswer :: "thingEnv \<Rightarrow> string \<Rightarrow> string \<Rightarrow> string \<Rightarrow> bytes \<Rightarrow> string" where
  "openAnswer te devicepubk adminprivk nonc answer =
     (case (b64_decode devicepubk, b64_decode adminprivk, b64_decode (tl answer)) of ((pk, ok), (sk, ok2), (sealed, ok3)) \<Rightarrow>
        if \<not> ok then ''error GetIotResponse:'' @ thingB64Error te devicepubk
        else if \<not> ok2 then ''error GetIotResponse:'' @ thingB64Error te adminprivk
        else if \<not> ok3 then ''error GetIotResponse:'' @ thingB64Error te (tl answer)
        else case thingOpen te sealed (fitBytes 24 nonc) (fitBytes 32 pk) (fitBytes 32 sk) of
          None \<Rightarrow> ''error GetIotResponse: box fail''
        | Some opened \<Rightarrow>
            let parts = split_on (CHR ''#'') opened in
            if length parts < 2 then ''error GetIotResponse no time''
            else case parse_int 64 (parts ! 1) of
              None \<Rightarrow> ''error GetIotResponse:'' @ thingIntError te (parts ! 1)
            | Some t \<Rightarrow> if timeWithin 10 (thingClock te 1) t then hd parts else ''error GetIotResponse: time too old'')"

definition sealedPath :: "bytes \<Rightarrow> string \<Rightarrow> string \<Rightarrow> string" where
  "sealedPath sealed nonceStr adminpubk =
     CHR ''='' # b64_encode sealed @ ''?nonc='' @ nonceStr @ ''&admn='' @ take 8 adminpubk"

definition sealRequest :: "thingEnv \<Rightarrow> string \<Rightarrow> string \<Rightarrow> string \<Rightarrow> string \<Rightarrow> string \<Rightarrow> (string + string) outcome" where
  "sealRequest te nonceStr cmd devicepubk adminprivk adminpubk =
     (case (b64_decode devicepubk, b64_decode adminprivk) of ((pk, ok), (sk, ok2)) \<Rightarrow>
        if \<not> ok then Ret (Inl (''error GetIotResponse:'' @ thingB64Error te devicepubk))
        else if \<not> ok2 then Ret (Inl (''error GetIotResponse:'' @ thingB64Error te adminprivk))
        else
          let sealed = thingSeal te (cmd @ CHR ''#'' # format_int (thingClock te 0)) (fitBytes 24 nonceStr) (fitBytes 32 pk)
                (fitBytes 32 sk) in
          if sealed = [] then Ret (Inl ''error GetIotResponse: box fail'')
          else if length adminpubk < 8 then Panic
          else Ret (Inr (sealedPath sealed nonceStr adminpubk)))"

definition GetIotResponse :: "thingEnv \<Rightarrow> string \<Rightarrow> (string \<Rightarrow> string + (string \<times> bytes)) \<Rightarrow>
    string \<Rightarrow> string \<Rightarrow> string \<Rightarrow> string \<Rightarrow> string \<Rightarrow> string \<Rightarrow> string outcome" where
  "GetIotResponse te nonceStr get server thing cmd devicepubk adminprivk adminpubk =
     bind_out (if devicepubk \<noteq> [] \<and> adminprivk \<noteq> [] then sealRequest te nonceStr cmd devicepubk adminprivk adminpubk
               else Ret (Inr (replace_byte (CHR '' '') (CHR ''/'') cmd)))
       (\<lambda>r. case r of
          Inl err \<Rightarrow> Ret err
        | Inr path \<Rightarrow>
            (case get (''http://'' @ thing @ ''.'' @ server @ ''/'' @ path) of
               Inl err \<Rightarrow> Ret (''error GetIotResponse:'' @ err)
             | Inr (nonc, answer) \<Rightarrow>
                 if answer = [] then Panic
                 else if hd answer = CHR ''='' then Ret (openAnswer te devicepubk adminprivk nonc answer)
                 else Ret answer))"

section \<open>Measured values and the test topic\<close>

text \<open>The values are read from another thing; the unit is cut off, and what is no number counts as 0. The
  reading of a float is an argument.\<close>

definition ReplaceTempInF :: "(string \<Rightarrow> f64 option) \<Rightarrow> string \<Rightarrow> string \<Rightarrow> thingEnv \<Rightarrow> thingEnv outcome" where
  "ReplaceTempInF parseFloat temp hum te =
     (if length temp < 3 \<or> length hum < 1 then Panic
      else Ret (te\<lparr>TempInF := (case parseFloat (take (length temp - 3) temp) of Some v \<Rightarrow> v | None \<Rightarrow> f_zero),
        Humidity := (case parseFloat (take (length hum - 1) hum) of Some v \<Rightarrow> v | None \<Rightarrow> f_zero)\<rparr>))"

text \<open>What the test topic is sent every ten seconds, over a connection of its own.\<close>

definition PublishTestTopic :: "bytes \<Rightarrow> int \<Rightarrow> int \<Rightarrow> int \<Rightarrow> packet list" where
  "PublishTestTopic token minute sec testtopicCount =
     [Connect (SetOption ''token'' token []),
      Send (FromString ''testtopic'') (FromString ''random unwatched return address'')
        (format_int minute @ '':'' @ format_int sec @ '' count '' @ format_int testtopicCount)
        (SetOption ''helloKey'' ''worldValue'' [])]"

end
