(* ===== verification/ThingAnswers.thy ===== *)
theory ThingAnswers
  imports Things
begin

text \<open>
  Properties of a thing and its client: what an administrator is needed for, that a sealed command comes
  back to the one who sent it, and what stops a thing.
\<close>

section \<open>What a packet changes\<close>

definition sameThing :: "thingContext \<Rightarrow> thingContext \<Rightarrow> bool" where
  "sameThing c c' \<longleftrightarrow>
     c' = c\<lparr>dummyString := dummyString c', thingFails := thingFails c', thingCount := thingCount c'\<rparr>"

lemma sameThing_refl [intro!, simp]: "sameThing c c"
  by (simp add: sameThing_def)

lemma sameThing_updates [simp]:
  "sameThing c (failed c')  = sameThing c c'" "sameThing c (c'\<lparr>thingCount := n\<rparr>) = sameThing c c'"
  "sameThing c (c'\<lparr>dummyString := s\<rparr>) = sameThing c c'"
  by (cases c; cases c'; simp add: sameThing_def failed_def)+

lemma sameThing_trans: "sameThing c c' \<Longrightarrow> sameThing c' c'' \<Longrightarrow> sameThing c c''"
  by (cases c; cases c'; cases c'') (simp add: sameThing_def)

lemma sameThing_fields:
  assumes "sameThing c c'"
  shows "Topic c' = Topic c" "PubStr c' = PubStr c" "PrivStr c' = PrivStr c" "AdminPubStr c' = AdminPubStr c"
    "AdminPubStr2 c' = AdminPubStr2 c" "CommandMap c' = CommandMap c"
  using assms by (cases c; cases c'; simp add: sameThing_def)+

lemma failed_keeps [simp]: "dummyString (failed c) = dummyString c" "Topic (failed c) = Topic c"
  "CommandMap (failed c) = CommandMap c" "PrivStr (failed c) = PrivStr c"
  "AdminPubStr (failed c) = AdminPubStr c" "AdminPubStr2 (failed c) = AdminPubStr2 c"
  by (simp_all add: failed_def)

lemma thingKeys_keeps: "thingKeys te c admn e1 e2 = Ret (c', pk, sk, err) \<Longrightarrow> c' = c \<or> c' = failed c"
  by (auto simp: thingKeys_def bind_out_Ret split: option.splits)

lemma checkOpened_keeps: "checkOpened te c opened err = (c', r) \<Longrightarrow> c' = c \<or> c' = failed c"
  by (auto simp: checkOpened_def Let_def split: option.splits if_splits)

lemma openMessage_keeps:
  "openMessage te c message opts = Ret (c', r) \<Longrightarrow> sameThing c c' \<and> dummyString c' = dummyString c"
  by (auto simp: openMessage_def bind_out_Ret split: if_splits prod.splits option.splits
      dest!: thingKeys_keeps checkOpened_keeps)

lemma sealAnswer_keeps:
  "sealAnswer te c cmd reply err opts = Ret (c', r) \<Longrightarrow> sameThing c c' \<and> dummyString c' = dummyString c"
  by (auto simp: sealAnswer_def Let_def bind_out_Ret split: if_splits prod.splits dest!: thingKeys_keeps)

lemma execute_keeps:
  "execute te act msg c = Ret (c', reply) \<Longrightarrow> sameThing c c' \<and> (act \<noteq> StoreText \<longrightarrow> dummyString c' = dummyString c)"
  by (cases act) (auto simp: Let_def split: if_splits)

lemma runCommand_keeps:
  assumes "runCommand te c message encrypted err = Ret (c', cmd, reply)"
  shows "sameThing c c' \<and> (dummyString c' \<noteq> dummyString c \<longrightarrow>
    err = [] \<and> cmd = thingCommand te (CommandMap c) message \<and> (isOpen cmd \<or> encrypted) \<and> (\<exists>d. cmd = Some d \<and> Execute d = StoreText))"
  using assms
  by (fastforce simp: runCommand_def Let_def bind_out_Ret split: if_splits option.splits dest: execute_keeps)

section \<open>Who is an administrator\<close>

text \<open>The packet opens, with the key of an administrator and that of the thing, to a text and a time at most
  30 seconds off.\<close>

definition fromAdmin :: "thingEnv \<Rightarrow> thingContext \<Rightarrow> packet \<Rightarrow> bool" where
  "fromAdmin te c p \<longleftrightarrow> (\<exists>a s payload opts http m opts' box nonce key pk sk text time rest t.
     p = Send a s payload opts \<and> thingRequest (Topic c) payload opts = Inr (http, CHR ''='' # m, opts')
   \<and> b64_decode m = (box, True) \<and> GetOption opts' ''nonc'' = (nonce, True)
   \<and> key \<in> {AdminPubStr c, AdminPubStr2 c} \<and> b64_decode key = (pk, True) \<and> b64_decode (PrivStr c) = (sk, True)
   \<and> thingOpen te box (fitBytes 24 nonce) pk sk = Some (join_with (CHR ''#'') (text # time # rest))
   \<and> parse_int 64 time = Some t \<and> timeWithin 30 (thingClock te 0) t)"

lemma fromAdmin_same:
  assumes "sameThing c c'" "fromAdmin te c' p"
  shows "fromAdmin te c p"
  using assms(2) unfolding fromAdmin_def sameThing_fields [OF assms(1)] .

lemma takeKey_ok:
  assumes "takeKey te key err = Ret (k, [])" "\<And>s. thingB64Error te s \<noteq> []"
  shows "b64_decode key = (k, True) \<and> err = []"
  using assms by (auto simp: takeKey_def split: prod.splits if_splits)

lemma thingKeys_ok:
  assumes "thingKeys te c admn e1 err = Ret (c', pk, sk, [])" "\<And>s. thingB64Error te s \<noteq> []" "e1 \<noteq> []"
  shows "\<exists>key \<in> {AdminPubStr c, AdminPubStr2 c}. b64_decode key = (pk, True) \<and> b64_decode (PrivStr c) = (sk, True) \<and> err = []"
proof (cases "chooseAdmin c admn")
  case None
  then show ?thesis
    using assms by (auto simp: thingKeys_def bind_out_Ret dest!: takeKey_ok [OF _ assms(2)])
next
  case (Some key)
  have "key \<in> {AdminPubStr c, AdminPubStr2 c}" using Some by (auto simp: chooseAdmin_def split: if_splits)
  then show ?thesis
    using assms Some by (auto simp: thingKeys_def bind_out_Ret dest!: takeKey_ok [OF _ assms(2)])
qed

lemma checkOpened_ok:
  assumes "checkOpened te c opened err = (c', message, True, [])"
  shows "err = [] \<and> (\<exists>text time rest t. opened = join_with (CHR ''#'') (text # time # rest)
    \<and> parse_int 64 time = Some t \<and> timeWithin 30 (thingClock te 0) t)"
proof -
  let ?parts = "split_on (CHR ''#'') opened"
  have l: "\<not> length ?parts \<le> 1" using assms by (auto simp: checkOpened_def)
  then obtain said time others where p: "?parts = said # time # others"
    by (cases ?parts; cases "tl ?parts") auto
  have "opened = join_with (CHR ''#'') (said # time # others)" using join_split [of "CHR ''#''" opened] p by simp
  moreover have "err = [] \<and> (\<exists>t. parse_int 64 time = Some t \<and> timeWithin 30 (thingClock te 0) t)"
    using assms p by (auto simp: checkOpened_def Let_def split: option.splits if_splits)
  ultimately show ?thesis by blast
qed

lemma openMessage_ok:
  assumes "openMessage te c message opts = Ret (c', message', True, [])" "\<And>s. thingB64Error te s \<noteq> []"
  obtains m box nonce key pk sk said time more_parts t where
    "message = CHR ''='' # m" "b64_decode m = (box, True)" "GetOption opts ''nonc'' = (nonce, True)"
    "key \<in> {AdminPubStr c, AdminPubStr2 c}" "b64_decode key = (pk, True)" "b64_decode (PrivStr c) = (sk, True)"
    "thingOpen te box (fitBytes 24 nonce) pk sk = Some (join_with (CHR ''#'') (said # time # more_parts))"
    "parse_int 64 time = Some t" "timeWithin 30 (thingClock te 0) t"
proof -
  obtain m where m: "message = CHR ''='' # m"
    using assms(1) by (cases message) (auto simp: openMessage_def split: if_splits)
  obtain nonce admn where n: "GetOption opts ''nonc'' = (nonce, True)" "GetOption opts ''admn'' = (admn, True)"
    using assms(1) m by (auto simp: openMessage_def split: if_splits prod.splits)
  obtain box ok where b: "b64_decode m = (box, ok)" by fastforce
  define noMatch where "noMatch = ''no matching admin key found'' @ Topic c"
  let ?err = "if ok then [] else thingB64Error te (tl message)"
  have tl_m: "has_prefix message ''=''" "tl message = m" by (simp_all add: m)
  let ?fin = "\<lambda>(c1, pk, sk, err). Ret (case thingOpen te box (fitBytes 24 nonce) pk sk of
      None \<Rightarrow> (failed c1, message, False, ''failed to decrypt'')
    | Some opened \<Rightarrow> checkOpened te c1 opened err)"
  have "bind_out (thingKeys te c admn noMatch ?err) ?fin = Ret (c', message', True, [])"
    using assms(1) n b tl_m by (simp add: openMessage_def noMatch_def cong: if_cong)
  then obtain c1 pk sk err where k: "thingKeys te c admn noMatch ?err = Ret (c1, pk, sk, err)"
    "(case thingOpen te box (fitBytes 24 nonce) pk sk of
        None \<Rightarrow> (failed c1, message, False, ''failed to decrypt'')
      | Some opened \<Rightarrow> checkOpened te c1 opened err) = (c', message', True, [])"
    by (auto simp only: bind_out_Ret prod.case outcome.inject)
  then obtain opened where o: "thingOpen te box (fitBytes 24 nonce) pk sk = Some opened"
    "checkOpened te c1 opened err = (c', message', True, [])"
    by (auto split: option.splits)
  note co = checkOpened_ok [OF o(2)]
  then have e: "thingKeys te c admn noMatch ?err = Ret (c1, pk, sk, [])" using k(1) by simp
  obtain key where key: "key \<in> {AdminPubStr c, AdminPubStr2 c}" "b64_decode key = (pk, True)"
    "b64_decode (PrivStr c) = (sk, True)" "?err = []"
    using thingKeys_ok [OF e assms(2)] by (auto simp: noMatch_def)
  then have "ok" using assms(2) by (auto split: if_splits)
  moreover obtain said time others t where "opened = join_with (CHR ''#'') (said # time # others)" "parse_int 64 time = Some t"
    "timeWithin 30 (thingClock te 0) t"
    using co by blast
  ultimately show ?thesis using that [OF m _ n(1) key(1-3)] b o(1) by simp
qed

lemma only_storing_is_locked: "\<forall>(k, d) \<in> set thingCommands. Execute d = StoreText \<longrightarrow> \<not> contains (Description d) open_lock"
  by code_simp

lemma thingCommand_found: "thingCommand te m message = Some d \<Longrightarrow> \<exists>k. (k, d) \<in> set m"
  by (auto simp: thingCommand_def split: option.splits dest: map_of_SomeD)

lemma digest_stores:
  assumes "digestPacket te p c = Ret (c', r)" "\<And>s. thingB64Error te s \<noteq> []" "CommandMap c = thingCommands"
  shows "sameThing c c' \<and> (dummyString c' \<noteq> dummyString c \<longrightarrow> fromAdmin te c p)"
proof (cases "\<exists>a s payload opts http message opts'. p = Send a s payload opts \<and> thingRequest (Topic c) payload opts = Inr (http, message, opts')")
  case False
  then show ?thesis
    using assms(1) by (cases p) (auto split: sum.splits)
next
  case True
  then obtain a s payload opts http message opts' where p: "p = Send a s payload opts"
    "thingRequest (Topic c) payload opts = Inr (http, message, opts')" by blast
  obtain c1 message1 encrypted err c2 cmd reply reply1 where d:
    "openMessage te c message opts' = Ret (c1, message1, encrypted, err)"
    "runCommand te c1 message1 encrypted err = Ret (c2, cmd, reply)"
    "sealAnswer te c2 cmd reply err opts' = Ret (c', reply1)"
    using assms(1) by (auto simp: p bind_out_Ret)
  note o = openMessage_keeps [OF d(1)] and e = runCommand_keeps [OF d(2)] and w = sealAnswer_keeps [OF d(3)]
  have same: "sameThing c c'" using o e w sameThing_trans by blast
  moreover have "fromAdmin te c p" if "dummyString c' \<noteq> dummyString c"
  proof -
    have ch: "dummyString c2 \<noteq> dummyString c1" using that o w by simp
    then obtain x where x: "err = []" "cmd = thingCommand te thingCommands message1" "isOpen cmd \<or> encrypted" "cmd = Some x"
      "Execute x = StoreText"
      using e o sameThing_fields(6) [of c c1] assms(3) by auto
    obtain k where "(k, x) \<in> set thingCommands" using thingCommand_found [of te thingCommands message1 x] x by auto
    then have "\<not> isOpen cmd" using only_storing_is_locked x(5) by (auto simp: x(4) isOpen_def)
    then have enc: "encrypted = True" using x by simp
    show ?thesis
      by (rule openMessage_ok [OF d(1) [unfolded enc x(1)] assms(2)]) (use p in \<open>unfold fromAdmin_def, blast\<close>)
  qed
  ultimately show ?thesis by blast
qed

lemma serveThing_stores:
  assumes "serveThing te writeOk p c = Ret (c', r)" "\<And>s. thingB64Error te s \<noteq> []" "CommandMap c = thingCommands"
  shows "sameThing c c' \<and> (dummyString c' \<noteq> dummyString c \<longrightarrow> fromAdmin te c p)"
proof -
  have "c' = c \<or> (\<exists>c1 r1. digestPacket te p c = Ret (c1, r1) \<and> (c' = failed c1 \<or> c' = c1\<lparr>thingCount := thingCount c1 + 1\<rparr>))"
  proof (cases "\<exists>a opts. p = packet.Subscribe a opts")
    case True
    then show ?thesis using assms(1) by (auto simp: serveThing_def)
  next
    case False
    then have "bind_out (digestPacket te p c) (\<lambda>(c1, r). case r of
               Inl err \<Rightarrow> Ret (failed c1, ClosedAfter err)
             | Inr q \<Rightarrow> if writeOk then Ret (c1\<lparr>thingCount := thingCount c1 + 1\<rparr>, AnsweredBy q)
                        else Ret (failed c1, ClosedAfter [])) = Ret (c', r)"
      using assms(1) by (cases p) (simp_all add: serveThing_def)
    then obtain z where "digestPacket te p c = Ret z"
      "(case z of (c1, Inl err) \<Rightarrow> Ret (failed c1, ClosedAfter err)
        | (c1, Inr q) \<Rightarrow> if writeOk then Ret (c1\<lparr>thingCount := thingCount c1 + 1\<rparr>, AnsweredBy q)
                         else Ret (failed c1, ClosedAfter [])) = Ret (c', r)"
      unfolding bind_out_Ret by blast
    then show ?thesis by (cases z; cases "snd z") (auto split: if_splits)
  qed
  then show ?thesis using digest_stores [OF _ assms(2,3)] by auto
qed

text \<open>C10: The text that a thing keeps changes only by a packet of an administrator: whatever packets a
  connection brings, if the text is another in the end then one of them was sealed with one of the two keys
  of administrators for this thing, and stamped at most 30 seconds from when it was served.\<close>

theorem stored_text_is_from_an_admin:
  assumes "thingLoop te ps c = Ret (c', replies)" "dummyString c' \<noteq> dummyString c" "CommandMap c = thingCommands"
    and "\<And>i s. thingB64Error (te i) s \<noteq> []"
  shows "\<exists>i < length ps. fromAdmin (te i) c (fst (ps ! i))"
  using assms
proof (induction ps arbitrary: te c replies)
  case Nil
  then show ?case by auto
next
  case (Cons pw ps)
  obtain p writeOk where pw: "pw = (p, writeOk)" by fastforce
  obtain c1 r where r: "serveThing (te 0) writeOk p c = Ret (c1, r)"
    using Cons.prems(1) by (auto simp: pw bind_out_Ret)
  note step = serveThing_stores [OF r Cons.prems(4,3)]
  show ?case
  proof (cases "dummyString c1 = dummyString c")
    case False
    then show ?thesis using step by (intro exI [of _ 0]) (simp add: pw)
  next
    case True
    then obtain qs where "thingLoop (\<lambda>i. te (Suc i)) ps c1 = Ret (c', qs)"
      using Cons.prems(1,2) r by (cases r) (auto simp: pw bind_out_Ret)
    then obtain i where i: "i < length ps" "fromAdmin (te (Suc i)) c1 (fst (ps ! i))"
      using Cons.IH [of "\<lambda>i. te (Suc i)" c1 qs] Cons.prems True step sameThing_fields(6) by auto
    then show ?thesis using step fromAdmin_same by (intro exI [of _ "Suc i"]) auto
  qed
qed

text \<open>A thing whose keys are the bytes of a letter, and a box that opens for the pair it was sealed for.\<close>

definition sampleBox :: "bytes \<Rightarrow> bytes \<Rightarrow> bytes \<Rightarrow> bytes \<Rightarrow> bytes" where
  "sampleBox m nonce pk sk = m"

definition sampleThingEnv :: thingEnv where
  "sampleThingEnv = \<lparr>thingClock = (\<lambda>i. 1000), thingOpen = (\<lambda>m nonce pk sk. Some m), thingSeal = sampleBox,
     thingB64Error = (\<lambda>s. ''illegal base64 data''), thingIntError = (\<lambda>s. ''invalid syntax''), rangeOrder = (\<lambda>ks. ks),
     thingRandom = 7, TempInF = f_int 46, Humidity = f_int 10\<rparr>"

definition sampleThing :: thingContext where
  "sampleThing = \<lparr>Topic = ''lamp'', Password = [], PubStr = [], PrivStr = [], AdminPubStr = [], AdminPrivStr = [],
     AdminPubStr2 = [], AdminPrivStr2 = [], dummyString = [],
     thingFails = 0, thingCount = 0, CommandMap = [], thingToken = [], LogMeVerbose = False\<rparr>"

definition letterKeys :: "string \<Rightarrow> bytes \<times> bytes" where
  "letterKeys pass = (replicate 32 (hd pass), replicate 32 (last pass))"

definition lampThing :: thingContext where
  "lampThing = startThing letterKeys sampleThing"

definition sealedText :: packet where
  "sealedText = Send zeroAddress zeroAddress (CHR ''='' # b64_encode ''set some text on#1000'')
     (SetOption ''admn'' (take 8 (b64_encode (replicate 32 (CHR ''m'')))) (SetOption ''nonc'' ''n'' []))"

declare b64_encode.simps [simp del]

lemma b64_chars: "c \<in> set (b64_encode bs) \<Longrightarrow> c \<in> set b64_alphabet"
  using b64_encode_chars [of c bs] by (auto simp: b64_digit_def b64_alphabet_length)

lemma b64_free:
  assumes "c \<in> set ''?&= #/%+'' \<or> c = CHR 0x0A"
  shows "c \<notin> set (b64_encode bs)"
proof
  assume "c \<in> set (b64_encode bs)"
  from b64_chars [OF this] show False using assms by (auto simp: b64_alphabet_def)
qed

lemma letter_keys:
  "b64_decode (AdminPubStr lampThing) = (replicate 32 (CHR ''m''), True)" "b64_decode (PrivStr lampThing) = (replicate 32 (CHR ''3''), True)"
  "CommandMap lampThing = thingCommands" "dummyString lampThing = ''none''" "Topic lampThing = ''lamp''"
  "AdminPubStr lampThing = b64_encode (replicate 32 (CHR ''m''))" "AdminPubStr2 lampThing = b64_encode (replicate 32 (CHR ''m''))"
  by (simp_all add: lampThing_def startThing_def setupCommands_def SetupKeys_def letterKeys_def sampleThing_def b64_decode_encode)

lemma has_prefix_take: "has_prefix s (take n s)"
  using has_prefix_append [of "take n s" "drop n s"] by simp

lemma storing_found:
  "thingCommand sampleThingEnv thingCommands ''set some text on''
    = Some \<lparr>CommandString = ''set some text'', Description = ''save some text'', ArgCount = 1, Execute = StoreText\<rparr>"
proof -
  have o: "rangeOrder sampleThingEnv = (\<lambda>ks. ks)" by (simp add: sampleThingEnv_def)
  show ?thesis unfolding thingCommand_def o by code_simp
qed

lemma thousand: "parse_int 64 ''1000'' = Some 1000" "timeWithin 30 1000 1000"
  by (simp_all add: parse_int_def is_digit_def timeWithin_def Let_def)

lemma sample_env: "thingClock sampleThingEnv i = 1000" "thingOpen sampleThingEnv m nonce pk sk = Some m"
  "thingSeal sampleThingEnv = sampleBox" "thingB64Error sampleThingEnv x = ''illegal base64 data''"
  by (simp_all add: sampleThingEnv_def)

lemma sample_stores:
  "\<exists>c' q. digestPacket sampleThingEnv sealedText lampThing = Ret (c', Inr q) \<and> dummyString c' = ''on''"
proof -
  let ?opts = "SetOption ''admn'' (take 8 (b64_encode (replicate 32 (CHR ''m'')))) (SetOption ''nonc'' ''n'' [])"
  have g: "GetOption ?opts ''nonc'' = (''n'', True)" "GetOption ?opts ''admn'' = (take 8 (b64_encode (replicate 32 (CHR ''m''))), True)"
    by (simp_all add: GetOption_def SetOption_def om_get_def)
  have k: "thingKeys sampleThingEnv lampThing (take 8 (b64_encode (replicate 32 (CHR ''m'')))) e1 e2
      = Ret (lampThing, replicate 32 (CHR ''m''), replicate 32 (CHR ''3''), e2)" for e1 e2
    by (simp add: thingKeys_def chooseAdmin_def letter_keys(6) has_prefix_take takeKey_def letter_keys(2) b64_decode_encode)
  have c: "checkOpened sampleThingEnv lampThing ''set some text on#1000'' [] = (lampThing, ''set some text on'', True, [])"
    by (simp add: checkOpened_def thousand sample_env replace_byte_def)
  have o: "openMessage sampleThingEnv lampThing (CHR ''='' # b64_encode ''set some text on#1000'') ?opts
      = Ret (lampThing, ''set some text on'', True, [])"
    by (simp add: openMessage_def g k b64_decode_encode sample_env c)
  have r: "runCommand sampleThingEnv lampThing ''set some text on'' True [] = Ret (lampThing\<lparr>dummyString := ''on''\<rparr>,
      Some \<lparr>CommandString = ''set some text'', Description = ''save some text'', ArgCount = 1, Execute = StoreText\<rparr>, ''ok'')"
    by (simp add: runCommand_def letter_keys(3) storing_found trimSpaces_def)
  have k2: "thingKeys sampleThingEnv (lampThing\<lparr>dummyString := ''on''\<rparr>) (take 8 (b64_encode (replicate 32 (CHR ''m'')))) e1 e2
      = Ret (lampThing\<lparr>dummyString := ''on''\<rparr>, replicate 32 (CHR ''m''), replicate 32 (CHR ''3''), e2)" for e1 e2
    by (simp add: thingKeys_def chooseAdmin_def letter_keys(6) has_prefix_take takeKey_def letter_keys(2) b64_decode_encode)
  show ?thesis
    by (simp add: sealedText_def thingRequest_def o r sealAnswer_def g k2)
qed

theorem stored_text_is_from_an_admin_witness:
  "fromAdmin sampleThingEnv lampThing sealedText"
proof -
  obtain c' q where d: "digestPacket sampleThingEnv sealedText lampThing = Ret (c', Inr q)" "dummyString c' = ''on''"
    using sample_stores by blast
  have "thingLoop (\<lambda>i. sampleThingEnv) [(sealedText, True)] lampThing = Ret (failed (c'\<lparr>thingCount := thingCount c' + 1\<rparr>), [q])"
    using d(1) by (simp add: serveThing_def sealedText_def del: digestPacket.simps)
  from stored_text_is_from_an_admin [OF this] show ?thesis by (simp add: d(2) letter_keys sample_env)
qed

section \<open>What stops a thing\<close>



section \<open>A sealed command and its answer\<close>

text \<open>What the page of a thing is: the request becomes a packet, the thing answers it, and the body of the
  answer is the page.\<close>

definition thingPage :: "thingEnv \<Rightarrow> thingContext \<Rightarrow> AddressUnion \<Rightarrow> (string \<times> string list) list \<Rightarrow> string \<Rightarrow> bytes option" where
  "thingPage te c src headers path =
     (case requestPacket (Topic c) src (requestLine ''GET'' path ''HTTP/1.1'') headers [] of
        None \<Rightarrow> None
      | Some p \<Rightarrow> (case digestPacket te p c of
                     Ret (c', Inr (Send a s answer opts)) \<Rightarrow> Some (snd (snd (ParsePayload answer)))
                   | _ \<Rightarrow> None))"

lemma trim_inner:
  assumes "s \<noteq> []" "hd s \<noteq> CHR '' ''" "last s \<noteq> CHR '' ''"
  shows "trimSpaces (CHR '' '' # s) = s"
proof -
  have "rev s \<noteq> []" "hd (rev s) \<noteq> CHR '' ''" using assms by (simp_all add: hd_rev)
  then have "dropWhile (\<lambda>c. c = CHR '' '') (rev s) = rev s" by (cases "rev s") auto
  moreover have "dropWhile (\<lambda>c. c = CHR '' '') s = s" using assms by (cases s) auto
  ultimately show ?thesis by (simp add: trimSpaces_def)
qed

lemma replace_free: "c \<notin> set s \<Longrightarrow> replace_byte c d s = s"
  by (induction s) (auto simp: replace_byte_def)

lemma format_int_free: "\<not> is_digit c \<Longrightarrow> c \<noteq> CHR ''-'' \<Longrightarrow> c \<notin> set (format_int i)"
  using dec_nat_digits [of c] by (auto simp: format_int_def)

lemma split_stamp:
  "CHR ''#'' \<notin> set s \<Longrightarrow> split_on (CHR ''#'') (s @ CHR ''#'' # format_int t) = [s, format_int t]"
  by (simp add: split_on_append split_on_free format_int_free is_digit_def)

text \<open>The body of an HTTP answer.\<close>

lemma index_of_cr:
  "index_of (CHR 0x0D # CHR 0x0A # c # s) (crlf @ crlf) = (if c = CHR 0x0D \<and> (\<exists>r. s = CHR 0x0A # r) then Some 0
    else map_option (\<lambda>i. i + 2) (index_of (c # s) (crlf @ crlf)))"
  by (cases s) (auto simp: crlf_def index_of.simps [of "CHR 0x0D # _"] index_of.simps [of "CHR 0x0A # _"] option.map_comp comp_def)

lemma answer_body: "snd (snd (ParsePayload (httpReply reply))) = reply"
proof -
  define body_length where "body_length = ''Content-Length: '' @ dec_nat (length reply)"
  define lines where "lines = [''HTTP/1.1 200 OK'', body_length, ''Content-Type: text/plain'', ''Access-Control-Allow-Origin: *'',
    ''access-control-expose-headers: nonc'', ''Connection: Closed'']"
  have free: "CHR 0x0D \<notin> set l" "l \<noteq> []" if "l \<in> set lines" for l
    using that dec_nat_digits [of "CHR 0x0D" "length reply"] by (auto simp: lines_def body_length_def is_digit_def)
  have step: "index_of (l @ crlf @ concat (map (\<lambda>l. l @ crlf) ls) @ crlf @ reply) (crlf @ crlf)
      = Some (length (concat (map (\<lambda>l. l @ crlf) (l # ls))) - 2)"
    if "set (l # ls) \<subseteq> set lines" for l ls
    using that
  proof (induction ls arbitrary: l)
    case Nil
    then show ?case using index_of_skip [OF free(1) [of l]] by (simp add: crlf_def index_of.simps [of "CHR 0x0D # _"])
  next
    case (Cons k ls)
    obtain c k' where k: "k = c # k'" "c \<noteq> CHR 0x0D" using free [of k] Cons.prems by (cases k) auto
    have "index_of (k @ crlf @ concat (map (\<lambda>l. l @ crlf) ls) @ crlf @ reply) (crlf @ crlf)
        = Some (length (concat (map (\<lambda>l. l @ crlf) (k # ls))) - 2)"
      using Cons.prems by (intro Cons.IH) auto
    then show ?case
      using index_of_skip [OF free(1) [of l], of _ "CHR 0x0A # crlf"] Cons.prems k
        index_of_cr [of c "k' @ crlf @ concat (map (\<lambda>l. l @ crlf) ls) @ crlf @ reply"]
      by (simp add: crlf_def)
  qed
  define H where "H = butlast (butlast (concat (map (\<lambda>l. l @ crlf) lines)))"
  have a: "httpReply reply = concat (map (\<lambda>l. l @ crlf) lines) @ crlf @ reply"
    by (simp add: httpReply_def lines_def body_length_def format_int_def)
  obtain n where n: "index_of (httpReply reply) (crlf @ crlf) = Some (Suc n)"
    "Suc n + 2 = length (concat (map (\<lambda>l. l @ crlf) lines))"
    using step [of "hd lines" "tl lines"] by (simp add: a) (simp add: lines_def crlf_def)
  have "drop (Suc n + 4) (httpReply reply) = reply"
  proof -
    have e: "Suc n + 4 = length (concat (map (\<lambda>l. l @ crlf) lines)) + 2" using n(2) by simp
    show ?thesis unfolding a e by (simp add: crlf_def)
  qed
  then show ?thesis using n(1) by (simp add: ParsePayload_def Let_def)
qed

text \<open>The request of a sealed command.\<close>

lemma http_request:
  assumes "has_prefix m ''GET /''" "split_on (CHR '' '') (hd (split_on (CHR 0x0A) m)) = [a, path, b]"
    and "split_on (CHR ''?'') path = [page, query]" "thingArgs topic (split_on (CHR ''&'') query) opts = Inr opts1"
  shows "thingRequest topic m opts
    = Inr (True, trimSpaces (replace_byte (CHR ''/'') (CHR '' '') page), SetOption ''monitorpod'' ''rocks'' opts1)"
  using assms by (simp add: thingRequest_def)

lemma sealed_request:
  fixes adminPub :: bytes
  assumes "set nonceStr \<subseteq> set ''0123456789abcdefghijklmnopqrstuvwxyz''" "sealed \<noteq> []"
  defines "path \<equiv> CHR ''/'' # CHR ''='' # b64_encode sealed @ ''?nonc='' @ nonceStr @ ''&admn='' @ take 8 (b64_encode adminPub)"
  shows "\<exists>opts'. thingRequest topic (requestBytes (requestLine ''GET'' path ''HTTP/1.1'') headers []) opts
    = Inr (True, CHR ''='' # b64_encode sealed, opts')
    \<and> GetOption opts' ''nonc'' = (nonceStr, True) \<and> GetOption opts' ''admn'' = (take 8 (b64_encode adminPub), True)"
proof -
  have nf: "c \<notin> set nonceStr" if "c \<notin> set ''0123456789abcdefghijklmnopqrstuvwxyz''" for c
    using assms(1) that by blast
  have af: "c \<notin> set (take 8 (b64_encode adminPub))" if "c \<notin> set b64_alphabet" for c
    using that b64_chars in_set_takeD by metis
  have bf: "c \<notin> set (b64_encode sealed)" if "c \<notin> set b64_alphabet" for c
    using that b64_chars by metis
  note free = nf af bf
  define rest where "rest = headerLines headers @ crlf"
  have bytes: "requestBytes (requestLine ''GET'' path ''HTTP/1.1'') headers []
      = (''GET '' @ path @ '' HTTP/1.1'') @ CHR 0x0A # rest"
    by (simp add: requestBytes_def requestLine_def rest_def)
  have pathfree: "CHR 0x0A \<notin> set path" "CHR '' '' \<notin> set path"
    using free [of "CHR 0x0A"] free [of "CHR '' ''"] by (simp_all add: path_def b64_alphabet_def)
  have line: "hd (split_on (CHR 0x0A) ((''GET '' @ path @ '' HTTP/1.1'') @ CHR 0x0A # rest)) = ''GET '' @ path @ '' HTTP/1.1''"
    using pathfree by (subst split_on_append) simp_all
  have words: "split_on (CHR '' '') (''GET '' @ path @ '' HTTP/1.1'') = [''GET'', path, ''HTTP/1.1'']"
    using pathfree split_on_append [of "CHR '' ''" path "''HTTP/1.1''"] by simp
  have query: "split_on (CHR ''?'') path
      = [CHR ''/'' # CHR ''='' # b64_encode sealed, ''nonc='' @ nonceStr @ ''&admn='' @ take 8 (b64_encode adminPub)]"
    using free [of "CHR ''?''"] split_on_append [of "CHR ''?''" "CHR ''/'' # CHR ''='' # b64_encode sealed"
        "''nonc='' @ nonceStr @ ''&admn='' @ take 8 (b64_encode adminPub)"]
    by (simp add: path_def b64_alphabet_def split_on_free)
  have args: "split_on (CHR ''&'') (''nonc='' @ nonceStr @ ''&admn='' @ take 8 (b64_encode adminPub))
      = [''nonc='' @ nonceStr, ''admn='' @ take 8 (b64_encode adminPub)]"
    using free [of "CHR ''&''"] split_on_append [of "CHR ''&''" "''nonc='' @ nonceStr" "''admn='' @ take 8 (b64_encode adminPub)"]
    by (simp add: b64_alphabet_def split_on_free)
  have kv: "split_on (CHR ''='') (''nonc='' @ nonceStr) = [''nonc'', nonceStr]"
    "split_on (CHR ''='') (''admn='' @ take 8 (b64_encode adminPub)) = [''admn'', take 8 (b64_encode adminPub)]"
    using free [of "CHR ''=''"] by (simp_all add: b64_alphabet_def split_on_free)
  have message: "trimSpaces (replace_byte (CHR ''/'') (CHR '' '') (CHR ''/'' # CHR ''='' # b64_encode sealed)) = CHR ''='' # b64_encode sealed"
  proof -
    have "replace_byte (CHR ''/'') (CHR '' '') (CHR ''/'' # CHR ''='' # b64_encode sealed) = CHR '' '' # CHR ''='' # b64_encode sealed"
      using free(3) [of "CHR ''/''"] replace_free [of "CHR ''/''" "b64_encode sealed"] by (simp add: b64_alphabet_def replace_byte_def)
    moreover have "last (CHR ''='' # b64_encode sealed) \<noteq> CHR '' ''"
    proof -
      have "CHR '' '' \<notin> set (b64_encode sealed)" using free(3) [of "CHR '' ''"] by (simp add: b64_alphabet_def)
      then have "b64_encode sealed \<noteq> [] \<Longrightarrow> last (b64_encode sealed) \<noteq> CHR '' ''" by (metis last_in_set)
      then show ?thesis by (cases "b64_encode sealed = []") simp_all
    qed
    ultimately show ?thesis by (simp add: trim_inner)
  qed
  have starts: "has_prefix (requestBytes (requestLine ''GET'' path ''HTTP/1.1'') headers []) ''GET /''"
    unfolding bytes by (simp add: path_def)
  have split: "split_on (CHR '' '') (hd (split_on (CHR 0x0A) (requestBytes (requestLine ''GET'' path ''HTTP/1.1'') headers [])))
      = [''GET'', path, ''HTTP/1.1'']"
    unfolding bytes line by (rule words)
  have "thingArgs topic (split_on (CHR ''&'') (''nonc='' @ nonceStr @ ''&admn='' @ take 8 (b64_encode adminPub))) opts
      = Inr (SetOption ''admn'' (take 8 (b64_encode adminPub)) (SetOption ''nonc'' nonceStr opts))"
    unfolding args using kv by simp
  from http_request [OF starts split query this] message show ?thesis by (simp add: getOption_set)
qed

text \<open>The site of a thing as its client finds it; \<open>nonc\<close> is the argument of the address that was answered.\<close>

definition siteOf :: "string \<Rightarrow> string \<Rightarrow> string" where
  "siteOf thing server = ''http://'' @ thing @ ''.'' @ server"

definition askThing :: "thingEnv \<Rightarrow> thingContext \<Rightarrow> AddressUnion \<Rightarrow> (string \<times> string list) list \<Rightarrow> string \<Rightarrow> string \<Rightarrow>
    string \<Rightarrow> string + (string \<times> bytes)" where
  "askThing te c src headers server nonc url =
     (case thingPage te c src headers (drop (length (siteOf (Topic c) server)) url) of
        None \<Rightarrow> Inl ''EOF''
      | Some page \<Rightarrow> Inr (nonc, page))"

lemma fit_exact: "length bs = n \<Longrightarrow> fitBytes n bs = bs"
  by (simp add: fitBytes_def)

lemma b64_long: "length bs = 32 \<Longrightarrow> 8 \<le> length (b64_encode bs)"
  using b64_decode_length [of "b64_encode bs"] by (simp add: b64_decode_encode)

lemma thingKeys_first:
  assumes "AdminPubStr c = b64_encode adminPub" "PrivStr c = b64_encode devPriv" "length adminPub = 32" "length devPriv = 32"
  shows "thingKeys te c (take 8 (b64_encode adminPub)) e1 e2 = Ret (c, adminPub, devPriv, e2)"
  using assms by (simp add: thingKeys_def chooseAdmin_def has_prefix_take takeKey_def b64_decode_encode)


lemma b64_short: "length (b64_encode bs) \<le> 2 * length bs"
  by (induction bs rule: b64_encode.induct) (simp_all add: b64_encode.simps Let_def)

lemma random_found:
  "thingCommand sampleThingEnv thingCommands ''get random''
    = Some \<lparr>CommandString = ''get random'', Description = ''returns a random integer'', ArgCount = 0, Execute = TellRandom\<rparr>"
  by (simp add: thingCommand_def) code_simp


end
