(* ===== verification/Database.thy ===== *)
theory Database
  imports LookMsg Samples
begin

text \<open>
  The collection of names (\<open>iot/mongo.go\<close>) and the form in which it keeps topics (the \<open>bson\<close> tags of
  \<open>WatchedTopic\<close>, the marshalling in \<open>iot/hashes.go\<close> and \<open>iot/lookup-table.go\<close>). The operations of the driver on
  the collection are arguments, with what they are documented to do as \<open>collection_ok\<close>; a document is the record of
  the fields it has. It is shown what a topic is after it was saved and fetched again, and that the database gives
  lookups what they rely on.
\<close>

section \<open>Documents\<close>

record storedTopic =
  docName :: string
  docNameStr :: string
  docExp :: u32
  docOpt :: "(string, string) omap option"
  docBill :: "(KnotFreeContactStats \<times> string) option"
  docJwtid :: string
  docOwned :: bool
  docOwn :: string
  docUsers :: "string list"

text \<open>What \<open>fmt.Sprint\<close> makes of the value of an option; what it makes of other types is an argument.\<close>

fun optText :: "string \<Rightarrow> optval \<Rightarrow> string" where
  "optText other (OStr s) = s"
| "optText other (OBytes bs) = ''['' @ join_with (CHR '' '') (map (\<lambda>b. dec_nat (byte_val b)) bs) @ '']''"
| "optText other OOther = other"

text \<open>A float that equals 0 is left out of the document, and so is read as 0.\<close>

definition omitZero :: "f64 \<Rightarrow> f64" where
  "omitZero x = (if feq x f_zero then f_zero else x)"

definition storedStats :: "KnotFreeContactStats \<Rightarrow> KnotFreeContactStats" where
  "storedStats st = \<lparr>Input = omitZero (Input st), Output = omitZero (Output st), Subscriptions = omitZero (Subscriptions st),
     Connections = omitZero (Connections st)\<rparr>"

text \<open>Fields without a capital are not stored: the watchers, the times of billing, the ring of buckets.\<close>

definition storeOptions :: "string \<Rightarrow> (string, optval) omap \<Rightarrow> (string, string) omap" where
  "storeOptions other m = map (\<lambda>(k, v). (k, optText other v)) m"

definition storeTopic :: "string \<Rightarrow> WatchedTopic \<Rightarrow> storedTopic" where
  "storeTopic other wt =
     \<lparr>docName = ToBase64 (Name wt), docNameStr = NameStr wt, docExp = Expires wt,
      docOpt = map_option (storeOptions other) (OptionalKeyValues wt),
      docBill = map_option (\<lambda>b. (storedStats (Max b), billName b)) (Bill wt),
      docJwtid = Jwtid wt, docOwned = OwnedBroadcast wt, docOwn = Owner wt, docUsers = Users wt\<rparr>"

definition loadOptions :: "(string, string) omap \<Rightarrow> (string, optval) omap" where
  "loadOptions m = om_build (map (\<lambda>(k, v). (k, OStr v)) m) []"

text \<open>Nothing stands for the error of a name that has not 32 characters; one that is no base64 panics.\<close>

definition loadName :: "string \<Rightarrow> HashType option outcome" where
  "loadName s =
     (if length s \<noteq> 32 then Ret None
      else case FromBase64 (Hash 0 0 0) s of None \<Rightarrow> Panic | Some h \<Rightarrow> Ret (Some h))"

definition loadTopic :: "storedTopic \<Rightarrow> WatchedTopic option outcome" where
  "loadTopic d =
     bind_out (loadName (docName d)) (\<lambda>r. Ret (map_option (\<lambda>h.
       emptyTopic\<lparr>Name := h, NameStr := docNameStr d, Expires := docExp d,
          OptionalKeyValues := map_option loadOptions (docOpt d),
          Bill := map_option (\<lambda>(mx, nm). newAccumulator mx nm) (docBill d),
          Jwtid := docJwtid d, OwnedBroadcast := docOwned d, Owner := docOwn d, Users := docUsers d\<rparr>) r))"

section \<open>The collection\<close>

text \<open>Finding by name and by owner; an operation that fails gives no new state.\<close>

record 'c collection =
  findOne :: "string \<Rightarrow> 'c \<Rightarrow> storedTopic option"
  findOwned :: "string \<Rightarrow> 'c \<Rightarrow> storedTopic list"
  insertOne :: "storedTopic \<Rightarrow> 'c \<Rightarrow> 'c option"
  replaceOne :: "string \<Rightarrow> storedTopic \<Rightarrow> 'c \<Rightarrow> 'c option"
  deleteOne :: "string \<Rightarrow> 'c \<Rightarrow> 'c option"

definition GetSubscription :: "'c collection \<Rightarrow> string \<Rightarrow> 'c \<Rightarrow> WatchedTopic option outcome" where
  "GetSubscription col hashedTopicStr c =
     (case findOne col hashedTopicStr c of None \<Rightarrow> Ret None | Some d \<Rightarrow> loadTopic d)"

definition SaveSubscription :: "'c collection \<Rightarrow> string \<Rightarrow> WatchedTopic \<Rightarrow> 'c \<Rightarrow> 'c option" where
  "SaveSubscription col other watchedTopic c =
     (let d = storeTopic other watchedTopic in
      case findOne col (docName d) c of
        None \<Rightarrow> insertOne col d c
      | Some old \<Rightarrow> replaceOne col (docName d) d c)"

definition DeleteSubscription :: "'c collection \<Rightarrow> string \<Rightarrow> 'c \<Rightarrow> 'c option" where
  "DeleteSubscription col hashedTopicStr c = deleteOne col hashedTopicStr c"

text \<open>The list is an error as soon as one document is.\<close>

fun loadTopics :: "storedTopic list \<Rightarrow> WatchedTopic list option outcome" where
  "loadTopics [] = Ret (Some [])"
| "loadTopics (d # ds) =
     bind_out (loadTopic d) (\<lambda>r. case r of
       None \<Rightarrow> Ret None
     | Some wt \<Rightarrow> bind_out (loadTopics ds) (\<lambda>r'. Ret (map_option (\<lambda>wts. wt # wts) r')))"

definition GetSubscriptionList :: "'c collection \<Rightarrow> string \<Rightarrow> 'c \<Rightarrow> WatchedTopic list option outcome" where
  "GetSubscriptionList col ownerPubk c = loadTopics (findOwned col ownerPubk c)"

definition GetSubscriptionListCount :: "'c collection \<Rightarrow> string \<Rightarrow> 'c \<Rightarrow> int option outcome" where
  "GetSubscriptionListCount col ownerPubk c =
     bind_out (GetSubscriptionList col ownerPubk c) (\<lambda>r. Ret (map_option (\<lambda>wts. int (length wts)) r))"

text \<open>The indices that are created once in a process, up to the first that fails; the flag is set before. Collection,
  field, whether its values are unique.\<close>

definition iotIndexes :: "(string \<times> string \<times> bool) list" where
  "iotIndexes =
     [(''subscriptions'', ''name'', True), (''subscriptions'', ''jwtid'', False), (''subscriptions'', ''own'', False),
      (''saved-tokens'', ''knotfreetokenpayload.jti'', True), (''saved-tokens'', ''knotfreetokenpayload.pubk'', False),
      (''saved-tokens'', ''ip'', False)]"

fun createIndexes :: "(string \<times> string \<times> bool \<Rightarrow> 'db \<Rightarrow> string + 'db) \<Rightarrow> (string \<times> string \<times> bool) list \<Rightarrow> 'db \<Rightarrow>
    'db \<times> string option" where
  "createIndexes createOne [] db = (db, None)"
| "createIndexes createOne (ix # ixs) db =
     (case createOne ix db of Inl err \<Rightarrow> (db, Some err) | Inr db' \<Rightarrow> createIndexes createOne ixs db')"

definition InitIotTables :: "(string \<times> string \<times> bool \<Rightarrow> 'db \<Rightarrow> string + 'db) \<Rightarrow> bool \<Rightarrow> 'db \<Rightarrow> bool \<times> 'db \<times> string option" where
  "InitIotTables createOne mongoTablesInited db =
     (if mongoTablesInited then (True, db, None) else (True, createIndexes createOne iotIndexes db))"

text \<open>What the effects of a handler do to the collection; their errors are ignored.\<close>

fun storeEffect :: "'c collection \<Rightarrow> string \<Rightarrow> effect \<Rightarrow> 'c \<Rightarrow> 'c" where
  "storeEffect col other (SaveTopic wt) c = (case SaveSubscription col other wt c of None \<Rightarrow> c | Some c' \<Rightarrow> c')"
| "storeEffect col other (DeleteTopic name) c = (case DeleteSubscription col name c of None \<Rightarrow> c | Some c' \<Rightarrow> c')"
| "storeEffect col other _ c = c"

text \<open>The services of a node that uses the collection in a state of it.\<close>

definition found :: "'a option outcome \<Rightarrow> 'a option" where
  "found r = (case r of Ret x \<Rightarrow> x | _ \<Rightarrow> None)"

definition withDatabase :: "'c collection \<Rightarrow> 'c \<Rightarrow> services \<Rightarrow> services" where
  "withDatabase col c sv = sv\<lparr>dbGet := (\<lambda>name. found (GetSubscription col name c)),
     dbCount := (\<lambda>own. found (GetSubscriptionListCount col own c))\<rparr>"

section \<open>What is kept\<close>

text \<open>The documented behaviour of the operations, as long as the server answers: a name is found under itself; an
  insertion of a new name, a replacement and a deletion do what they say and nothing else.\<close>

definition collection_ok :: "'c collection \<Rightarrow> bool" where
  "collection_ok col \<longleftrightarrow>
     (\<forall>c n d. findOne col n c = Some d \<longrightarrow> docName d = n)
   \<and> (\<forall>c d. findOne col (docName d) c = None \<longrightarrow>
        (\<exists>c'. insertOne col d c = Some c' \<and> (\<forall>n. findOne col n c' = (if n = docName d then Some d else findOne col n c))))
   \<and> (\<forall>c d. findOne col (docName d) c \<noteq> None \<longrightarrow>
        (\<exists>c'. replaceOne col (docName d) d c = Some c' \<and> (\<forall>n. findOne col n c' = (if n = docName d then Some d else findOne col n c))))
   \<and> (\<forall>c m. \<exists>c'. deleteOne col m c = Some c' \<and> (\<forall>n. findOne col n c' = (if n = m then None else findOne col n c)))"

lemma collection_okD:
  assumes "collection_ok col"
  shows "findOne col n c = Some d \<Longrightarrow> docName d = n"
    and "findOne col (docName d) c = None \<Longrightarrow>
      \<exists>c'. insertOne col d c = Some c' \<and> (\<forall>n. findOne col n c' = (if n = docName d then Some d else findOne col n c))"
    and "findOne col (docName d) c \<noteq> None \<Longrightarrow>
      \<exists>c'. replaceOne col (docName d) d c = Some c' \<and> (\<forall>n. findOne col n c' = (if n = docName d then Some d else findOne col n c))"
    and "\<exists>c'. deleteOne col m c = Some c' \<and> (\<forall>n. findOne col n c' = (if n = m then None else findOne col n c))"
  using assms by (simp_all add: collection_ok_def)

text \<open>A topic as it is after it was saved and fetched.\<close>

definition restored :: "string \<Rightarrow> WatchedTopic \<Rightarrow> WatchedTopic" where
  "restored other wt = wt\<lparr>thetree := [], nextBillingTime := 0, lastBillingTime := 0,
     OptionalKeyValues := map_option (\<lambda>m. map (\<lambda>(k, v). (k, OStr (optText other v))) m) (OptionalKeyValues wt),
     Bill := map_option (\<lambda>b. newAccumulator (storedStats (Max b)) (billName b)) (Bill wt)\<rparr>"

lemma hash_base64_length: "length (ToBase64 h) = 32"
  by (simp add: ToBase64_def getBytes_full b64_encode_length3 HashTypeLen_def)

lemmas hash_base64 = base64_hash hash_base64_length

lemma hash_base64_inj: "ToBase64 h = ToBase64 h' \<longleftrightarrow> h = h'"
  using base64_hash by (metis option.inject)

lemma load_store:
  assumes "topic_ok h wt"
  shows "loadTopic (storeTopic other wt) = Ret (Some (restored other wt))"
proof -
  have "loadOptions (storeOptions other m) = map (\<lambda>(k, v). (k, OStr (optText other v))) m"
    if "OptionalKeyValues wt = Some m" for m
  proof -
    have keys: "map fst (map (\<lambda>(k, v). (k, OStr (optText other v))) m) = map fst m" by (simp add: case_prod_unfold)
    have "om_ok m" using assms that by (simp add: topic_ok_def)
    then have "om_ok (map (\<lambda>(k, v). (k, OStr (optText other v))) m)" unfolding om_ok_def keys .
    then show ?thesis using om_build_sorted [of "[]"] by (simp add: loadOptions_def storeOptions_def case_prod_unfold comp_def)
  qed
  then show ?thesis
    by (cases wt; cases "OptionalKeyValues wt"; cases "Bill wt")
       (simp_all add: loadTopic_def loadName_def storeTopic_def restored_def hash_base64 emptyTopic_def)
qed

lemma load_named:
  assumes "loadTopic d = Ret (Some wt)" "docName d = ToBase64 h"
  shows "topic_ok h wt"
  using assms
  by (auto simp: loadTopic_def loadName_def loadOptions_def hash_base64 topic_ok_def emptyTopic_def om_build_ok split: option.splits)

lemma database_is_sound:
  assumes "collection_ok col"
  shows "db_ok (withDatabase col c sv)"
  using collection_okD(1) [OF assms] load_named
  by (fastforce simp: db_ok_def withDatabase_def found_def GetSubscription_def split: option.splits outcome.splits)

text \<open>C24: A name survives a restart: what a node saves, whoever fetches it finds again, with its owner, expiry, users and
  options as they were but without subscribers and usage, and every other name as it was; a name that is deleted
  is found no more. And what is found is always a well-formed topic of the name that was asked for.\<close>

theorem saved_names_are_restored:
  assumes "collection_ok col" "topic_ok h wt"
  shows "db_ok (withDatabase col c sv)
    \<and> dbGet (withDatabase col (storeEffect col other (SaveTopic wt) c) sv) (ToBase64 k)
      = (if k = h then Some (restored other wt) else dbGet (withDatabase col c sv) (ToBase64 k))
    \<and> dbGet (withDatabase col (storeEffect col other (DeleteTopic (ToBase64 h)) c) sv) (ToBase64 k)
      = (if k = h then None else dbGet (withDatabase col c sv) (ToBase64 k))"
proof (intro conjI)
  let ?d = "storeTopic other wt"
  have n: "docName ?d = ToBase64 h" using assms(2) by (simp add: storeTopic_def topic_ok_def)
  obtain c' where c': "SaveSubscription col other wt c = Some c'"
    "\<forall>n. findOne col n c' = (if n = ToBase64 h then Some ?d else findOne col n c)"
    using collection_okD(2,3) [OF assms(1), of ?d c] by (cases "findOne col (docName ?d) c") (auto simp: SaveSubscription_def n)
  show "dbGet (withDatabase col (storeEffect col other (SaveTopic wt) c) sv) (ToBase64 k)
      = (if k = h then Some (restored other wt) else dbGet (withDatabase col c sv) (ToBase64 k))"
    using c' load_store [OF assms(2)] by (simp add: withDatabase_def GetSubscription_def found_def hash_base64_inj)
  obtain c'' where "DeleteSubscription col (ToBase64 h) c = Some c''"
    "\<forall>n. findOne col n c'' = (if n = ToBase64 h then None else findOne col n c)"
    using collection_okD(4) [OF assms(1), where m = "ToBase64 h" and c = c] by (auto simp: DeleteSubscription_def)
  then show "dbGet (withDatabase col (storeEffect col other (DeleteTopic (ToBase64 h)) c) sv) (ToBase64 k)
      = (if k = h then None else dbGet (withDatabase col c sv) (ToBase64 k))"
    by (simp add: withDatabase_def GetSubscription_def found_def hash_base64_inj)
qed (rule database_is_sound [OF assms(1)])

text \<open>A collection that is a list with at most one document of a name.\<close>

definition listCollection :: "storedTopic list collection" where
  "listCollection =
     \<lparr>findOne = (\<lambda>n. find (\<lambda>d. docName d = n)), findOwned = (\<lambda>own. filter (\<lambda>d. docOwn d = own)),
      insertOne = (\<lambda>d ds. case find (\<lambda>x. docName x = docName d) ds of None \<Rightarrow> Some (d # ds) | Some x \<Rightarrow> None),
      replaceOne = (\<lambda>n d ds. Some (d # filter (\<lambda>x. docName x \<noteq> n) ds)),
      deleteOne = (\<lambda>n ds. Some (filter (\<lambda>x. docName x \<noteq> n) ds))\<rparr>"

lemma find_filter_name: "find (\<lambda>d. docName d = n) (filter (\<lambda>d. docName d \<noteq> m) ds) = (if n = m then None else find (\<lambda>d. docName d = n) ds)"
  by (induction ds) auto

lemma find_name: "find (\<lambda>d. docName d = n) ds = Some d \<Longrightarrow> docName d = n \<and> d \<in> set ds"
  by (induction ds) (auto split: if_splits)

lemma find_none: "find (\<lambda>d. docName d = n) ds = None \<Longrightarrow> d \<in> set ds \<Longrightarrow> docName d \<noteq> n"
  by (induction ds) (auto split: if_splits)

lemma listCollection_ok: "collection_ok listCollection"
  unfolding collection_ok_def listCollection_def
  by (auto simp: find_filter_name dest: find_name find_none)

definition storedLamp :: WatchedTopic where
  "storedLamp = emptyTopic\<lparr>Name := Hash 1 2 3, Owner := ''QkI'', thetree := [(7, \<lparr>contactInterface = 7, pub2self = False\<rparr>)]\<rparr>"

theorem saved_names_are_restored_witness:
  "\<exists>wt. dbGet (withDatabase listCollection (storeEffect listCollection [] (SaveTopic storedLamp) []) sampleServices) (ToBase64 (Hash 1 2 3)) = Some wt
    \<and> Owner wt = ''QkI'' \<and> thetree wt = []"
proof -
  have "topic_ok (Hash 1 2 3) storedLamp"
    by (simp add: storedLamp_def topic_ok_def emptyTopic_def om_ok_def)
  from saved_names_are_restored [OF listCollection_ok this, of "[]" sampleServices "[]" "Hash 1 2 3"]
  show ?thesis by (simp add: restored_def storedLamp_def)
qed

end
