(* ===== verification/Dialers.thy ===== *)
theory Dialers
  imports Executive
begin

text \<open>
  The connections that a node keeps up: of an aide to each guru (\<open>dialGuruAndServe\<close> of \<open>iot/guru-dialer.go\<close>) and
  of any node to some aide (\<open>dialAideAndServe\<close> of \<open>iot/aide-dialer.go\<close>). Each is a state that the steps of its
  goroutines change; an event that cannot happen in a state leaves it as it is. It is shown that packets to a
  guru keep their order and at most one is lost for each connection, and that an aide that goes away takes the
  node with it.
\<close>

section \<open>A guru\<close>

text \<open>The queue of packets, what was written on the connections so far, the latest first, what was handed to the
  table, and for the statement of what is lost the packets that were taken with the result of the write.\<close>

record guruDialer =
  gdUp :: "packet list"
  gdLines :: "packet list list"
  gdServing :: bool
  gdFoundErr :: bool
  gdStopped :: bool
  gdDown :: "packet list"
  gdTaken :: "(packet \<times> bool) list"

datatype guruEvent =
    GuruQueued packet
  | GuruDialed bool bool
  | GuruWrites bool
  | GuruChecks
  | GuruReads "packet option" bool
  | GuruPings
  | GuruStops

definition newGuruDialer :: guruDialer where
  "newGuruDialer = \<lparr>gdUp = [], gdLines = [], gdServing = False, gdFoundErr = False, gdStopped = False, gdDown = [], gdTaken = []\<rparr>"

fun onLine :: "packet \<Rightarrow> packet list list \<Rightarrow> packet list list" where
  "onLine p [] = [[p]]"
| "onLine p (l # ls) = (l @ [p]) # ls"

text \<open>Dialing gives a line that starts with a \<open>Connect\<close>; if that cannot be written the loop dials again. The writer
  takes a packet, and on an error returns; it also returns when it finds that the reader had an error or that
  the channel was stopped. Each connection starts a pinger, which queues after its sleep whatever happened since.\<close>

fun guruStep :: "bytes \<Rightarrow> guruEvent \<Rightarrow> guruDialer \<Rightarrow> guruDialer" where
  "guruStep token (GuruQueued p) d = d\<lparr>gdUp := gdUp d @ [p]\<rparr>"
| "guruStep token (GuruDialed dialOk connectOk) d =
     (if gdServing d \<or> gdStopped d then d
      else if \<not> dialOk then d\<lparr>gdFoundErr := False\<rparr>
      else if \<not> connectOk then d\<lparr>gdFoundErr := True\<rparr>
      else d\<lparr>gdFoundErr := False, gdServing := True, gdLines := [Connect (SetOption ''token'' token [])] # gdLines d\<rparr>)"
| "guruStep token (GuruWrites ok) d =
     (if \<not> gdServing d \<or> gdFoundErr d \<or> gdStopped d then d
      else case gdUp d of
        [] \<Rightarrow> d
      | p # ps \<Rightarrow>
          if ok then d\<lparr>gdUp := ps, gdLines := onLine p (gdLines d), gdTaken := gdTaken d @ [(p, True)]\<rparr>
          else d\<lparr>gdUp := ps, gdFoundErr := True, gdServing := False, gdTaken := gdTaken d @ [(p, False)]\<rparr>)"
| "guruStep token GuruChecks d =
     (if gdServing d \<and> (gdFoundErr d \<or> gdStopped d) then d\<lparr>gdServing := False\<rparr> else d)"
| "guruStep token (GuruReads r pushOk) d =
     (if \<not> gdServing d \<or> gdFoundErr d \<or> gdStopped d then d
      else case r of
        None \<Rightarrow> d\<lparr>gdFoundErr := True\<rparr>
      | Some p \<Rightarrow> if pushOk then d\<lparr>gdDown := gdDown d @ [p]\<rparr> else d\<lparr>gdFoundErr := True\<rparr>)"
| "guruStep token GuruPings d =
     (if gdLines d = [] then d else d\<lparr>gdUp := gdUp d @ [Ping []]\<rparr>)"
| "guruStep token GuruStops d = d\<lparr>gdStopped := True\<rparr>"

definition runGuru :: "bytes \<Rightarrow> guruEvent list \<Rightarrow> guruDialer" where
  "runGuru token es = fold (guruStep token) es newGuruDialer"

definition lineBodies :: "guruDialer \<Rightarrow> packet list" where
  "lineBodies d = concat (map tl (rev (gdLines d)))"

text \<open>What is queued is what was taken and what is still there; what was taken and written is what is on the
  lines, which all start with the \<open>Connect\<close>; there is no more lost than lines are broken.\<close>

definition link_ok :: "bytes \<Rightarrow> guruDialer \<Rightarrow> bool" where
  "link_ok token d \<longleftrightarrow>
     lineBodies d = map fst (filter snd (gdTaken d))
   \<and> (\<forall>l \<in> set (gdLines d). l \<noteq> [] \<and> hd l = Connect (SetOption ''token'' token []))
   \<and> (gdServing d \<longrightarrow> gdLines d \<noteq> [])
   \<and> length (filter (\<lambda>x. \<not> snd x) (gdTaken d)) + (if gdServing d then 1 else 0) \<le> length (gdLines d)"

lemma onLine_body: "ls \<noteq> [] \<Longrightarrow> \<forall>l \<in> set ls. l \<noteq> [] \<Longrightarrow> concat (map tl (rev (onLine p ls))) = concat (map tl (rev ls)) @ [p]"
  by (cases ls) auto

lemma onLine_heads: "ls \<noteq> [] \<Longrightarrow> \<forall>l \<in> set ls. l \<noteq> [] \<and> hd l = c \<Longrightarrow> \<forall>l \<in> set (onLine p ls). l \<noteq> [] \<and> hd l = c"
  by (cases ls) auto

lemma onLine_length: "ls \<noteq> [] \<Longrightarrow> length (onLine p ls) = length ls"
  by (cases ls) auto

lemma guruStep_ok:
  assumes "link_ok token d"
  shows "link_ok token (guruStep token e d)"
proof (cases e)
  case (GuruWrites ok)
  show ?thesis
  proof (cases "\<not> gdServing d \<or> gdFoundErr d \<or> gdStopped d \<or> gdUp d = []")
    case True
    then show ?thesis using assms by (auto simp: GuruWrites split: list.splits)
  next
    case False
    then obtain p ps where u: "gdUp d = p # ps" by (cases "gdUp d") auto
    define c where "c = Connect (SetOption ''token'' token [])"
    have ok: "gdServing d" "gdLines d \<noteq> []" "\<forall>l \<in> set (gdLines d). l \<noteq> [] \<and> hd l = c"
      "lineBodies d = map fst (filter snd (gdTaken d))"
      "Suc (length (filter (\<lambda>x. \<not> snd x) (gdTaken d))) \<le> length (gdLines d)"
      using assms False by (simp_all add: link_ok_def c_def)
    show ?thesis
    proof (cases ok)
      case True
      let ?d = "d\<lparr>gdUp := ps, gdLines := onLine p (gdLines d), gdTaken := gdTaken d @ [(p, True)]\<rparr>"
      have "lineBodies ?d = lineBodies d @ [p]"
        using onLine_body [OF ok(2), of p] ok(3) by (simp add: lineBodies_def)
      moreover have "onLine p (gdLines d) \<noteq> []" using onLine_length [OF ok(2), of p] ok(2) by auto
      ultimately have "link_ok token ?d"
        using ok(4,5) onLine_heads [OF ok(2,3), of p] onLine_length [OF ok(2), of p]
        by (simp add: link_ok_def c_def)
      then show ?thesis using True False u by (simp add: GuruWrites)
    next
      case failed: False
      have "link_ok token (d\<lparr>gdUp := ps, gdFoundErr := True, gdServing := False, gdTaken := gdTaken d @ [(p, False)]\<rparr>)"
        using ok by (simp add: link_ok_def lineBodies_def c_def)
      then show ?thesis using failed False u by (simp add: GuruWrites)
    qed
  qed
next
  case (GuruReads r pushOk)
  then show ?thesis using assms by (cases r; cases "gdServing d") (simp_all add: link_ok_def lineBodies_def)
next
  case (GuruDialed dialOk connectOk)
  then show ?thesis
    using assms by (cases "gdServing d") (simp_all add: link_ok_def lineBodies_def)
next
  case (GuruQueued p)
  then show ?thesis using assms by (simp add: link_ok_def lineBodies_def)
next
  case GuruChecks
  then show ?thesis using assms by (cases "gdServing d") (simp_all add: link_ok_def lineBodies_def)
next
  case GuruPings
  then show ?thesis using assms by (cases "gdServing d"; cases "gdLines d = []") (simp_all add: link_ok_def lineBodies_def)
next
  case GuruStops
  then show ?thesis using assms by (simp add: link_ok_def lineBodies_def)
qed

definition queuedBy :: "guruEvent list \<Rightarrow> packet list" where
  "queuedBy es = concat (map (\<lambda>e. case e of GuruQueued p \<Rightarrow> [p] | _ \<Rightarrow> []) es)"

definition isPing :: "packet \<Rightarrow> bool" where
  "isPing p \<longleftrightarrow> p = Ping []"

lemma guruStep_queue:
  "filter (\<lambda>p. \<not> isPing p) (map fst (gdTaken (guruStep token e d)) @ gdUp (guruStep token e d))
    = filter (\<lambda>p. \<not> isPing p) (map fst (gdTaken d) @ gdUp d @ queuedBy [e])"
  by (cases e) (auto simp: queuedBy_def isPing_def split: list.splits option.splits)

lemma runGuru_snoc: "runGuru token (es @ [e]) = guruStep token e (runGuru token es)"
  by (simp add: runGuru_def)

lemma runGuru_ok: "link_ok token (runGuru token es)"
proof (induction es rule: rev_induct)
  case Nil
  then show ?case by (simp add: runGuru_def newGuruDialer_def link_ok_def lineBodies_def)
next
  case (snoc e es)
  then show ?case using guruStep_ok by (simp add: runGuru_snoc)
qed

lemma runGuru_queue:
  "filter (\<lambda>p. \<not> isPing p) (map fst (gdTaken (runGuru token es)) @ gdUp (runGuru token es)) = filter (\<lambda>p. \<not> isPing p) (queuedBy es)"
proof (induction es rule: rev_induct)
  case Nil
  then show ?case by (simp add: runGuru_def newGuruDialer_def queuedBy_def)
next
  case (snoc e es)
  then show ?case
    unfolding runGuru_snoc guruStep_queue by (simp add: queuedBy_def)
qed


section \<open>Some aide\<close>

text \<open>Three goroutines share the index of the aide, its name and the connection: one dials, looks whether the aide
  still exists and writes what others queued; one reads, only to notice the end of the connection; one
  pings. The first is dialing, about to announce the connection to
  the second, about to look, or waiting for a packet; the second waits for a connection or
  reads. A connection that is nil is dereferenced by a write and by a close.\<close>

datatype writerPlace = AtDial | AtAnnounce | AtLook | AtQueue

record aideDialer =
  adIndex :: int
  adName :: string
  adConn :: bool
  adPlace :: writerPlace
  adReading :: bool
  adQueue :: "packet list"
  adLine :: "packet list"

datatype aideEvent =
    AideQueued packet
  | AideDialed "ExecutiveStats list" nat bool
  | AideAnnounced bool
  | AideLooked "ExecutiveStats list"
  | AideTaken bool
  | AideReads bool
  | AidePings

definition newAideDialer :: aideDialer where
  "newAideDialer = \<lparr>adIndex = -1, adName = [], adConn = False, adPlace = AtDial, adReading = False, adQueue = [], adLine = []\<rparr>"

text \<open>Without an aide to choose the first goroutine stays where it is, and so it does after a failed dial. To
  announce a connection it waits for the reader to be back, and then asks for its address. The look goes by the
  statistics of the cluster: the message about an aide that is gone reads the entry of its old index.\<close>

fun aideStep :: "bytes \<Rightarrow> string \<Rightarrow> aideEvent \<Rightarrow> aideDialer \<Rightarrow> aideDialer outcome" where
  "aideStep token nodeName (AideQueued p) d = Ret (d\<lparr>adQueue := adQueue d @ [p]\<rparr>)"
| "aideStep token nodeName AidePings d = Ret (d\<lparr>adQueue := adQueue d @ [Ping []]\<rparr>)"
| "aideStep token nodeName (AideDialed exs r dialOk) d =
     (if adPlace d \<noteq> AtDial then Ret d
      else
        let d1 = (if adIndex d = -1 then (case getTheIndex r exs of (i, nm, ad) \<Rightarrow> d\<lparr>adIndex := i, adName := nm\<rparr>) else d) in
        if adIndex d1 = -1 then Ret d1
        else if dialOk then Ret (d1\<lparr>adConn := True, adPlace := AtAnnounce\<rparr>)
        else Ret (d1\<lparr>adConn := False, adIndex := -1\<rparr>))"
| "aideStep token nodeName (AideAnnounced connectOk) d =
     (if adPlace d \<noteq> AtAnnounce \<or> adReading d then Ret d
      else if \<not> adConn d then Panic
      else if connectOk then Ret (d\<lparr>adReading := True, adPlace := AtLook, adLine :=
        [Connect (SetOption ''comment'' (''dialAideAndServe'' @ nodeName) (SetOption ''token'' token []))]\<rparr>)
      else Ret (d\<lparr>adReading := True, adPlace := AtDial, adLine := [], adIndex := -1\<rparr>))"
| "aideStep token nodeName (AideLooked exs) d =
     (if adPlace d \<noteq> AtLook then Ret d
      else if adIndex d = -1 then Ret (d\<lparr>adPlace := AtDial\<rparr>)
      else if \<forall>st \<in> set exs. statName st \<noteq> adName d then
        if length exs \<le> nat (adIndex d) \<or> \<not> adConn d then Panic
        else Ret (d\<lparr>adIndex := -1, adPlace := AtDial\<rparr>)
      else if \<not> adConn d then Ret (d\<lparr>adPlace := AtDial\<rparr>)
      else Ret (d\<lparr>adPlace := AtQueue\<rparr>))"
| "aideStep token nodeName (AideTaken ok) d =
     (if adPlace d \<noteq> AtQueue then Ret d
      else case adQueue d of
        [] \<Rightarrow> Ret d
      | p # ps \<Rightarrow>
          if \<not> adConn d then Panic
          else if ok then Ret (d\<lparr>adQueue := ps, adLine := adLine d @ [p], adPlace := AtLook\<rparr>)
          else Ret (d\<lparr>adQueue := ps, adConn := False, adIndex := -1, adPlace := AtDial\<rparr>))"
| "aideStep token nodeName (AideReads ok) d =
     (if \<not> adReading d \<or> ok then Ret d
      else if \<not> adConn d then Panic
      else Ret (d\<lparr>adConn := False, adIndex := -1, adReading := False\<rparr>))"

fun runAide :: "bytes \<Rightarrow> string \<Rightarrow> aideEvent list \<Rightarrow> aideDialer \<Rightarrow> aideDialer outcome" where
  "runAide token nodeName [] d = Ret d"
| "runAide token nodeName (e # es) d = bind_out (aideStep token nodeName e d) (runAide token nodeName es)"

lemma runAide_append:
  "runAide token nodeName (es @ fs) d = bind_out (runAide token nodeName es d) (runAide token nodeName fs)"
proof (induction es arbitrary: d)
  case (Cons e es)
  then show ?case by (cases "aideStep token nodeName e d") simp_all
qed simp

text \<open>The writer waits for a packet while there is no connection.\<close>

definition deaf :: "aideDialer \<Rightarrow> bool" where
  "deaf d \<longleftrightarrow> adPlace d = AtQueue \<and> \<not> adConn d"

lemma deaf_step:
  assumes "deaf d"
  shows "aideStep token nodeName e d = Panic
    \<or> (\<exists>d'. aideStep token nodeName e d = Ret d' \<and> deaf d' \<and> (adQueue d \<noteq> [] \<longrightarrow> adQueue d' \<noteq> []))"
  using assms by (cases e) (auto simp: deaf_def split: list.splits)

lemma deaf_run:
  assumes "deaf d"
  shows "runAide token nodeName es d = Panic
    \<or> (\<exists>d'. runAide token nodeName es d = Ret d' \<and> deaf d' \<and> (adQueue d \<noteq> [] \<longrightarrow> adQueue d' \<noteq> []))"
  using assms
proof (induction es arbitrary: d)
  case (Cons e es)
  then show ?case using deaf_step [OF Cons.prems, of token nodeName e] by fastforce
qed simp

lemma deaf_takes: "deaf d \<Longrightarrow> adQueue d \<noteq> [] \<Longrightarrow> aideStep token nodeName (AideTaken ok) d = Panic"
  by (auto simp: deaf_def split: list.splits)

text \<open>C15: An aide that goes away takes the node with it: when its connection ends while the writer waits for a packet, the
  reader sets the connection to nil, and whatever happens then, the next packet that the writer takes is
  written to nil, which panics.\<close>

theorem a_lost_aide_stops_the_node:
  assumes "runAide token nodeName es newAideDialer = Ret d" "adPlace d = AtQueue" "adConn d" "adReading d"
  shows "runAide token nodeName (es @ AideReads False # fs @ AideQueued p # gs @ [AideTaken ok]) newAideDialer = Panic"
proof -
  let ?run = "runAide token nodeName"
  have next_deaf: "?run gs d2 = Panic \<or> (\<exists>d'. ?run gs d2 = Ret d' \<and> deaf d' \<and> adQueue d' \<noteq> [])"
    if "deaf d1" "d2 = d1\<lparr>adQueue := adQueue d1 @ [p]\<rparr>" for d1 d2
    using deaf_run [of d2 token nodeName gs] that by (auto simp: deaf_def)
  have "deaf (d\<lparr>adConn := False, adIndex := -1, adReading := False\<rparr>)" (is "deaf ?d") using assms(2) by (simp add: deaf_def)
  from deaf_run [OF this, of token nodeName fs]
  have "?run (fs @ AideQueued p # gs @ [AideTaken ok]) ?d = Panic"
  proof
    assume "\<exists>d'. ?run fs ?d = Ret d' \<and> deaf d' \<and> (adQueue ?d \<noteq> [] \<longrightarrow> adQueue d' \<noteq> [])"
    then obtain d1 where d1: "?run fs ?d = Ret d1" "deaf d1" by blast
    have "?run (gs @ [AideTaken ok]) (d1\<lparr>adQueue := adQueue d1 @ [p]\<rparr>) = Panic"
      using next_deaf [OF d1(2) refl] deaf_takes by (auto simp: runAide_append)
    then show ?thesis by (simp add: runAide_append d1(1))
  qed (simp add: runAide_append)
  then show ?thesis using assms(1,3,4) by (simp add: runAide_append [of token nodeName es])
qed

definition oneAide :: "ExecutiveStats list" where
  "oneAide = [\<lparr>exStats = zero_stats, Buffers = f_zero, statName = ''aide0'', TCPAddress = ''10.0.0.2:8384'', statGuru = False\<rparr>]"

definition openedAide :: "aideEvent list" where
  "openedAide = [AideDialed oneAide 0 True, AideAnnounced True, AideLooked oneAide]"

theorem a_lost_aide_stops_the_node_witness:
  "runAide [] ''guru0'' (openedAide @ [AideReads False, AideQueued (Ping []), AideTaken True]) newAideDialer = Panic"
proof -
  have "\<exists>d. runAide [] ''guru0'' openedAide newAideDialer = Ret d \<and> adPlace d = AtQueue \<and> adConn d \<and> adReading d"
    by (simp add: openedAide_def newAideDialer_def oneAide_def getTheIndex_def)
  then obtain d where "runAide [] ''guru0'' openedAide newAideDialer = Ret d" "adPlace d = AtQueue" "adConn d" "adReading d"
    by blast
  from a_lost_aide_stops_the_node [OF this, of "[]" "Ping []" "[]" True] show ?thesis by simp
qed

end
