(* ===== verification/TcpService.thy ===== *)
theory TcpService
  imports Service
begin

text \<open>
  The client for requests of the cluster over TCP (\<open>iot/service-contact_tcp.go\<close>): the same calls as in
  \<open>Service\<close>, with a channel of packets to write and a connection that is dialled again for ever. It is shown to
  be a refinement of the client without TCP, so what holds of the answers there holds here. The end of a
  failed write is \<open>writerStep\<close> of \<open>Service\<close>.
\<close>

section \<open>The client\<close>

record tcpService =
  client :: ServiceContact
  tcpOutgoing :: "packet list"
  tcpConnected :: bool
  tcpWritten :: "packet list"
  tcpFail :: nat
  tcpCount :: nat

datatype tcpEvent =
    ClientEvent serviceEvent
  | TcpDials bool bool
  | TcpWrites
  | TcpReads packet
  | TcpReadFails
  | Resubscribes

definition newTcpService :: "string \<Rightarrow> tcpService" where
  "newTcpService name =
     \<lparr>client = newServiceContact name, tcpOutgoing = [serviceSubscribe name], tcpConnected = False, tcpWritten = [],
      tcpFail = 0, tcpCount = 0\<rparr>"

text \<open>What \<open>Get\<close> returns.\<close>

fun tcpGet :: "callerState \<Rightarrow> (string + packet) option" where
  "tcpGet Asking = None"
| "tcpGet (Answered p) = Some (Inr p)"
| "tcpGet (GaveUp reason) = Some (Inl
     (if reason = ''ServiceContact failed prematurely'' then ''ServiceContact_tcp failed prematurely''
      else ''ServiceContact_tcp timed out waiting for reply 2 sec''))"

text \<open>A request is queued instead of pushed, which may wait but not fail; what arrives is read from the
  connection. \<open>None\<close> stands for an event that cannot happen.\<close>

fun tcpStep :: "bytes \<Rightarrow> tcpEvent \<Rightarrow> tcpService \<Rightarrow> tcpService option" where
  "tcpStep token (ClientEvent (HandUp c)) t =
     (if length (tcpOutgoing t) < 100
      then map_option (\<lambda>sc. t\<lparr>client := sc, tcpOutgoing := tcpOutgoing t @ [request (calls (client t) ! c)]\<rparr>)
             (serviceStep (HandUp c) (client t))
      else None)"
| "tcpStep token (ClientEvent (HandUpFails c)) t = None"
| "tcpStep token (ClientEvent (Arrive p)) t = None"
| "tcpStep token (ClientEvent e) t = map_option (\<lambda>sc. t\<lparr>client := sc\<rparr>) (serviceStep e (client t))"
| "tcpStep token (TcpDials dialOk connectOk) t =
     (if tcpConnected t then None
      else if dialOk \<and> connectOk
        then Some (t\<lparr>tcpConnected := True, tcpWritten := [Connect (SetOption ''token'' token [])]\<rparr>)
      else Some (t\<lparr>tcpFail := tcpFail t + 1\<rparr>))"
| "tcpStep token TcpWrites t =
     (case tcpOutgoing t of
        [] \<Rightarrow> None
      | p # ps \<Rightarrow> if tcpConnected t then Some (t\<lparr>tcpOutgoing := ps, tcpWritten := tcpWritten t @ [p]\<rparr>) else None)"
| "tcpStep token (TcpReads p) t =
     (if tcpConnected t then map_option (\<lambda>sc. t\<lparr>client := sc, tcpCount := tcpCount t + 1\<rparr>) (serviceStep (Arrive p) (client t))
      else None)"
| "tcpStep token TcpReadFails t = (if tcpConnected t then Some (t\<lparr>tcpConnected := False, tcpFail := tcpFail t + 1\<rparr>) else None)"
| "tcpStep token Resubscribes t =
     (if scClosed (client t) \<or> 100 \<le> length (tcpOutgoing t) then None
      else Some (t\<lparr>tcpOutgoing := tcpOutgoing t @ [serviceSubscribe (mySubscriptionName (client t))]\<rparr>))"

inductive reachedTcp :: "bytes \<Rightarrow> tcpService \<Rightarrow> bool" for token where
  TcpStarted: "reachedTcp token (newTcpService name)"
| TcpStepped: "reachedTcp token t \<Longrightarrow> tcpStep token e t = Some t' \<Longrightarrow> reachedTcp token t'"

section \<open>Refinement\<close>

lemma step_keeps:
  "serviceStep e sc = Some sc' \<Longrightarrow> mySubscriptionName sc' = mySubscriptionName sc \<and> set (handedUp sc) \<subseteq> set (handedUp sc')"
  by (cases e) (auto simp: updateCall_def endSender_def split: option.splits if_splits prod.splits list.splits)

text \<open>A step of the client over TCP is one of the client, or changes nothing there.\<close>

lemma tcpStep_client:
  assumes "tcpStep token e t = Some t'"
  shows "client t' = client t \<or> (\<exists>e'. serviceStep e' (client t) = Some (client t'))"
proof (cases e)
  case (ClientEvent e')
  then show ?thesis using assms by (cases e') (auto simp del: serviceStep.simps split: if_splits)
qed (use assms in \<open>auto simp del: serviceStep.simps split: if_splits list.splits\<close>)

definition sentOk :: "bytes \<Rightarrow> tcpService \<Rightarrow> bool" where
  "sentOk token t \<longleftrightarrow> (\<forall>p \<in> set (tcpOutgoing t) \<union> set (tcpWritten t). p = Connect (SetOption ''token'' token [])
     \<or> p = serviceSubscribe (mySubscriptionName (client t)) \<or> p \<in> set (handedUp (client t)))"

lemma handedUp_request: "serviceStep (HandUp c) sc = Some sc' \<Longrightarrow> request (calls sc ! c) \<in> set (handedUp sc')"
  by (auto simp: updateCall_def split: if_splits)

lemma clientEvent_queues:
  assumes "tcpStep token (ClientEvent e) t = Some t'"
  shows "tcpWritten t' = tcpWritten t \<and> (tcpOutgoing t' = tcpOutgoing t
    \<or> (\<exists>p \<in> set (handedUp (client t')). tcpOutgoing t' = tcpOutgoing t @ [p]))"
proof (cases e)
  case (HandUp c)
  then obtain sc where "serviceStep (HandUp c) (client t) = Some sc"
    "t' = t\<lparr>client := sc, tcpOutgoing := tcpOutgoing t @ [request (calls (client t) ! c)]\<rparr>"
    using assms by (auto simp del: serviceStep.simps split: if_splits)
  then show ?thesis using handedUp_request by auto
qed (use assms in \<open>auto simp del: serviceStep.simps\<close>)

lemma tcpStep_queues:
  assumes "tcpStep token e t = Some t'"
  shows "set (tcpOutgoing t') \<union> set (tcpWritten t') \<subseteq> set (tcpOutgoing t) \<union> set (tcpWritten t)
    \<union> {Connect (SetOption ''token'' token []), serviceSubscribe (mySubscriptionName (client t))} \<union> set (handedUp (client t'))"
proof (cases e)
  case (ClientEvent e')
  show ?thesis using clientEvent_queues [OF assms [unfolded ClientEvent]] by auto
qed (use assms in \<open>auto simp del: serviceStep.simps split: if_splits list.splits\<close>)

lemma tcpStep_sent:
  assumes "tcpStep token e t = Some t'" "sentOk token t"
  shows "sentOk token t'"
proof -
  have c: "mySubscriptionName (client t') = mySubscriptionName (client t) \<and> set (handedUp (client t)) \<subseteq> set (handedUp (client t'))"
    using tcpStep_client [OF assms(1)]
  proof
    assume "\<exists>e'. serviceStep e' (client t) = Some (client t')"
    then obtain e' where "serviceStep e' (client t) = Some (client t')" ..
    then show ?thesis by (rule step_keeps)
  qed simp
  show ?thesis
    unfolding sentOk_def
  proof
    fix p assume "p \<in> set (tcpOutgoing t') \<union> set (tcpWritten t')"
    then have "p \<in> set (tcpOutgoing t) \<union> set (tcpWritten t) \<or> p = Connect (SetOption ''token'' token [])
        \<or> p = serviceSubscribe (mySubscriptionName (client t)) \<or> p \<in> set (handedUp (client t'))"
      using tcpStep_queues [OF assms(1)] by blast
    then show "p = Connect (SetOption ''token'' token []) \<or> p = serviceSubscribe (mySubscriptionName (client t'))
        \<or> p \<in> set (handedUp (client t'))"
      using assms(2) c by (auto simp: sentOk_def)
  qed
qed


definition askedTcp :: tcpService where
  "askedTcp = \<lparr>client = newServiceContact ''n'', tcpOutgoing = [], tcpConnected = True,
     tcpWritten = [Connect (SetOption ''token'' ''t'' []), serviceSubscribe ''n''], tcpFail = 0, tcpCount = 0\<rparr>"


end
