(* ===== verification/Spec2Isabelle.thy ===== *)
theory Spec2Isabelle
  imports Cluster Names Codec Accounts Keys Sessions Bridge Scaling Replies Pages Links
    Dispenser TextLines Relay WebNames ThingAnswers Database Dialers TcpService
begin

text \<open>
  A verification of the message broker of knotfreeiot, written in Go. A cluster has two tiers. Aides
  hold the connections of clients; gurus hold the topics, each topic at the guru that a maglev table
  selects by the topic's hash. A client connects, subscribes to topics, publishes to topics and looks
  names up. A node (aide or guru) keeps its topics in 4 or 64 buckets; each bucket has a map, a queue of
  256 messages and one goroutine that takes them. An aide pushes what it cannot settle itself up to the
  guru of the topic, through one channel per guru; a guru writes down to the aides that subscribed.

  \<^bold>\<open>Theories and sources.\<close>

  \<^item> \<open>Prelude\<close>, \<open>OrdMap\<close>: bytes, words, splitting of strings, results that panic or never come
    (\<open>outcome\<close>), and maps kept in the order of their keys, as the red-black trees of the program are.
  \<^item> \<open>GoEncoding\<close>, \<open>Utf8\<close>, \<open>Sha256\<close>, \<open>Float64\<close>, \<open>GoStrings\<close>: what the program uses of Go and its
    standard library: hex, base64, UTF-8 decoding, SHA-256, IEEE 754 doubles (exact rationals, rounded),
    string functions.
  \<^item> \<open>Address\<close>, \<open>Wire\<close>, \<open>Packets\<close>: \<open>packets/packets.go\<close>; addresses and their normal form, the wire
    format, the seven packets with their options.
  \<^item> \<open>Hashes\<close>: \<open>iot/hashes.go\<close>.
  \<^item> \<open>BadJson\<close>, \<open>PacketText\<close>: \<open>badjson/parse.go\<close> and the text form of packets
    (\<open>packets/packets.go\<close>, \<open>iot/text-protocol.go\<close>).
  \<^item> \<open>Billing\<close>, \<open>History\<close>, \<open>Accounts\<close>: \<open>iot/billing.go\<close> and the prices of \<open>tokens/data.go\<close>.
  \<^item> \<open>Tokens\<close>, \<open>Keys\<close>: \<open>tokens/tokens.go\<close>, the acceptance of tokens and the keys.
  \<^item> \<open>GoNet\<close>, \<open>Minting\<close>, \<open>Dispenser\<close>: the making of tokens in \<open>tokens/tokens.go\<close> (the tokens that a process
    keeps are the record \<open>tokenStore\<close>) and the dispenser of free tokens in \<open>iot/misc.go\<close> (the record
    \<open>dispenser\<close>, with the rate limit and the tokens in the database); what Go's \<open>net\<close> does with addresses.
    \<open>reachedDispenser\<close> are the states that requests lead to, with the invariant \<open>dispenser_ok\<close>.
  \<^item> \<open>LookupTable\<close>, \<open>Subscribe\<close>, \<open>Publish\<close>, \<open>LookMsg\<close>, \<open>LookOptions\<close>: \<open>iot/lookup-table.go\<close>,
    \<open>iot/subscribe.go\<close>, \<open>iot/publish.go\<close>, \<open>iot/billing-command.go\<close>, \<open>iot/lookmsg.go\<close>,
    \<open>iot/nameServices.go\<close>; the state of a node is the record \<open>looker\<close>, its topics are \<open>topics\<close>, and every
    \<open>process...\<close> function of the source is a function of the same name from topics to topics and effects.
  \<^item> \<open>Contacts\<close>, \<open>Sessions\<close>: \<open>iot/contacts.go\<close>; a contact is the record \<open>session\<close>.
  \<^item> \<open>Mqtt\<close>, \<open>Bridge\<close>: \<open>iot/mqtt-protocol.go\<close>; a contact that speaks MQTT is the record \<open>mqttContact\<close>.
  \<^item> \<open>Upstream\<close>: \<open>iot/upper-channels.go\<close> and the state changes of \<open>iot/guru-dialer.go\<close>.
  \<^item> \<open>Dialers\<close>: the connections that are kept up, to a guru (\<open>dialGuruAndServe\<close> of \<open>iot/guru-dialer.go\<close>, the record
    \<open>guruDialer\<close>) and to some aide (\<open>dialAideAndServe\<close> of \<open>iot/aide-dialer.go\<close>, the record \<open>aideDialer\<close>), as the
    interleaved steps of their goroutines.
  \<^item> \<open>FloatBounds\<close>, \<open>Executive\<close>, \<open>Membership\<close>, \<open>Scaling\<close>: \<open>iot/executive.go\<close> and the choice of an aide in
    \<open>iot/aide-dialer.go\<close>; a node is the record \<open>executive\<close>, the cluster \<open>ClusterExecutive\<close>. \<open>clusterReached\<close>
    are the clusters that \<open>Operate\<close> makes, with the invariant \<open>cluster_ok\<close>.
  \<^item> \<open>Service\<close>, \<open>Replies\<close>: \<open>iot/service-contact.go\<close> and the writer of \<open>iot/service-contact_tcp.go\<close>, the
    client for requests of the cluster itself, as the steps \<open>serviceStep\<close> of its goroutines.
  \<^item> \<open>TcpService\<close>: the same client over TCP (\<open>iot/service-contact_tcp.go\<close>), as a refinement of it.
  \<^item> \<open>TextLines\<close>: the loop of \<open>iot/text-protocol.go\<close>.
  \<^item> \<open>Relay\<close>: properties of packets that are read and written again.
  \<^item> \<open>Server\<close>, \<open>Links\<close>: \<open>iot/TCPUtil.go\<close> and the writers of \<open>iot/guru-dialer.go\<close>; a connection is the list
    of bytes that arrive on it, and the record \<open>line\<close> says what the read loop meets meanwhile.
  \<^item> \<open>Subdomain\<close>, \<open>Pages\<close>: \<open>iot/sub-domain-server.go\<close>, requests for web pages that are answered by things.
  \<^item> \<open>WebApi\<close>, \<open>WebNames\<close>: the public HTTP server (\<open>iot/servers.go\<close>) and the HTTP side of \<open>iot/nameServices.go\<close>:
    hosts that stand for things and commands, and the paths of the API.
  \<^item> \<open>Things\<close>, \<open>ThingAnswers\<close>: \<open>monitor_pod/serveThing.go\<close>, a thing that answers commands over the broker and
    the client that asks it over HTTP; its state is the record \<open>thingContext\<close>, a packet is served by
    \<open>digestPacket\<close>.
  \<^item> \<open>Database\<close>: \<open>iot/mongo.go\<close> and the form in which topics are stored; \<open>collection_ok\<close> is what the driver
    is documented to do, and gives \<open>db_ok\<close>, which \<open>node_step\<close> asks of the services.
  \<^item> \<open>Dispatch\<close>, \<open>Node\<close>: \<open>processMessages\<close> and everything that queues messages, as the step relation
    \<open>node_step\<close>, with \<open>reached\<close> the states a node can come to, and the invariant \<open>sound\<close>.
  \<^item> \<open>Broker\<close>, \<open>Cluster\<close>, \<open>Names\<close>, \<open>Codec\<close>, \<open>Accounts\<close>, \<open>Keys\<close>, \<open>Sessions\<close>, \<open>Bridge\<close>,
    \<open>Scaling\<close>, \<open>Replies\<close>, \<open>Pages\<close>, \<open>Links\<close>: the properties; \<open>Samples\<close>: the values they are evaluated on.

  \<^bold>\<open>Interfaces.\<close> The locale \<open>topic_handler\<close> is what the table asks of a handler of messages about one
  topic: other topics stay, the invariant is kept, and the result depends on that topic alone. Each of
  the handlers is shown to be one, and \<open>two_handlers\<close> gives that two of them commute, which is what
  makes the order of messages about different topics irrelevant. \<open>Node\<close> lifts the invariant over all
  steps, whatever their interleaving.

  \<^bold>\<open>What is shown.\<close> Safety of every reachable node; who gets a publication and who does not; what a
  heartbeat and a change of gurus do; who may change a name, what an unauthenticated command can do,
  that commands are answered; that packets, hashes, lengths, texts and options are read back; the
  accounting as a refinement of a list of buckets; what an accepted token proves; that all nodes of a
  resized cluster agree on the guru of a topic and that its size does not swing; that an answer reaches
  the one who asked; that packets written to a connection are the ones that are served; that the parts of
  a web page are put together; how many free tokens are given away; that hosts name things and that a list
  of names goes to its owner; that a sealed command comes back to the one who sent it; that
  names survive a restart; that packets to a guru keep their order over reconnections. Several theorems show
  that the code fails: they end in \<open>Panic\<close> (the process stops) or \<open>Hang\<close> (the goroutine waits for itself).

  \<^bold>\<open>Parameters.\<close> What is not in the repository is an argument: the maglev table, JSON and BSON, the
  database, \<open>box.Open\<close> and the verification of signatures, the Unicode tables beyond ASCII, clocks,
  random numbers, whether a contact is closed, and the order in which Go ranges over a map. The records
  \<open>env\<close>, \<open>services\<close>, \<open>verifier\<close>, \<open>mint\<close>, \<open>dispenserEnv\<close>, \<open>webServer\<close>, \<open>thingEnv\<close> and \<open>collection\<close> hold them; theorems that need something of them say so (\<open>order_ok\<close>: a range
  visits every key once; \<open>settles\<close>: the goroutines of a node keep the wiring of its router, as
  \<open>steps_keep_wiring\<close> shows of its steps; \<open>maglev_sound\<close>: a table of \<open>n\<close> names answers below \<open>n\<close>; \<open>db_ok\<close>: the database
  returns well-formed topics).

  \<^bold>\<open>Bounds and fuel.\<close> Only the parser has fuel: \<open>chop\<close> takes the nesting that is still allowed, 17 at
  the top because the source refuses depth 17, so fuel never runs out before the error of the source.
  All other loops are structural or have a measure, except that of a text connection, which may not end:
  \<open>textLoop\<close> takes a number of rounds, and the theorem about it is for every number. The queues have their capacity of 256.

  \<^bold>\<open>Not modelled.\<close> A handler is one step: between two messages of a bucket everything may interleave,
  within one message nothing does; the program keeps to that except for the goroutines a handler starts,
  which are effects. The capacity of an upper channel is not checked, so a push to a guru that does not
  read is not shown to block. A panic in the handler of an HTTP request ends that request only, as
  \<open>net/http\<close> recovers it; in a goroutine of the program it stops the process. Left out are sockets and the
  goroutines that only copy between them and channels (the websockets), metrics, the start-up of processes, and how the
  mongo client connects. \<open>mainhelpers\<close> is start-up and old code in comments, \<open>tokens/wordlist.go\<close> a list.
\<close>

end
